(* ===== verification/Prelude.thy ===== *)
theory Prelude
  imports Main "HOL-Library.Word" "HOL-Library.AList"
begin

unbundle bit_operations_syntax

text \<open>
  Shared vocabulary of the development: the machine types of the Rust sources, the outcome of a
  fallible Rust function (a value, an error, or a panic), the association lists that stand for
  its concurrent hash maps, big-endian byte strings, and the generic list lemmas the component
  theories use.

  \<^item> \<open>u8\<close>, \<open>u16\<close>, \<open>u32\<close>, \<open>u64\<close> are words of that width. An \<open>i64\<close> is a
    64-bit word read with \<open>sint\<close>; a cast between \<open>u64\<close> and \<open>i64\<close> is therefore the
    identity, as it is in Rust. \<open>usize\<close> is \<open>nat\<close>: it counts bytes held in memory.
  \<^item> \<open>Vec<u8>\<close>, \<open>Bytes\<close>, \<open>BytesMut\<close> and \<open>&[u8]\<close> are byte lists. A Rust
    \<open>String\<close> is the byte list of its UTF-8 encoding (\<open>rstring\<close>), because the sources
    measure and slice strings in bytes.
  \<^item> \<open>outcome\<close> keeps a panic apart from an error value: a panic unwinds the thread.
\<close>

section \<open>Types\<close>

type_synonym u8 = "8 word"
type_synonym u16 = "16 word"
type_synonym u32 = "32 word"
type_synonym u64 = "64 word"
type_synonym i64 = "64 word"
type_synonym bytes = "u8 list"
type_synonym rstring = "u8 list"
type_synonym ('k, 'v) dashmap = "('k \<times> 'v) list"

named_theorems wire_simps \<open>byte-level equations of readers and writers\<close>
named_theorems no_panic \<open>operations that never panic\<close>

section \<open>Outcomes\<close>

datatype ('e, 'a) outcome = Ok 'a | Err 'e | Panic

primrec bindo :: "('e, 'a) outcome \<Rightarrow> ('a \<Rightarrow> ('e, 'b) outcome) \<Rightarrow> ('e, 'b) outcome" where
  "bindo (Ok x) f = f x"
| "bindo (Err e) f = Err e"
| "bindo Panic f = Panic"

lemma bindo_Ok_right [simp]: "bindo m Ok = m"
  by (cases m) simp_all

lemma bindo_assoc: "bindo (bindo m f) g = bindo m (\<lambda>x. bindo (f x) g)"
  by (cases m) simp_all

lemma bindo_eq_Ok: "bindo m f = Ok y \<longleftrightarrow> (\<exists>x. m = Ok x \<and> f x = Ok y)"
  by (cases m) simp_all

lemma bindo_eq_Panic: "bindo m f = Panic \<longleftrightarrow> m = Panic \<or> (\<exists>x. m = Ok x \<and> f x = Panic)"
  by (cases m) simp_all

lemma bindo_cong [fundef_cong]:
  "m = m' \<Longrightarrow> (\<And>x. m' = Ok x \<Longrightarrow> f x = f' x) \<Longrightarrow> bindo m f = bindo m' f'"
  by (cases m') simp_all

lemma bindo_no_panic [no_panic]:
  "m \<noteq> Panic \<Longrightarrow> (\<And>x. m = Ok x \<Longrightarrow> f x \<noteq> Panic) \<Longrightarrow> bindo m f \<noteq> Panic"
  by (simp add: bindo_eq_Panic)

text \<open>
  Indexing, slicing and copying a slice as Rust does them: outside the bounds the thread panics.
\<close>

definition byte_at :: "'a list \<Rightarrow> nat \<Rightarrow> ('e, 'a) outcome" where
  "byte_at xs i = (if i < length xs then Ok (xs ! i) else Panic)"

definition byte_slice :: "'a list \<Rightarrow> nat \<Rightarrow> nat \<Rightarrow> ('e, 'a list) outcome" where
  "byte_slice xs i j = (if i \<le> j \<and> j \<le> length xs then Ok (take (j - i) (drop i xs)) else Panic)"

definition copy_from_slice :: "'a list \<Rightarrow> 'a list \<Rightarrow> ('e, 'a list) outcome" where
  "copy_from_slice dst src = (if length src = length dst then Ok src else Panic)"

lemma byte_at_Ok [simp]: "i < length xs \<Longrightarrow> byte_at xs i = Ok (xs ! i)"
  by (simp add: byte_at_def)

lemma byte_slice_Ok [simp]:
  "i \<le> j \<Longrightarrow> j \<le> length xs \<Longrightarrow> byte_slice xs i j = Ok (take (j - i) (drop i xs))"
  by (simp add: byte_slice_def)

lemma copy_from_slice_Ok [simp]: "length src = length dst \<Longrightarrow> copy_from_slice dst src = Ok src"
  by (simp add: copy_from_slice_def)

section \<open>Byte strings\<close>

text \<open>A byte-string or string literal of the source, e.g. \<open>b"0100"\<close> or \<open>"0100"\<close>.\<close>

definition ascii :: "string \<Rightarrow> bytes" where
  "ascii s = map of_char s"

text \<open>\<open>slice.starts_with(p)\<close> and \<open>slice.ends_with(p)\<close>.\<close>

definition starts_with :: "'a list \<Rightarrow> 'a list \<Rightarrow> bool" where
  "starts_with xs p \<longleftrightarrow> take (length p) xs = p"

definition ends_with :: "'a list \<Rightarrow> 'a list \<Rightarrow> bool" where
  "ends_with xs p \<longleftrightarrow> length p \<le> length xs \<and> drop (length xs - length p) xs = p"

text \<open>
  \<open>to_be_bytes\<close>: the low \<open>k\<close> bytes of a number, most significant first;
  \<open>from_be_bytes\<close> followed by a cast to \<open>usize\<close>.
\<close>

primrec to_be_bytes :: "nat \<Rightarrow> nat \<Rightarrow> bytes" where
  "to_be_bytes 0 n = []"
| "to_be_bytes (Suc k) n = to_be_bytes k (n div 256) @ [of_nat (n mod 256)]"

definition from_be_bytes :: "bytes \<Rightarrow> nat" where
  "from_be_bytes bs = foldl (\<lambda>a b. a * 256 + unat b) 0 bs"

section \<open>Lemmas\<close>

lemma starts_with_append [simp]: "starts_with (p @ xs) p"
  by (simp add: starts_with_def)

lemma starts_with_iff: "starts_with xs p \<longleftrightarrow> (\<exists>ys. xs = p @ ys)"
  by (metis append_eq_conv_conj append_take_drop_id starts_with_def)

lemma starts_with_length: "starts_with xs p \<Longrightarrow> length p \<le> length xs"
  by (auto simp: starts_with_iff)

lemma length_to_be_bytes [simp]: "length (to_be_bytes k n) = k"
  by (induction k arbitrary: n) simp_all

lemma from_be_bytes_snoc: "from_be_bytes (bs @ [b]) = from_be_bytes bs * 256 + unat b"
  by (simp add: from_be_bytes_def)

lemma unat_of_nat_u8: "unat (of_nat n :: u8) = n mod 256"
  by (simp add: unat_of_nat)

lemma from_be_to_be_bytes: "from_be_bytes (to_be_bytes k n) = n mod 256 ^ k"
proof (induction k arbitrary: n)
  case 0
  show ?case by (simp add: from_be_bytes_def)
next
  case (Suc k)
  have "from_be_bytes (to_be_bytes (Suc k) n)
      = (n div 256) mod 256 ^ k * 256 + n mod 256 mod 256"
    by (simp only: to_be_bytes.simps from_be_bytes_snoc Suc.IH unat_of_nat_u8)
  also have "\<dots> = n mod 256 ^ Suc k"
    by (simp add: mod_mult2_eq mult.commute)
  finally show ?case .
qed

lemma from_be_bytes_bound: "from_be_bytes bs < 256 ^ length bs"
proof (induction bs rule: rev_induct)
  case Nil
  show ?case by (simp add: from_be_bytes_def)
next
  case (snoc b bs)
  have "unat b < 256" by (rule unsigned_less [of b, simplified])
  with snoc.IH show ?case by (simp add: from_be_bytes_snoc)
qed

lemma take_drop_middle [simp]:
  "take (length ys) (drop (length xs) (xs @ ys @ zs)) = ys"
  by simp

lemma filter_eq_self_sorted:
  assumes "sorted_wrt (<) xs" and "set xs = {n \<in> set ys. P n}" and "sorted_wrt (<) (ys :: nat list)"
  shows "filter P ys = xs"
proof (rule sorted_distinct_set_unique)
  show "sorted (filter P ys)" and "distinct (filter P ys)"
    using assms(3) by (auto simp: strict_sorted_iff intro: sorted_filter [where f = id, simplified])
  show "sorted xs" and "distinct xs"
    using assms(1) by (auto simp: strict_sorted_iff)
  show "set (filter P ys) = set xs" using assms(2) by auto
qed

lemma map_of_deletes:
  "map_of (foldl (\<lambda>d k. AList.delete k d) db keys) k = (if k \<in> set keys then None else map_of db k)"
  by (induction keys arbitrary: db) (simp_all add: delete_conv')

end
