(* ===== verification/Rust_Std.thy ===== *)
theory Rust_Std
  imports Prelude
begin

text \<open>
  The parts of the Rust standard library the sources rely on: UTF-8 validation and the lossy
  conversion \<open>String::from_utf8_lossy\<close>, slicing of strings at character boundaries (a slice
  off a boundary panics), decimal formatting \<open>format!("{:0w}", n)\<close> and the parsers of the
  unsigned integer types. The lemmas at the end give the laws the component theories use:
  lossy conversion is the identity on valid text and always yields valid text, and parsing
  undoes formatting.
\<close>

section \<open>UTF-8\<close>

text \<open>
  \<open>utf8_chunk b xs\<close> reads one character that starts with byte \<open>b\<close> and continues in
  \<open>xs\<close>: how many bytes of \<open>xs\<close> belong to it, and whether they form a valid character.
  On an invalid one the count covers the longest valid prefix, as in the library's
  \<open>Utf8Chunks\<close>.
\<close>

definition is_cont :: "u8 \<Rightarrow> bool" where
  "is_cont b \<longleftrightarrow> 0x80 \<le> b \<and> b \<le> 0xBF"

definition utf8_width :: "u8 \<Rightarrow> nat" where
  "utf8_width b =
     (if b < 0x80 then 1
      else if 0xC2 \<le> b \<and> b \<le> 0xDF then 2
      else if 0xE0 \<le> b \<and> b \<le> 0xEF then 3
      else if 0xF0 \<le> b \<and> b \<le> 0xF4 then 4
      else 0)"

definition second_ok :: "u8 \<Rightarrow> u8 \<Rightarrow> bool" where
  "second_ok b c \<longleftrightarrow> is_cont c \<and>
     (b = 0xE0 \<longrightarrow> 0xA0 \<le> c) \<and> (b = 0xED \<longrightarrow> c \<le> 0x9F) \<and>
     (b = 0xF0 \<longrightarrow> 0x90 \<le> c) \<and> (b = 0xF4 \<longrightarrow> c \<le> 0x8F)"

definition safe_get :: "bytes \<Rightarrow> nat \<Rightarrow> u8" where
  "safe_get xs i = (if i < length xs then xs ! i else 0)"

definition utf8_chunk :: "u8 \<Rightarrow> bytes \<Rightarrow> nat \<times> bool" where
  "utf8_chunk b xs =
     (let w = utf8_width b in
      if w = 1 then (0, True)
      else if w = 0 then (0, False)
      else if \<not> second_ok b (safe_get xs 0) then (0, False)
      else if w = 2 then (1, True)
      else if \<not> is_cont (safe_get xs 1) then (1, False)
      else if w = 3 then (2, True)
      else if \<not> is_cont (safe_get xs 2) then (2, False)
      else (3, True))"

fun from_utf8_lossy :: "bytes \<Rightarrow> rstring" where
  "from_utf8_lossy [] = []"
| "from_utf8_lossy (b # xs) =
     (case utf8_chunk b xs of (n, ok) \<Rightarrow>
        (if ok then b # take n xs else [0xEF, 0xBF, 0xBD]) @ from_utf8_lossy (drop n xs))"

fun valid_utf8 :: "bytes \<Rightarrow> bool" where
  "valid_utf8 [] = True"
| "valid_utf8 (b # xs) =
     (case utf8_chunk b xs of (n, ok) \<Rightarrow> ok \<and> valid_utf8 (drop n xs))"

section \<open>String slices\<close>

definition is_char_boundary :: "rstring \<Rightarrow> nat \<Rightarrow> bool" where
  "is_char_boundary s i \<longleftrightarrow>
     i = 0 \<or> i = length s \<or> (i < length s \<and> \<not> is_cont (s ! i))"

text \<open>\<open>&s[a..b]\<close>; \<open>None\<close> is the panic.\<close>

definition str_slice :: "rstring \<Rightarrow> nat \<Rightarrow> nat \<Rightarrow> rstring option" where
  "str_slice s a b =
     (if a \<le> b \<and> is_char_boundary s a \<and> is_char_boundary s b
      then Some (take (b - a) (drop a s)) else None)"

section \<open>Decimal numbers\<close>

definition is_digit :: "u8 \<Rightarrow> bool" where
  "is_digit b \<longleftrightarrow> 0x30 \<le> b \<and> b \<le> 0x39"

definition digit_value :: "u8 \<Rightarrow> nat" where
  "digit_value b = unat b - 48"

definition decimal_value :: "bytes \<Rightarrow> nat" where
  "decimal_value bs = foldl (\<lambda>a b. a * 10 + digit_value b) 0 bs"

text \<open>
  \<open>str::parse\<close> at an unsigned type with largest value \<open>mx\<close>: an optional leading plus
  sign, then at least one digit; \<open>None\<close> is \<open>Err\<close>.
\<close>

definition parse_unsigned :: "nat \<Rightarrow> rstring \<Rightarrow> nat option" where
  "parse_unsigned mx s =
     (let ds = (case s of [] \<Rightarrow> [] | b # rest \<Rightarrow> if b = 0x2B \<and> rest \<noteq> [] then rest else s) in
      if ds \<noteq> [] \<and> list_all is_digit ds \<and> decimal_value ds \<le> mx
      then Some (decimal_value ds) else None)"

abbreviation parse_usize :: "rstring \<Rightarrow> nat option" where
  "parse_usize \<equiv> parse_unsigned (2 ^ 64 - 1)"

fun digits :: "nat \<Rightarrow> bytes" where
  "digits n = (if n < 10 then [of_nat (48 + n)] else digits (n div 10) @ [of_nat (48 + n mod 10)])"

declare digits.simps [simp del]

text \<open>\<open>format!("{:0w}", n)\<close>.\<close>

definition format_padded :: "nat \<Rightarrow> nat \<Rightarrow> rstring" where
  "format_padded w n = replicate (w - length (digits n)) 0x30 @ digits n"

section \<open>Laws of UTF-8 conversion\<close>

lemma utf8_chunk_ascii [simp]: "b < 0x80 \<Longrightarrow> utf8_chunk b xs = (0, True)"
  by (simp add: utf8_chunk_def utf8_width_def)

lemma safe_get_bound: "is_cont (safe_get xs i) \<Longrightarrow> i < length xs"
  by (auto simp: safe_get_def is_cont_def split: if_splits)

lemma second_ok_bound: "second_ok b (safe_get xs i) \<Longrightarrow> Suc i \<le> length xs"
  by (auto simp: second_ok_def dest: safe_get_bound)

lemma utf8_chunk_bound: "utf8_chunk b xs = (n, ok) \<Longrightarrow> n \<le> length xs"
  using second_ok_bound [of b xs 0] safe_get_bound [of xs 1] safe_get_bound [of xs 2]
  by (auto simp: utf8_chunk_def Let_def split: if_splits)

text \<open>A valid character: the width of its first byte fixes the number of continuation bytes.\<close>

lemma utf8_width_cases: "utf8_width b \<in> {0, 1, 2, 3, 4}"
  by (simp add: utf8_width_def)

lemma utf8_chunk_ok_iff:
  "utf8_chunk b xs = (n, True) \<longleftrightarrow>
     utf8_width b = Suc n \<and> (1 \<le> n \<longrightarrow> second_ok b (safe_get xs 0)) \<and>
     (2 \<le> n \<longrightarrow> is_cont (safe_get xs 1)) \<and> (3 \<le> n \<longrightarrow> is_cont (safe_get xs 2))"
proof -
  consider "utf8_width b = 0" | "utf8_width b = 1" | "utf8_width b = 2" | "utf8_width b = 3"
    | "utf8_width b = 4"
    using utf8_width_cases [of b] by auto
  then show ?thesis by cases (auto simp: utf8_chunk_def)
qed

lemma utf8_chunk_prefix:
  assumes "utf8_chunk b xs = (n, True)" and "take n ys = take n xs"
  shows "utf8_chunk b ys = (n, True)"
proof -
  have "n \<le> length xs" using assms(1) by (rule utf8_chunk_bound)
  then have "safe_get ys i = safe_get xs i" if "i < n" for i
    using assms(2) that by (metis nth_take safe_get_def length_take less_le_trans min.absorb2 min_less_iff_conj)
  then show ?thesis using assms(1) unfolding utf8_chunk_ok_iff by auto
qed

lemma utf8_chunk_take:
  "utf8_chunk b xs = (n, True) \<Longrightarrow> utf8_chunk b (take n xs @ ys) = (n, True)"
  by (frule utf8_chunk_bound) (erule utf8_chunk_prefix, simp)

lemma utf8_chunk_append:
  "utf8_chunk b xs = (n, True) \<Longrightarrow> utf8_chunk b (xs @ ys) = (n, True)"
  by (frule utf8_chunk_bound) (erule utf8_chunk_prefix, simp)

lemma valid_utf8_append: "valid_utf8 s \<Longrightarrow> valid_utf8 t \<Longrightarrow> valid_utf8 (s @ t)"
proof (induction s rule: valid_utf8.induct)
  case 1
  then show ?case by simp
next
  case (2 b xs)
  then obtain n where n: "utf8_chunk b xs = (n, True)" and v: "valid_utf8 (drop n xs)"
    by (auto split: prod.splits)
  have "n \<le> length xs" using n by (rule utf8_chunk_bound)
  then have "drop n (xs @ t) = drop n xs @ t" by simp
  with 2 n v utf8_chunk_append [OF n, of t] show ?case by simp
qed

lemma valid_utf8_char: "utf8_chunk b xs = (n, True) \<Longrightarrow> valid_utf8 (b # take n xs)"
  using utf8_chunk_take [of b xs n "[]"] by simp

lemma replacement_valid: "valid_utf8 [0xEF, 0xBF, 0xBD]"
  by (simp add: utf8_chunk_def utf8_width_def second_ok_def is_cont_def safe_get_def Let_def)

lemma valid_utf8_lossy [simp]: "valid_utf8 (from_utf8_lossy s)"
proof (induction s rule: from_utf8_lossy.induct)
  case 1
  show ?case by simp
next
  case (2 b xs)
  obtain n ok where c: "utf8_chunk b xs = (n, ok)" by (cases "utf8_chunk b xs")
  with 2 have "valid_utf8 (from_utf8_lossy (drop n xs))" by simp
  moreover have "valid_utf8 (if ok then b # take n xs else [0xEF, 0xBF, 0xBD])"
    using c valid_utf8_char [of b xs n] replacement_valid by auto
  ultimately show ?case by (simp only: from_utf8_lossy.simps c prod.case valid_utf8_append)
qed

lemma lossy_valid [simp]: "valid_utf8 s \<Longrightarrow> from_utf8_lossy s = s"
proof (induction s rule: valid_utf8.induct)
  case (2 b xs)
  then show ?case by (auto split: prod.splits)
qed simp

lemma valid_utf8_Nil_lossy [simp]: "from_utf8_lossy s = [] \<longleftrightarrow> s = []"
  by (cases s) (auto split: prod.splits)

text \<open>A lossy conversion that shows no replacement character changed nothing.\<close>

lemma lossy_unreplaced: "0xEF \<notin> set (from_utf8_lossy s) \<Longrightarrow> from_utf8_lossy s = s"
proof (induction s rule: from_utf8_lossy.induct)
  case (2 b xs)
  obtain n ok where c: "utf8_chunk b xs = (n, ok)" by (cases "utf8_chunk b xs")
  with "2.prems" have "ok" and "0xEF \<notin> set (from_utf8_lossy (drop n xs))" by (auto split: if_splits)
  with "2.IH" [OF c [symmetric]] c show ?case by simp
qed simp

lemma lossy_eq_plain: "valid_utf8 a \<Longrightarrow> 0xEF \<notin> set a \<Longrightarrow> from_utf8_lossy m = a \<longleftrightarrow> m = a"
  using lossy_unreplaced [of m] by auto

lemma valid_utf8_ascii: "list_all (\<lambda>b. b < 0x80) s \<Longrightarrow> valid_utf8 s"
  by (induction s) simp_all

lemma boundary_le: "is_char_boundary s i \<Longrightarrow> i \<le> length s"
  by (auto simp: is_char_boundary_def)

lemma ascii_boundary: "list_all (\<lambda>b. b < 0x80) s \<Longrightarrow> i \<le> length s \<Longrightarrow> is_char_boundary s i"
  by (auto simp: is_char_boundary_def is_cont_def list_all_length not_le)

text \<open>A valid string splits at every character boundary into valid strings.\<close>

lemma utf8_chunk_cont:
  assumes "utf8_chunk b xs = (n, True)" and "j < n"
  shows "is_cont (xs ! j)"
proof -
  have get: "is_cont (safe_get xs i) \<Longrightarrow> is_cont (xs ! i)" for i
    by (metis safe_get_bound safe_get_def)
  have "utf8_width b = Suc n" using assms(1) by (simp add: utf8_chunk_ok_iff)
  then have "j = 0 \<or> j = 1 \<and> 2 \<le> n \<or> j = 2 \<and> 3 \<le> n"
    using utf8_width_cases [of b] assms(2) by auto
  then show ?thesis
    using assms unfolding utf8_chunk_ok_iff
    by (elim disjE) (auto simp: second_ok_def intro: get)
qed

lemma boundary_tail:
  assumes "utf8_chunk b xs = (n, True)" and "is_char_boundary (b # xs) i" and "i \<noteq> 0"
  shows "Suc n \<le> i" and "is_char_boundary (drop n xs) (i - Suc n)"
proof -
  have n: "n \<le> length xs" using assms(1) by (rule utf8_chunk_bound)
  show "Suc n \<le> i"
  proof (rule ccontr)
    assume "\<not> Suc n \<le> i"
    then have "i - 1 < n" and "i \<noteq> length (b # xs)" using assms(3) n by auto
    then show False
      using utf8_chunk_cont [OF assms(1), of "i - 1"] assms(2,3)
      by (auto simp: is_char_boundary_def nth_Cons')
  qed
  then show "is_char_boundary (drop n xs) (i - Suc n)"
    using assms(2,3) n by (auto simp: is_char_boundary_def nth_Cons')
qed

lemma valid_utf8_split:
  "valid_utf8 s \<Longrightarrow> is_char_boundary s i \<Longrightarrow> valid_utf8 (take i s) \<and> valid_utf8 (drop i s)"
proof (induction s arbitrary: i rule: valid_utf8.induct)
  case 1
  then show ?case by simp
next
  case (2 b xs)
  then obtain n where c: "utf8_chunk b xs = (n, True)" and v: "valid_utf8 (drop n xs)"
    by (auto split: prod.splits)
  show ?case
  proof (cases "i = 0")
    case True
    with "2.prems" show ?thesis by simp
  next
    case False
    note i = boundary_tail [OF c "2.prems"(2) False]
    have IH: "valid_utf8 (take (i - Suc n) (drop n xs)) \<and> valid_utf8 (drop (i - Suc n) (drop n xs))"
      using "2.IH" [OF c [symmetric]] v i(2) by simp
    have "take i (b # xs) = (b # take n xs) @ take (i - Suc n) (drop n xs)"
      using i(1) by (cases i) (simp_all add: take_add [symmetric])
    moreover have "drop i (b # xs) = drop (i - Suc n) (drop n xs)"
      using i(1) by (cases i) simp_all
    ultimately show ?thesis
      using IH valid_utf8_char [OF c] by (metis valid_utf8_append)
  qed
qed

lemma str_slice_valid:
  assumes "valid_utf8 s" and "str_slice s a b = Some t"
  shows "valid_utf8 t"
proof -
  have b: "a \<le> b" "is_char_boundary s a" "is_char_boundary s b" "t = take (b - a) (drop a s)"
    using assms(2) by (auto simp: str_slice_def split: if_splits)
  have "is_char_boundary (drop a s) (b - a)"
    using b boundary_le [OF b(3)] by (auto simp: is_char_boundary_def)
  then show ?thesis
    using b(4) valid_utf8_split [OF assms(1) b(2)] valid_utf8_split by blast
qed

lemma boundary_append: "valid_utf8 t \<Longrightarrow> is_char_boundary (s @ t) (length s)"
proof (cases t)
  case (Cons b xs)
  assume "valid_utf8 t"
  then have "utf8_width b \<noteq> 0"
    using Cons by (auto simp: utf8_chunk_def Let_def split: if_splits)
  moreover have "is_cont b \<Longrightarrow> utf8_width b = 0"
    by (auto simp: is_cont_def utf8_width_def word_le_nat_alt word_less_nat_alt)
  ultimately have "\<not> is_cont b" by auto
  then show ?thesis using Cons by (simp add: is_char_boundary_def)
qed (simp add: is_char_boundary_def)

text \<open>Cutting a concatenation of strings where its parts meet.\<close>

lemma str_slice_parts:
  assumes "valid_utf8 t" and "valid_utf8 u"
  shows "str_slice (s @ t @ u) (length s) (length s + length t) = Some t"
proof -
  have "is_char_boundary (s @ t @ u) (length s)"
    using assms by (intro boundary_append valid_utf8_append)
  moreover have "is_char_boundary ((s @ t) @ u) (length (s @ t))"
    using assms(2) by (rule boundary_append)
  ultimately show ?thesis by (simp add: str_slice_def)
qed

lemma str_slice_ascii:
  "list_all (\<lambda>b. b < 0x80) s \<Longrightarrow> a \<le> b \<Longrightarrow> b \<le> length s \<Longrightarrow>
    str_slice s a b = Some (take (b - a) (drop a s))"
  by (simp add: str_slice_def ascii_boundary)

lemma str_slice_length: "str_slice s a b = Some t \<Longrightarrow> length t = b - a"
  by (auto simp: str_slice_def dest!: boundary_le split: if_splits)

section \<open>Laws of decimal formatting and parsing\<close>

lemma of_nat_digit [simp]:
  assumes "d < 10"
  shows "is_digit (of_nat (48 + d))" and "digit_value (of_nat (48 + d)) = d"
proof -
  have "unat (of_nat (48 + d) :: u8) = 48 + d"
    using assms by (simp only: unat_of_nat_u8 mod_less)
  then show "is_digit (of_nat (48 + d))" and "digit_value (of_nat (48 + d)) = d"
    using assms by (simp_all add: is_digit_def digit_value_def word_le_nat_alt)
qed

lemma is_digit_ascii: "is_digit b \<Longrightarrow> b < 0x80"
  by (auto simp: is_digit_def elim: order_le_less_trans)

lemma decimal_value_snoc: "decimal_value (bs @ [b]) = decimal_value bs * 10 + digit_value b"
  by (simp add: decimal_value_def)

lemma decimal_value_zeros [simp]: "decimal_value (replicate k 0x30 @ bs) = decimal_value bs"
  by (induction k) (simp_all add: decimal_value_def digit_value_def)

lemma digits_digit: "list_all is_digit (digits n)"
proof (induction n rule: digits.induct)
  case (1 n)
  then show ?case
    using of_nat_digit(1) [of n] of_nat_digit(1) [of "n mod 10"]
    by (subst digits.simps) simp
qed

lemma digits_nonempty [simp]: "digits n \<noteq> []"
  by (subst digits.simps) simp

lemma decimal_value_digits [simp]: "decimal_value (digits n) = n"
proof (induction n rule: digits.induct)
  case (1 n)
  show ?case
  proof (cases "n < 10")
    case True
    then show ?thesis
      using of_nat_digit(2) [of n] by (subst digits.simps) (simp add: decimal_value_def)
  next
    case False
    then have "decimal_value (digits n) = n div 10 * 10 + digit_value (of_nat (48 + n mod 10))"
      using 1 by (subst digits.simps) (simp add: decimal_value_snoc)
    then show ?thesis by (simp only: of_nat_digit mod_less_divisor zero_less_numeral) simp
  qed
qed

lemma length_digits_le: "n < 10 ^ w \<Longrightarrow> 0 < w \<Longrightarrow> length (digits n) \<le> w"
proof (induction n arbitrary: w rule: digits.induct)
  case (1 n)
  show ?case
  proof (cases "n < 10")
    case True
    with 1 show ?thesis by (subst digits.simps) simp
  next
    case False
    with "1.prems" obtain v where w: "w = Suc v" and v: "0 < v"
      by (cases w; cases "w - 1") auto
    with "1.prems" have "n div 10 < 10 ^ v" by (simp add: less_mult_imp_div_less mult.commute)
    with "1.IH" [OF False this v] False w show ?thesis by (subst digits.simps) simp
  qed
qed

lemma length_format_padded: "n < 10 ^ w \<Longrightarrow> 0 < w \<Longrightarrow> length (format_padded w n) = w"
  using length_digits_le [of n w] by (simp add: format_padded_def)

lemma format_padded_digit: "list_all is_digit (format_padded w n)"
  using digits_digit [of n] by (auto simp: format_padded_def list_all_iff is_digit_def)

lemma format_padded_nonempty [simp]: "format_padded w n \<noteq> []"
  by (simp add: format_padded_def)

lemma format_padded_ascii: "list_all (\<lambda>b. b < 0x80) (format_padded w n)"
  using format_padded_digit [of w n] by (auto simp: list_all_iff is_digit_ascii)

lemma format_padded_valid [simp]: "valid_utf8 (format_padded w n)"
  by (rule valid_utf8_ascii) (rule format_padded_ascii)

lemma parse_unsigned_digits:
  assumes "ds \<noteq> []" and "list_all is_digit ds" and "decimal_value ds \<le> mx"
  shows "parse_unsigned mx ds = Some (decimal_value ds)"
proof -
  obtain b rest where "ds = b # rest" using assms(1) by (cases ds) auto
  moreover from this have "b \<noteq> 0x2B" using assms(2) by (auto simp: is_digit_def)
  ultimately show ?thesis using assms by (simp add: parse_unsigned_def)
qed

lemma parse_format_padded [simp]:
  "n \<le> mx \<Longrightarrow> parse_unsigned mx (format_padded w n) = Some n"
  by (subst parse_unsigned_digits [OF _ format_padded_digit]) (simp_all add: format_padded_def)

lemma parse_unsigned_bound: "parse_unsigned mx s = Some n \<Longrightarrow> n \<le> mx"
  by (auto simp: parse_unsigned_def Let_def split: if_splits)

lemma format_padded_inj: "format_padded w m = format_padded w n \<Longrightarrow> m = n"
  by (metis decimal_value_digits decimal_value_zeros format_padded_def)

end
