(* ===== verification/Canonical.thy ===== *)
theory Canonical
  imports Rust_Std
begin

text \<open>
  The canonical data model of \<open>payment-proto/src/canonical.rs\<close>, the protobuf
  \<open>Transaction\<close> of \<open>proto/payment.proto\<close>, and the conversions \<open>to_pb\<close> and
  \<open>from_pb\<close> of \<open>switch-core/src/lib.rs\<close>. The one-field wrapper structs
  (\<open>Stan(String)\<close> and its like) are their strings. \<open>event_ok\<close> and \<open>pb_ok\<close>
  are the type invariant that Rust's \<open>String\<close> carries: every string is valid UTF-8.
\<close>

section \<open>Data\<close>

datatype message_class =
    Authorization
  | Financial
  | ReversalAdvice
  | ReversalResponse
  | NetworkManagement
  | NetworkManagementResponse
  | FileUpdate

datatype transaction_type =
    CashWithdrawal
  | BalanceInquiry
  | Purchase
  | Refund
  | Settlement

record event =
  message_class :: message_class
  transaction_type :: transaction_type
  mti :: bytes
  fpan :: bytes
  dpan :: "rstring option"
  is_tokenized :: bool
  tavv_cryptogram :: "rstring option"
  processing_code :: rstring
  amount :: u64
  stan :: rstring
  local_time :: rstring
  local_date :: rstring
  rrn :: rstring
  response_code :: rstring
  acquirer_id :: bytes
  pin_block :: bytes
  risk_score :: u8
  requires_instant_clearing :: bool
  domestic_settlement_data :: "rstring option"
  source_account :: "rstring option"
  destination_account :: "rstring option"
  original_data_elements :: "rstring option"
  mac_data :: "rstring option"
  is_reversal :: bool

record transaction =
  pb_mti :: rstring
  pb_pan :: rstring
  pb_processing_code :: rstring
  pb_amount :: i64
  pb_stan :: rstring
  pb_rrn :: rstring
  pb_response_code :: rstring
  pb_acquirer_id :: rstring
  pb_pin_block :: rstring
  pb_local_time :: rstring
  pb_local_date :: rstring

section \<open>Operations\<close>

text \<open>The match from MTI to message class that every decoder repeats.\<close>

definition class_of_mti :: "bytes \<Rightarrow> message_class" where
  "class_of_mti m =
     (if m = ascii ''0100'' \<or> m = ascii ''0110'' then Authorization
      else if m = ascii ''0200'' \<or> m = ascii ''0210'' then Financial
      else if m = ascii ''0420'' \<or> m = ascii ''0421'' then ReversalAdvice
      else if m = ascii ''0430'' then ReversalResponse
      else if m = ascii ''0800'' then NetworkManagement
      else if m = ascii ''0810'' then NetworkManagementResponse
      else Financial)"

text \<open>The struct literal with which every decoder starts.\<close>

definition blank_event :: "message_class \<Rightarrow> bytes \<Rightarrow> bool \<Rightarrow> bool \<Rightarrow> event" where
  "blank_event cls m instant reversal =
     \<lparr> message_class = cls, transaction_type = Purchase, mti = m, fpan = [], dpan = None,
       is_tokenized = False, tavv_cryptogram = None, processing_code = [], amount = 0,
       stan = [], local_time = [], local_date = [], rrn = [], response_code = [],
       acquirer_id = [], pin_block = [], risk_score = 0, requires_instant_clearing = instant,
       domestic_settlement_data = None, source_account = None, destination_account = None,
       original_data_elements = None, mac_data = None, is_reversal = reversal \<rparr>"

definition to_pb :: "event \<Rightarrow> transaction" where
  "to_pb e =
     \<lparr> pb_mti = from_utf8_lossy (mti e),
       pb_pan = from_utf8_lossy (fpan e),
       pb_processing_code = processing_code e,
       pb_amount = amount e,
       pb_stan = stan e,
       pb_rrn = rrn e,
       pb_response_code = response_code e,
       pb_acquirer_id = from_utf8_lossy (acquirer_id e),
       pb_pin_block = from_utf8_lossy (pin_block e),
       pb_local_time = local_time e,
       pb_local_date = local_date e \<rparr>"

definition from_pb :: "transaction \<Rightarrow> event" where
  "from_pb p =
     \<lparr> message_class = class_of_mti (pb_mti p), transaction_type = Purchase,
       mti = pb_mti p, fpan = pb_pan p, dpan = None, is_tokenized = False,
       tavv_cryptogram = None, processing_code = pb_processing_code p, amount = pb_amount p,
       stan = pb_stan p, local_time = pb_local_time p, local_date = pb_local_date p,
       rrn = pb_rrn p, response_code = pb_response_code p, acquirer_id = pb_acquirer_id p,
       pin_block = pb_pin_block p, risk_score = 0, requires_instant_clearing = False,
       domestic_settlement_data = None, source_account = None, destination_account = None,
       original_data_elements = None, mac_data = None, is_reversal = False \<rparr>"

section \<open>The string type invariant\<close>

definition opt_valid :: "rstring option \<Rightarrow> bool" where
  "opt_valid v = (case v of None \<Rightarrow> True | Some s \<Rightarrow> valid_utf8 s)"

definition event_ok :: "event \<Rightarrow> bool" where
  "event_ok e \<longleftrightarrow>
     list_all valid_utf8
       [processing_code e, stan e, local_time e, local_date e, rrn e, response_code e] \<and>
     list_all opt_valid
       [dpan e, tavv_cryptogram e, domestic_settlement_data e, source_account e,
        destination_account e, original_data_elements e, mac_data e]"

definition pb_ok :: "transaction \<Rightarrow> bool" where
  "pb_ok p \<longleftrightarrow>
     list_all valid_utf8
       [pb_mti p, pb_pan p, pb_processing_code p, pb_stan p, pb_rrn p, pb_response_code p,
        pb_acquirer_id p, pb_pin_block p, pb_local_time p, pb_local_date p]"

text \<open>Byte fields that survive the protobuf form unchanged.\<close>

definition text_fields_ok :: "event \<Rightarrow> bool" where
  "text_fields_ok e \<longleftrightarrow> list_all valid_utf8 [mti e, fpan e, acquirer_id e, pin_block e]"

section \<open>Lemmas\<close>

lemma opt_valid_simps [simp]: "opt_valid None" "opt_valid (Some s) \<longleftrightarrow> valid_utf8 s"
  by (simp_all add: opt_valid_def)

lemma event_ok_blank [simp]: "event_ok (blank_event c m i r)"
  by (simp add: event_ok_def blank_event_def)

lemma to_pb_ok: "event_ok e \<Longrightarrow> pb_ok (to_pb e)"
  by (simp add: event_ok_def pb_ok_def to_pb_def)

lemma from_pb_ok: "pb_ok p \<Longrightarrow> event_ok (from_pb p)"
  by (simp add: event_ok_def pb_ok_def from_pb_def)

lemma to_from_pb: "pb_ok p \<Longrightarrow> to_pb (from_pb p) = p"
  by (simp add: pb_ok_def from_pb_def to_pb_def)

text \<open>What the protobuf form keeps of an event, and what it resets.\<close>

lemma from_to_pb:
  assumes "text_fields_ok e"
  shows "from_pb (to_pb e) =
    e\<lparr> message_class := class_of_mti (mti e), transaction_type := Purchase, dpan := None,
       is_tokenized := False, tavv_cryptogram := None, risk_score := 0,
       requires_instant_clearing := False, domestic_settlement_data := None,
       source_account := None, destination_account := None,
       original_data_elements := None, mac_data := None, is_reversal := False \<rparr>"
  using assms by (simp add: text_fields_ok_def from_pb_def to_pb_def)

lemma class_of_mti_cases:
  "class_of_mti m \<in> {Authorization, Financial, ReversalAdvice, ReversalResponse,
     NetworkManagement, NetworkManagementResponse}"
  by (simp add: class_of_mti_def)

end
