(* ===== verification/Iso_Fields.thy ===== *)
theory Iso_Fields
  imports Canonical
begin

text \<open>
  The field-level codec of \<open>payment-proto/src/iso_dialect.rs\<close> (and its identical copy in
  \<open>iso-dialect/src/lib.rs\<close>): presence bitmaps, fixed, LLVAR and LLLVAR fields. A reader takes
  the raw message and the offset and returns the field with the advanced offset; a writer returns
  the bytes it appends to the payload.

  The locale \<open>field_codec\<close> is the contract between a dialect's encoder and its decoder: each
  segment the encoder writes is read back by the decoder's step for that field. Its lemma
  \<open>decode_encoded\<close> lifts the contract from one field to a whole message, once for every
  dialect.
\<close>

section \<open>Definitions\<close>

datatype parse_error = InvalidFormat | UnknownMTI | LengthError

type_synonym 'a parsed = "(parse_error, 'a) outcome"

text \<open>
  The guard of \<open>set_bit\<close> keeps its index inside the bitmap it was given; what is read from a
  message is read with \<open>byte_at\<close> and \<open>byte_slice\<close>, which panic out of range.
\<close>

definition set_bit :: "bytes \<Rightarrow> nat \<Rightarrow> bytes" where
  "set_bit bitmap field =
     (if field < 1 \<or> field > length bitmap * 8 then bitmap
      else let byte_index = (field - 1) div 8; bit_index = (field - 1) mod 8
           in bitmap[byte_index := bitmap ! byte_index OR drop_bit bit_index 0x80])"

definition is_bit_set :: "bytes \<Rightarrow> nat \<Rightarrow> bool parsed" where
  "is_bit_set bitmap field =
     (if field < 1 \<or> field > length bitmap * 8 then Ok False
      else let byte_index = (field - 1) div 8; bit_index = (field - 1) mod 8
           in bindo (byte_at bitmap byte_index) (\<lambda>b. Ok (b AND drop_bit bit_index 0x80 \<noteq> 0)))"

definition read_fixed :: "bytes \<Rightarrow> nat \<Rightarrow> nat \<Rightarrow> (bytes \<times> nat) parsed" where
  "read_fixed data offset len =
     (if offset + len > length data then Err LengthError
      else bindo (byte_slice data offset (offset + len)) (\<lambda>val. Ok (val, offset + len)))"

definition read_var :: "nat \<Rightarrow> bytes \<Rightarrow> nat \<Rightarrow> (bytes \<times> nat) parsed" where
  "read_var w data offset =
     bindo (read_fixed data offset w) (\<lambda>(len_str, offset).
       if \<not> valid_utf8 len_str then Err InvalidFormat
       else case parse_usize len_str of
         None \<Rightarrow> Err InvalidFormat
       | Some len \<Rightarrow> read_fixed data offset len)"

definition read_llvar :: "bytes \<Rightarrow> nat \<Rightarrow> (bytes \<times> nat) parsed" where
  "read_llvar = read_var 2"

definition read_lllvar :: "bytes \<Rightarrow> nat \<Rightarrow> (bytes \<times> nat) parsed" where
  "read_lllvar = read_var 3"

definition write_fixed :: "bytes \<Rightarrow> nat \<Rightarrow> u8 \<Rightarrow> bool \<Rightarrow> bytes" where
  "write_fixed val len pad_char pad_right =
     (if length val \<ge> len then take len val
      else if pad_right then val @ replicate (len - length val) pad_char
      else replicate (len - length val) pad_char @ val)"

definition write_llvar :: "bytes \<Rightarrow> bytes" where
  "write_llvar val = (if length val > 99 then [] else format_padded 2 (length val) @ val)"

definition write_lllvar :: "bytes \<Rightarrow> bytes" where
  "write_lllvar val = (if length val > 999 then [] else format_padded 3 (length val) @ val)"

text \<open>
  An encoder is a sequence of conditional field writes; each sets the presence bit and appends
  to the payload. \<open>put_field\<close> is one of them, \<open>put_fields\<close> runs them in order.
\<close>

type_synonym segment = "bool \<times> nat \<times> bytes"

abbreviation seg_field :: "segment \<Rightarrow> nat" where
  "seg_field s \<equiv> fst (snd s)"

abbreviation seg_bytes :: "segment \<Rightarrow> bytes" where
  "seg_bytes s \<equiv> snd (snd s)"

fun put_field :: "bytes \<times> bytes \<Rightarrow> segment \<Rightarrow> bytes \<times> bytes" where
  "put_field (bitmap, payload) (present, field, written) =
     (if present then (set_bit bitmap field, payload @ written) else (bitmap, payload))"

definition put_fields :: "segment list \<Rightarrow> bytes \<times> bytes" where
  "put_fields segs = foldl put_field (replicate 8 0, []) segs"

text \<open>The leading MTI of an encoded message.\<close>

definition wire_mti :: "event \<Rightarrow> bytes" where
  "wire_mti e = (if length (mti e) \<ge> 4 then take 4 (mti e) else ascii ''0110'')"

text \<open>A decoder runs its step on the present fields in ascending order.\<close>

fun decode_fields ::
  "(nat \<Rightarrow> bool parsed) \<Rightarrow> (nat \<Rightarrow> 's \<Rightarrow> 's parsed) \<Rightarrow> nat list \<Rightarrow> 's \<Rightarrow> 's parsed" where
  "decode_fields is_set step [] st = Ok st"
| "decode_fields is_set step (f # fs) st =
     bindo (is_set f) (\<lambda>present.
       if present then bindo (step f st) (decode_fields is_set step fs)
       else decode_fields is_set step fs st)"

text \<open>Read a field and apply it to the event under construction.\<close>

definition with_field ::
  "(bytes \<times> nat) parsed \<Rightarrow> (bytes \<Rightarrow> event parsed) \<Rightarrow> (event \<times> nat) parsed" where
  "with_field r f = bindo r (\<lambda>(v, offset). bindo (f v) (\<lambda>tx. Ok (tx, offset)))"

text \<open>The presence condition of the amount field, the same in every encoder.\<close>

definition amount_present :: "event \<Rightarrow> bool" where
  "amount_present e \<longleftrightarrow>
     0 < amount e \<or> (starts_with (mti e) (ascii ''02'') \<and> message_class e = Financial)"

definition parse_amount :: "bytes \<Rightarrow> u64" where
  "parse_amount bs =
     (case parse_unsigned (2 ^ 64 - 1) (from_utf8_lossy bs) of None \<Rightarrow> 0 | Some n \<Rightarrow> of_nat n)"

text \<open>Field 48 with the \<open>RSK:NNN:\<close> risk-score prefix; string slices off a boundary panic.\<close>

definition apply_field48 :: "rstring \<Rightarrow> event \<Rightarrow> event parsed" where
  "apply_field48 f48 tx =
     (if starts_with f48 (ascii ''RSK:'') \<and> length f48 \<ge> 8 then
        (case str_slice f48 4 7 of
           None \<Rightarrow> Panic
         | Some score_str \<Rightarrow>
             let tx1 = (case parse_unsigned 255 score_str of
                          Some score \<Rightarrow> tx\<lparr>risk_score := of_nat score\<rparr>
                        | None \<Rightarrow> tx)
             in case str_slice f48 8 (length f48) of
                  None \<Rightarrow> Panic
                | Some remainder \<Rightarrow>
                    Ok (if is_tokenized tx1 \<and> remainder \<noteq> []
                        then tx1\<lparr>tavv_cryptogram := Some remainder\<rparr> else tx1))
      else Ok (if is_tokenized tx then tx\<lparr>tavv_cryptogram := Some f48\<rparr> else tx))"

definition apply_field22 :: "rstring \<Rightarrow> event \<Rightarrow> event" where
  "apply_field22 entry_mode tx =
     (if entry_mode = ascii ''071'' \<or> entry_mode = ascii ''072''
      then tx\<lparr>is_tokenized := True\<rparr> else tx)"

text \<open>What a segment list says about the message: the fields present and the payload.\<close>

definition present_fields :: "segment list \<Rightarrow> nat list" where
  "present_fields segs = map seg_field (filter fst segs)"

definition payload_of :: "segment list \<Rightarrow> bytes" where
  "payload_of segs = concat (map seg_bytes (filter fst segs))"

text \<open>A text field as the receiver sees it: padded or cut to its width, absent when empty.\<close>

definition wire_text :: "rstring \<Rightarrow> nat \<Rightarrow> u8 \<Rightarrow> bool \<Rightarrow> rstring" where
  "wire_text s w pad right = (if s = [] then [] else from_utf8_lossy (write_fixed s w pad right))"

section \<open>Indices in range\<close>

text \<open>
  The guards of the readers keep every index and slice in range, so that the bitmap test is the
  predicate \<open>has_bit\<close>, the readers are the equation \<open>read_fixed_eq\<close>, and a decoder that tests a
  predicate is \<open>decode_present\<close>.
\<close>

definition has_bit :: "bytes \<Rightarrow> nat \<Rightarrow> bool" where
  "has_bit bitmap field \<longleftrightarrow>
     (if field < 1 \<or> field > length bitmap * 8 then False
      else let byte_index = (field - 1) div 8; bit_index = (field - 1) mod 8
           in bitmap ! byte_index AND drop_bit bit_index 0x80 \<noteq> 0)"

fun decode_present ::
  "(nat \<Rightarrow> bool) \<Rightarrow> (nat \<Rightarrow> 's \<Rightarrow> 's parsed) \<Rightarrow> nat list \<Rightarrow> 's \<Rightarrow> 's parsed" where
  "decode_present is_set step [] st = Ok st"
| "decode_present is_set step (f # fs) st =
     (if is_set f then bindo (step f st) (decode_present is_set step fs)
      else decode_present is_set step fs st)"

lemma bit_index_in_range: "\<not> (field < 1 \<or> field > n * 8) \<Longrightarrow> (field - 1) div 8 < (n :: nat)"
  by auto

lemma is_bit_set_has_bit: "is_bit_set bitmap field = Ok (has_bit bitmap field)"
  using bit_index_in_range [of field "length bitmap"] by (auto simp: is_bit_set_def has_bit_def Let_def)

lemma read_fixed_eq:
  "read_fixed data offset len =
     (if offset + len > length data then Err LengthError
      else Ok (take len (drop offset data), offset + len))"
  by (simp add: read_fixed_def)

lemma decode_fields_present:
  "decode_fields (\<lambda>f. Ok (p f)) step fs st = decode_present p step fs st"
proof (induction fs arbitrary: st)
  case (Cons f fs)
  then have "decode_fields (\<lambda>f. Ok (p f)) step fs = decode_present p step fs" by blast
  then show ?case by simp
qed simp

lemma decode_fields_has_bit:
  "decode_fields (is_bit_set bitmap) step fs st = decode_present (has_bit bitmap) step fs st"
proof -
  have "is_bit_set bitmap = (\<lambda>f. Ok (has_bit bitmap f))" by (simp add: fun_eq_iff is_bit_set_has_bit)
  then show ?thesis by (simp add: decode_fields_present)
qed

section \<open>Bitmaps\<close>

lemma length_set_bit [simp]: "length (set_bit bm n) = length bm"
  by (simp add: set_bit_def Let_def)

lemma mask_bit: "k < 8 \<Longrightarrow> (drop_bit k (0x80 :: u8)) = push_bit (7 - k) 1"
proof -
  assume "k < 8"
  then have "k \<in> {0, 1, 2, 3, 4, 5, 6, 7}" by auto
  then show ?thesis by auto
qed

lemma and_mask_iff: "k < 8 \<Longrightarrow> (b AND drop_bit k (0x80 :: u8) \<noteq> 0) \<longleftrightarrow> bit b (7 - k)"
  by (simp add: mask_bit and_exp_eq_0_iff_not_bit push_bit_of_1)

lemma bit_or_mask:
  "k < 8 \<Longrightarrow> j < 8 \<Longrightarrow> bit (b OR drop_bit k (0x80 :: u8)) (7 - j) \<longleftrightarrow> bit b (7 - j) \<or> j = k"
  by (auto simp: mask_bit bit_or_iff bit_exp_iff)

lemma has_bit_bit:
  "has_bit bm n \<longleftrightarrow>
     1 \<le> n \<and> n \<le> length bm * 8 \<and> bit (bm ! ((n - 1) div 8)) (7 - (n - 1) mod 8)"
  by (auto simp: has_bit_def Let_def and_mask_iff)

lemma same_bit_index:
  "1 \<le> m \<Longrightarrow> 1 \<le> n \<Longrightarrow> (m - 1) div 8 = (n - 1) div 8 \<Longrightarrow> (m - 1) mod 8 = (n - 1) mod 8 \<Longrightarrow>
    m = (n :: nat)"
  by (metis div_mult_mod_eq le_add_diff_inverse)

lemma has_bit_set_bit:
  assumes "1 \<le> n" and "n \<le> length bm * 8"
  shows "has_bit (set_bit bm n) m \<longleftrightarrow> has_bit bm m \<or> m = n"
proof (cases "1 \<le> m \<and> m \<le> length bm * 8")
  case True
  have i: "(n - 1) div 8 < length bm" using assms by auto
  show ?thesis
  proof (cases "(m - 1) div 8 = (n - 1) div 8")
    case same: True
    then show ?thesis
      using True assms i same_bit_index [of m n]
      by (auto simp: has_bit_bit set_bit_def Let_def bit_or_mask)
  next
    case False
    then show ?thesis
      using True assms by (auto simp: has_bit_bit set_bit_def Let_def)
  qed
next
  case False
  then show ?thesis using assms by (auto simp: has_bit_bit)
qed

lemma has_bit_zero [simp]: "\<not> has_bit (replicate k 0) n"
  by (auto simp: has_bit_bit)

lemma has_bit_first: "bm \<noteq> [] \<Longrightarrow> has_bit bm 1 \<longleftrightarrow> bm ! 0 AND 0x80 \<noteq> 0"
  by (cases bm) (simp_all add: has_bit_def)

lemma has_bit_append_left:
  "n \<le> length a * 8 \<Longrightarrow> has_bit (a @ b) n = has_bit a n"
  by (cases n) (auto simp: has_bit_bit nth_append)

section \<open>Readers and writers\<close>

lemma read_fixed_no_panic [simp, no_panic]: "read_fixed d k n \<noteq> Panic"
  by (simp add: read_fixed_eq)

lemma read_var_no_panic [simp, no_panic]: "read_var w d k \<noteq> Panic"
  by (auto simp: read_var_def bindo_eq_Panic split: option.splits if_splits)

lemma read_llvar_no_panic [simp, no_panic]: "read_llvar d k \<noteq> Panic" "read_lllvar d k \<noteq> Panic"
  by (simp_all add: read_llvar_def read_lllvar_def)

lemma read_fixed_Ok:
  "read_fixed d k n = Ok (v, k') \<longleftrightarrow> k' = k + n \<and> k' \<le> length d \<and> v = take n (drop k d)"
  by (auto simp: read_fixed_eq)

lemma read_fixed_segment [wire_simps]:
  "length seg = n \<Longrightarrow> read_fixed (pre @ seg @ post) (length pre) n = Ok (seg, length pre + n)"
  by (simp add: read_fixed_eq)

lemma read_var_segment:
  assumes "length v < 10 ^ w" and "0 < w" and "w \<le> 3"
  shows "read_var w (pre @ (format_padded w (length v) @ v) @ post) (length pre)
    = Ok (v, length pre + length (format_padded w (length v) @ v))"
proof -
  let ?h = "format_padded w (length v)"
  have len: "length ?h = w" using assms by (simp add: length_format_padded)
  have "(10 :: nat) ^ w \<le> 10 ^ 3" using assms(3) by (rule power_increasing) simp
  then have small: "length v \<le> 2 ^ 64 - 1" using assms(1) by simp
  have "read_fixed (pre @ ?h @ (v @ post)) (length pre) w = Ok (?h, length pre + w)"
    using len by (rule read_fixed_segment)
  moreover have "read_fixed ((pre @ ?h) @ v @ post) (length (pre @ ?h)) (length v)
      = Ok (v, length (pre @ ?h) + length v)"
    by (rule read_fixed_segment) simp
  ultimately show ?thesis
    using small len by (simp add: read_var_def)
qed

lemma read_llvar_segment [wire_simps]:
  "length v \<le> 99 \<Longrightarrow> read_llvar (pre @ write_llvar v @ post) (length pre)
    = Ok (v, length pre + length (write_llvar v))"
  using read_var_segment [of v 2 pre post] by (simp add: read_llvar_def write_llvar_def)

lemma read_lllvar_segment [wire_simps]:
  "length v \<le> 999 \<Longrightarrow> read_lllvar (pre @ write_lllvar v @ post) (length pre)
    = Ok (v, length pre + length (write_lllvar v))"
  using read_var_segment [of v 3 pre post] by (simp add: read_lllvar_def write_lllvar_def)

lemma length_write_fixed [simp]: "length (write_fixed v n p r) = n"
  by (simp add: write_fixed_def)

lemma write_fixed_exact [simp]: "length v = n \<Longrightarrow> write_fixed v n p r = v"
  by (simp add: write_fixed_def)

lemma wire_text_exact: "s = [] \<or> length s = w \<Longrightarrow> valid_utf8 s \<Longrightarrow> wire_text s w p r = s"
  by (auto simp: wire_text_def)

lemma wire_text_valid [simp]: "valid_utf8 (wire_text s w p r)"
  by (simp add: wire_text_def)

lemma length_wire_mti [simp]: "length (wire_mti e) = 4"
  by (simp add: wire_mti_def ascii_def)

lemma parse_amount_format [simp]:
  "unat a < 10 ^ 12 \<Longrightarrow> parse_amount (write_fixed (format_padded 12 (unat a)) 12 p r) = a"
  by (simp add: parse_amount_def length_format_padded)

lemma with_field_Ok [wire_simps]: "with_field (Ok (v, k)) f = bindo (f v) (\<lambda>tx. Ok (tx, k))"
  by (simp add: with_field_def)

lemma with_field_eq_Ok:
  "with_field r f = Ok (tx, k) \<longleftrightarrow> (\<exists>v. r = Ok (v, k) \<and> f v = Ok tx)"
  by (auto simp: with_field_def bindo_eq_Ok)

lemma with_field_no_panic [no_panic]:
  "r \<noteq> Panic \<Longrightarrow> (\<And>v. f v \<noteq> Panic) \<Longrightarrow> with_field r f \<noteq> Panic"
  by (auto simp: with_field_def bindo_eq_Panic)

lemma write_fixed_nonempty [simp]: "0 < n \<Longrightarrow> write_fixed v n p r \<noteq> []"
  using length_write_fixed [of v n p r] by (metis length_greater_0_conv)

section \<open>Encoders\<close>

lemma put_fields_snoc: "put_fields (segs @ [s]) = put_field (put_fields segs) s"
  by (simp add: put_fields_def)

lemma length_put_fields [simp]: "length (fst (put_fields segs)) = 8"
proof (induction segs rule: rev_induct)
  case Nil
  show ?case by (simp add: put_fields_def)
next
  case (snoc s segs)
  then show ?case
    by (cases s; cases "put_fields segs") (simp add: put_fields_snoc)
qed

lemma length_write_llvar: "length (write_llvar v) \<le> 101"
  by (simp add: write_llvar_def length_format_padded)

lemma length_write_lllvar: "length (write_lllvar v) \<le> 1002"
  by (simp add: write_lllvar_def length_format_padded)

lemma length_payload_of: "length (payload_of segs) \<le> sum_list (map (length \<circ> seg_bytes) segs)"
  by (induction segs) (auto simp: payload_of_def)

lemma put_fields_payload: "snd (put_fields segs) = payload_of segs"
proof (induction segs rule: rev_induct)
  case Nil
  show ?case by (simp add: put_fields_def payload_of_def)
next
  case (snoc s segs)
  then show ?case
    by (cases s; cases "put_fields segs") (simp add: put_fields_snoc payload_of_def)
qed

lemma put_fields_bitmap:
  assumes "\<forall>s \<in> set segs. 1 \<le> seg_field s \<and> seg_field s \<le> 64"
  shows "has_bit (fst (put_fields segs)) n \<longleftrightarrow> n \<in> set (present_fields segs)"
  using assms
proof (induction segs rule: rev_induct)
  case Nil
  show ?case by (simp add: put_fields_def present_fields_def)
next
  case (snoc s segs)
  then show ?case
    using length_put_fields [of segs]
    by (cases s; cases "put_fields segs")
       (auto simp: put_fields_snoc present_fields_def has_bit_set_bit)
qed

lemma in_present_fields:
  "n \<in> set (present_fields segs) \<longleftrightarrow> (\<exists>s \<in> set segs. fst s \<and> seg_field s = n)"
  by (auto simp: present_fields_def)

lemma present_fields_within:
  "\<forall>s \<in> set segs. seg_field s \<in> A \<Longrightarrow> set (present_fields segs) \<subseteq> A"
  by (auto simp: in_present_fields)

section \<open>Decoders\<close>

lemma decode_present_filter:
  "decode_present is_set step fs st = decode_present (\<lambda>_. True) step (filter is_set fs) st"
proof (induction fs arbitrary: st)
  case (Cons f fs)
  then have "decode_present is_set step fs = decode_present (\<lambda>_. True) step (filter is_set fs)"
    by blast
  then show ?case by simp
qed simp

lemma decode_present_invariant:
  assumes "\<And>f st st'. P st \<Longrightarrow> step f st = Ok st' \<Longrightarrow> P st'"
    and "P st" and "decode_present is_set step fs st = Ok st'"
  shows "P st'"
  using assms(2,3)
proof (induction fs arbitrary: st)
  case (Cons f fs)
  then show ?case
    by (auto simp: bindo_eq_Ok dest: assms(1) split: if_splits)
qed simp

lemma decode_present_no_panic:
  assumes "\<And>f st. f \<in> set fs \<Longrightarrow> is_set f \<Longrightarrow> step f st \<noteq> Panic"
  shows "decode_present is_set step fs st \<noteq> Panic"
  using assms by (induction fs arbitrary: st) (auto simp: bindo_eq_Panic)

text \<open>The two decoders of field contents keep the string invariant and the MTI.\<close>

definition typed :: "bytes \<Rightarrow> event \<Rightarrow> bool" where
  "typed m tx \<longleftrightarrow> event_ok tx \<and> mti tx = m"

lemma typed_blank [simp]: "typed m (blank_event c m i r)"
  by (simp add: typed_def) (simp add: blank_event_def)

lemma typed_updates [simp]:
  "typed m (tx\<lparr>fpan := v\<rparr>) = typed m tx"
  "typed m (tx\<lparr>amount := a\<rparr>) = typed m tx"
  "typed m (tx\<lparr>is_tokenized := b\<rparr>) = typed m tx"
  "typed m (tx\<lparr>acquirer_id := v\<rparr>) = typed m tx"
  "typed m (tx\<lparr>pin_block := v\<rparr>) = typed m tx"
  "typed m (tx\<lparr>risk_score := r\<rparr>) = typed m tx"
  by (simp_all add: typed_def event_ok_def)

lemma typed_text:
  assumes "typed m tx" and "valid_utf8 s"
  shows "typed m (tx\<lparr>processing_code := s\<rparr>)" "typed m (tx\<lparr>stan := s\<rparr>)"
    "typed m (tx\<lparr>local_time := s\<rparr>)" "typed m (tx\<lparr>local_date := s\<rparr>)"
    "typed m (tx\<lparr>rrn := s\<rparr>)" "typed m (tx\<lparr>response_code := s\<rparr>)"
    "typed m (tx\<lparr>tavv_cryptogram := Some s\<rparr>)" "typed m (tx\<lparr>mac_data := Some s\<rparr>)"
    "typed m (tx\<lparr>original_data_elements := Some s\<rparr>)"
    "typed m (tx\<lparr>domestic_settlement_data := Some s\<rparr>)"
    "typed m (tx\<lparr>source_account := Some s\<rparr>)" "typed m (tx\<lparr>destination_account := Some s\<rparr>)"
  using assms by (simp_all add: typed_def event_ok_def)

lemma typed_field22: "typed m tx \<Longrightarrow> typed m (apply_field22 s tx)"
  by (simp add: apply_field22_def)

text \<open>\<open>keeps m r\<close>: whatever event the step \<open>r\<close> produces is typed.\<close>

definition keeps :: "bytes \<Rightarrow> (event \<times> nat) parsed \<Rightarrow> bool" where
  "keeps m r \<longleftrightarrow> (\<forall>tx k. r = Ok (tx, k) \<longrightarrow> typed m tx)"

definition keeps_event :: "bytes \<Rightarrow> event parsed \<Rightarrow> bool" where
  "keeps_event m r \<longleftrightarrow> (\<forall>tx. r = Ok tx \<longrightarrow> typed m tx)"

lemma keeps_intros:
  "(c \<Longrightarrow> keeps m r) \<Longrightarrow> (\<not> c \<Longrightarrow> keeps m s) \<Longrightarrow> keeps m (if c then r else s)"
  "(\<And>v. keeps_event m (f v)) \<Longrightarrow> keeps m (with_field q f)"
  "typed m tx \<Longrightarrow> keeps m (Ok (tx, k))"
  "(c \<Longrightarrow> keeps_event m x) \<Longrightarrow> (\<not> c \<Longrightarrow> keeps_event m y) \<Longrightarrow> keeps_event m (if c then x else y)"
  "typed m tx \<Longrightarrow> keeps_event m (Ok tx)"
  by (auto simp: keeps_def keeps_event_def with_field_eq_Ok)

lemma keeps_case_option:
  "(\<And>x. o' = Some x \<Longrightarrow> keeps_event m (f x)) \<Longrightarrow>
    keeps_event m (case o' of None \<Rightarrow> Panic | Some x \<Rightarrow> f x)"
  by (cases o') (simp_all add: keeps_event_def)

lemma keeps_field48:
  assumes "typed m tx" and "valid_utf8 f48"
  shows "keeps_event m (apply_field48 f48 tx)"
proof -
  let ?scored = "\<lambda>d. case parse_unsigned 255 d of Some n \<Rightarrow> tx\<lparr>risk_score := of_nat n\<rparr> | None \<Rightarrow> tx"
  have scored: "typed m (?scored d)" for d
    using assms(1) by (cases "parse_unsigned 255 d") simp_all
  have "typed m (if c then (?scored d)\<lparr>tavv_cryptogram := Some r\<rparr> else ?scored d)"
    if "str_slice f48 8 (length f48) = Some r" for c d r
    using scored str_slice_valid [OF assms(2) that] by (simp add: typed_text(7))
  then show ?thesis
    unfolding apply_field48_def Let_def
    by (intro keeps_intros keeps_case_option) (simp_all add: assms typed_text)
qed

lemmas typed_intros = typed_text typed_field22 keeps_field48

lemma typed_if: "typed m x \<Longrightarrow> typed m y \<Longrightarrow> typed m (if c then x else y)"
  by simp

lemma typed_fields:
  assumes "\<And>f tx k. typed m tx \<Longrightarrow> keeps m (step f (tx, k))"
    and "typed m tx" and "decode_present is_set step fs (tx, k) = Ok (tx', k')"
  shows "typed m tx'"
proof -
  have "typed m (fst st')" if "typed m (fst st)" and "step f st = Ok st'" for f st st'
    using assms(1) [OF that(1), of f "snd st"] that(2) by (cases st') (simp add: keeps_def)
  moreover have "typed m (fst (tx, k))" using assms(2) by simp
  ultimately have "typed m (fst (tx', k'))"
    by (rule decode_present_invariant [where P = "\<lambda>st. typed m (fst st)", OF _ _ assms(3)])
  then show ?thesis by simp
qed

lemma if_no_panic [no_panic]:
  "(c \<Longrightarrow> r \<noteq> Panic) \<Longrightarrow> (\<not> c \<Longrightarrow> s \<noteq> Panic) \<Longrightarrow> (if c then r else s) \<noteq> Panic"
  by simp

lemma Ok_no_panic [no_panic]: "Ok x \<noteq> Panic" "Err y \<noteq> Panic"
  by simp_all

text \<open>Field 48 panics only on text that is not ASCII.\<close>

lemma apply_field48_ascii:
  "list_all (\<lambda>b. b < 0x80) f48 \<Longrightarrow> apply_field48 f48 tx \<noteq> Panic"
  by (simp add: apply_field48_def str_slice_ascii Let_def split: option.splits)

lemma apply_field48_plain:
  "\<not> (starts_with c (ascii ''RSK:'') \<and> length c \<ge> 8) \<Longrightarrow>
    apply_field48 c tx = Ok (if is_tokenized tx then tx\<lparr>tavv_cryptogram := Some c\<rparr> else tx)"
  by (auto simp: apply_field48_def)

section \<open>The encoder and decoder contract\<close>

locale field_codec =
  fixes step :: "bytes \<Rightarrow> nat \<Rightarrow> event \<times> nat \<Rightarrow> (event \<times> nat) parsed"
    and segs :: "event \<Rightarrow> segment list"
    and image :: "event \<Rightarrow> nat \<Rightarrow> event \<Rightarrow> event"
    and wf :: "event \<Rightarrow> bool"
  assumes ascending: "sorted_wrt (<) (map seg_field (segs e))"
    and segment_decodes: "wf e \<Longrightarrow> (True, n, seg) \<in> set (segs e) \<Longrightarrow>
      step (pre @ seg @ post) n (t, length pre) = Ok (image e n t, length pre + length seg)"
begin

text \<open>Decoding the payload of any list of segments that obey the contract.\<close>

lemma decode_segments:
  assumes "wf e" and "set ss \<subseteq> set (segs e)" and "\<forall>s \<in> set ss. fst s"
  shows "decode_present (\<lambda>_. True) (step (pre @ concat (map seg_bytes ss) @ post))
      (map seg_field ss) (t, length pre)
    = Ok (fold (image e) (map seg_field ss) t,
          length pre + length (concat (map seg_bytes ss)))"
  using assms(2,3)
proof (induction ss arbitrary: pre t)
  case (Cons s ss)
  obtain n seg where s: "s = (True, n, seg)"
    using Cons.prems by (cases s) auto
  let ?rest = "concat (map seg_bytes ss)"
  have "step (pre @ seg @ (?rest @ post)) n (t, length pre)
      = Ok (image e n t, length pre + length seg)"
    using Cons.prems s by (intro segment_decodes [OF assms(1)]) simp
  moreover have "decode_present (\<lambda>_. True) (step ((pre @ seg) @ ?rest @ post))
        (map seg_field ss) (image e n t, length (pre @ seg))
      = Ok (fold (image e) (map seg_field ss) (image e n t),
            length (pre @ seg) + length ?rest)"
    using Cons.prems by (intro Cons.IH) auto
  ultimately show ?case by (simp add: s add.assoc)
qed simp

lemma present_ascending: "sorted_wrt (<) (present_fields (segs e))"
  using ascending [of e] by (simp add: present_fields_def sorted_wrt_map sorted_wrt_filter)

theorem decode_encoded:
  assumes "wf e"
    and "\<And>n. n \<in> set ns \<Longrightarrow> is_set n \<longleftrightarrow> n \<in> set (present_fields (segs e))"
    and "sorted_wrt (<) ns" and "set (present_fields (segs e)) \<subseteq> set ns"
  shows "decode_present is_set (step (pre @ payload_of (segs e))) ns (t, length pre)
    = Ok (fold (image e) (present_fields (segs e)) t, length pre + length (payload_of (segs e)))"
proof -
  have "filter is_set ns = present_fields (segs e)"
    using assms(2-4) present_ascending by (intro filter_eq_self_sorted) auto
  then have "decode_present is_set (step (pre @ payload_of (segs e))) ns (t, length pre)
      = decode_present (\<lambda>_. True) (step (pre @ payload_of (segs e) @ []))
          (present_fields (segs e)) (t, length pre)"
    by (subst decode_present_filter) simp
  also have "\<dots> = Ok (fold (image e) (present_fields (segs e)) t,
      length pre + length (payload_of (segs e)))"
    unfolding payload_of_def present_fields_def
    by (rule decode_segments [OF assms(1)]) auto
  finally show ?thesis .
qed

end

text \<open>
  The interface of the ingress dialects, the trait \<open>DialectAdapter\<close>: what a client of
  \<open>parse\<close> and \<open>build_response\<close> may rely on. \<open>carries\<close> says which events a
  response can hold, \<open>view\<close> what the other side reads from it.
\<close>

locale dialect_adapter =
  fixes parse :: "bytes \<Rightarrow> event parsed"
    and build_response :: "event \<Rightarrow> bytes"
    and view :: "event \<Rightarrow> event"
    and carries :: "event \<Rightarrow> bool"
  assumes parse_typed: "parse raw = Ok e \<Longrightarrow> event_ok e \<and> length (mti e) = 4"
    and parse_short: "length raw < 12 \<Longrightarrow> parse raw = Err LengthError"
    and response_parses: "carries e \<Longrightarrow> parse (build_response e) = Ok (view e)"
    and view_response_code: "response_code (view e) = wire_text (response_code e) 2 0x20 False"
    and view_trace: "stan (view e) = wire_text (stan e) 6 0x30 False"
      "rrn (view e) = wire_text (rrn e) 12 0x20 True"
begin

lemma response_length: "carries e \<Longrightarrow> 12 \<le> length (build_response e)"
  using parse_short [of "build_response e"] response_parses [of e] by (cases "length (build_response e) < 12") auto

text \<open>A two-character response code reaches the terminal unchanged.\<close>

lemma response_code_delivered:
  assumes "carries e" and "valid_utf8 (response_code e)" and "length (response_code e) = 2"
  shows "\<exists>e'. parse (build_response e) = Ok e' \<and> response_code e' = response_code e"
  using assms response_parses view_response_code [of e] wire_text_exact [of "response_code e" 2]
  by auto

end

text \<open>The fold over the present fields as a chain of conditional updates.\<close>

definition maybe :: "bool \<Rightarrow> ('a \<Rightarrow> 'a) \<Rightarrow> 'a \<Rightarrow> 'a" where
  "maybe c f t = (if c then f t else t)"

lemma fold_present:
  "fold f (present_fields segs) t = fold (\<lambda>(c, n, _). maybe c (f n)) segs t"
  by (induction segs arbitrary: t) (auto simp: present_fields_def maybe_def)

end
