(* ===== verification/Iso_Dialect.thy ===== *)
theory Iso_Dialect
  imports Iso_Fields
begin

text \<open>
  The outbound dialect crate \<open>iso-dialect/src/lib.rs\<close>: \<open>universal_decode\<close>,
  \<open>universal_encode\<close> and the \<open>DialectRouter\<close> over them, which the egress client and
  the mock bank speak. The interpretation \<open>universal\<close> of \<open>field_codec\<close> discharges
  the field contract for this codec; the round trip follows from it.
\<close>

section \<open>Definitions\<close>

definition reversal_mti :: "bytes \<Rightarrow> bool" where
  "reversal_mti m \<longleftrightarrow> m = ascii ''0400'' \<or> m = ascii ''0420'' \<or> m = ascii ''1420''"

definition universal_init :: "bytes \<Rightarrow> event" where
  "universal_init m = blank_event (class_of_mti m) m False (reversal_mti m)"

text \<open>The match on the field number inside the decoding loop.\<close>

definition universal_field :: "bytes \<Rightarrow> nat \<Rightarrow> event \<times> nat \<Rightarrow> (event \<times> nat) parsed" where
  "universal_field raw field st = (case st of (tx, offset) \<Rightarrow>
     if field = 2 then with_field (read_llvar raw offset) (\<lambda>v. Ok (tx\<lparr>fpan := v\<rparr>))
     else if field = 3 then with_field (read_fixed raw offset 6)
       (\<lambda>v. Ok (tx\<lparr>processing_code := from_utf8_lossy v\<rparr>))
     else if field = 4 then with_field (read_fixed raw offset 12)
       (\<lambda>v. Ok (tx\<lparr>amount := parse_amount v\<rparr>))
     else if field = 11 then with_field (read_fixed raw offset 6)
       (\<lambda>v. Ok (tx\<lparr>stan := from_utf8_lossy v\<rparr>))
     else if field = 12 then with_field (read_fixed raw offset 6)
       (\<lambda>v. Ok (tx\<lparr>local_time := from_utf8_lossy v\<rparr>))
     else if field = 13 then with_field (read_fixed raw offset 4)
       (\<lambda>v. Ok (tx\<lparr>local_date := from_utf8_lossy v\<rparr>))
     else if field = 22 then with_field (read_fixed raw offset 3)
       (\<lambda>v. Ok (apply_field22 (from_utf8_lossy v) tx))
     else if field = 32 then with_field (read_llvar raw offset) (\<lambda>v. Ok (tx\<lparr>acquirer_id := v\<rparr>))
     else if field = 37 then with_field (read_fixed raw offset 12)
       (\<lambda>v. Ok (tx\<lparr>rrn := from_utf8_lossy v\<rparr>))
     else if field = 39 then with_field (read_fixed raw offset 2)
       (\<lambda>v. Ok (tx\<lparr>response_code := from_utf8_lossy v\<rparr>))
     else if field = 48 then with_field (read_lllvar raw offset)
       (\<lambda>v. apply_field48 (from_utf8_lossy v) tx)
     else if field = 52 then with_field (read_fixed raw offset 16)
       (\<lambda>v. Ok (tx\<lparr>pin_block := v\<rparr>))
     else if field = 126 then with_field (read_lllvar raw offset)
       (\<lambda>v. Ok (if is_tokenized tx then tx\<lparr>tavv_cryptogram := Some (from_utf8_lossy v)\<rparr> else tx))
     else Ok (tx, offset))"

definition universal_decode :: "bytes \<Rightarrow> event parsed" where
  "universal_decode raw =
     (if length raw < 12 then Err LengthError
      else bindo (read_fixed raw 0 4) (\<lambda>(m, offset).
        bindo (read_fixed raw offset 8) (\<lambda>(chunk, offset).
          bindo (copy_from_slice (replicate 8 0) chunk) (\<lambda>bitmap.
            bindo (decode_fields (is_bit_set bitmap) (universal_field raw) [1..<65]
                    (universal_init m, offset))
              (\<lambda>(tx, _). Ok tx)))))"

text \<open>The conditional writes of the encoder, in source order.\<close>

definition universal_segments :: "event \<Rightarrow> segment list" where
  "universal_segments tx =
     [(fpan tx \<noteq> [], 2, write_llvar (fpan tx)),
      (processing_code tx \<noteq> [], 3, write_fixed (processing_code tx) 6 0x30 False),
      (amount_present tx, 4, write_fixed (format_padded 12 (unat (amount tx))) 12 0x30 False),
      (stan tx \<noteq> [], 11, write_fixed (stan tx) 6 0x30 False),
      (local_time tx \<noteq> [], 12, write_fixed (local_time tx) 6 0x30 False),
      (local_date tx \<noteq> [], 13, write_fixed (local_date tx) 4 0x30 False),
      (is_tokenized tx, 22, write_fixed (ascii ''071'') 3 0x30 False),
      (acquirer_id tx \<noteq> [], 32, write_llvar (acquirer_id tx)),
      (rrn tx \<noteq> [], 37, write_fixed (rrn tx) 12 0x20 True),
      (response_code tx \<noteq> [], 39, write_fixed (response_code tx) 2 0x20 False),
      (is_tokenized tx \<and> tavv_cryptogram tx \<noteq> None, 48,
        case tavv_cryptogram tx of None \<Rightarrow> [] | Some cryp \<Rightarrow> write_lllvar cryp),
      (pin_block tx \<noteq> [], 52, write_fixed (pin_block tx) 16 0x30 False)]"

definition universal_encode :: "event \<Rightarrow> bytes parsed" where
  "universal_encode tx =
     (case put_fields (universal_segments tx) of (bitmap, payload) \<Rightarrow>
        Ok (wire_mti tx @ bitmap @ payload))"

datatype dialect_router = Base24 | Connex

fun router_decode :: "dialect_router \<Rightarrow> bytes \<Rightarrow> event parsed" where
  "router_decode Base24 raw = universal_decode raw"
| "router_decode Connex raw = universal_decode raw"

fun router_encode :: "dialect_router \<Rightarrow> event \<Rightarrow> bytes parsed" where
  "router_encode Base24 tx = universal_encode tx"
| "router_encode Connex tx = universal_encode tx"

section \<open>What the wire carries\<close>

text \<open>
  \<open>wire_wf\<close>: the event fits the field formats, so that no write is dropped or cut short
  (LLVAR at most 99 bytes, LLLVAR at most 999, amount of 12 digits) and the cryptogram does not
  look like a risk-score prefix. \<open>universal_view\<close> is the event the receiver reconstructs.
\<close>

definition plain_cryptogram :: "rstring \<Rightarrow> bool" where
  "plain_cryptogram c \<longleftrightarrow>
     valid_utf8 c \<and> length c \<le> 999 \<and> \<not> (starts_with c (ascii ''RSK:'') \<and> length c \<ge> 8)"

definition lengths_wf :: "event \<Rightarrow> bool" where
  "lengths_wf e \<longleftrightarrow>
     length (fpan e) \<le> 99 \<and> length (acquirer_id e) \<le> 99 \<and> unat (amount e) < 10 ^ 12"

definition wire_wf :: "event \<Rightarrow> bool" where
  "wire_wf e \<longleftrightarrow> lengths_wf e \<and>
     (case tavv_cryptogram e of None \<Rightarrow> True | Some c \<Rightarrow> is_tokenized e \<longrightarrow> plain_cryptogram c)"

definition universal_image :: "event \<Rightarrow> nat \<Rightarrow> event \<Rightarrow> event" where
  "universal_image e n t =
     (if n = 2 then t\<lparr>fpan := fpan e\<rparr>
      else if n = 3 then t\<lparr>processing_code := wire_text (processing_code e) 6 0x30 False\<rparr>
      else if n = 4 then t\<lparr>amount := amount e\<rparr>
      else if n = 11 then t\<lparr>stan := wire_text (stan e) 6 0x30 False\<rparr>
      else if n = 12 then t\<lparr>local_time := wire_text (local_time e) 6 0x30 False\<rparr>
      else if n = 13 then t\<lparr>local_date := wire_text (local_date e) 4 0x30 False\<rparr>
      else if n = 22 then t\<lparr>is_tokenized := True\<rparr>
      else if n = 32 then t\<lparr>acquirer_id := acquirer_id e\<rparr>
      else if n = 37 then t\<lparr>rrn := wire_text (rrn e) 12 0x20 True\<rparr>
      else if n = 39 then t\<lparr>response_code := wire_text (response_code e) 2 0x20 False\<rparr>
      else if n = 48 then (if is_tokenized t then t\<lparr>tavv_cryptogram := tavv_cryptogram e\<rparr> else t)
      else if n = 52 then t\<lparr>pin_block := write_fixed (pin_block e) 16 0x30 False\<rparr>
      else t)"

definition view_from :: "event \<Rightarrow> event \<Rightarrow> event" where
  "view_from t e = t
     \<lparr> fpan := fpan e,
       is_tokenized := is_tokenized e,
       tavv_cryptogram := (if is_tokenized e then tavv_cryptogram e else None),
       processing_code := wire_text (processing_code e) 6 0x30 False,
       amount := amount e,
       stan := wire_text (stan e) 6 0x30 False,
       local_time := wire_text (local_time e) 6 0x30 False,
       local_date := wire_text (local_date e) 4 0x30 False,
       rrn := wire_text (rrn e) 12 0x20 True,
       response_code := wire_text (response_code e) 2 0x20 False,
       acquirer_id := acquirer_id e,
       pin_block := (if pin_block e = [] then [] else write_fixed (pin_block e) 16 0x30 False) \<rparr>"

definition universal_view :: "event \<Rightarrow> event" where
  "universal_view e = view_from (universal_init (wire_mti e)) e"

text \<open>The parser with its indices in range.\<close>

lemma universal_decode_eq:
  "universal_decode raw =
     (if length raw < 12 then Err LengthError
      else bindo (read_fixed raw 0 4) (\<lambda>(m, offset).
        bindo (read_fixed raw offset 8) (\<lambda>(bitmap, offset).
          bindo (decode_present (has_bit bitmap) (universal_field raw) [1..<65]
                  (universal_init m, offset))
            (\<lambda>(tx, _). Ok tx))))"
  by (auto simp: universal_decode_def read_fixed_eq decode_fields_has_bit)

section \<open>The field contract\<close>

lemma field22_written [wire_simps]:
  "apply_field22 (from_utf8_lossy (ascii ''071'')) t = t\<lparr>is_tokenized := True\<rparr>"
  by (simp add: apply_field22_def ascii_def)

lemma length_071 [simp]: "length (ascii ''071'') = 3"
  by (simp add: ascii_def)

lemma universal_field_simps:
  "universal_field raw 2 (tx, k) = with_field (read_llvar raw k) (\<lambda>v. Ok (tx\<lparr>fpan := v\<rparr>))"
  "universal_field raw 3 (tx, k) = with_field (read_fixed raw k 6) (\<lambda>v. Ok (tx\<lparr>processing_code := from_utf8_lossy v\<rparr>))"
  "universal_field raw 4 (tx, k) = with_field (read_fixed raw k 12) (\<lambda>v. Ok (tx\<lparr>amount := parse_amount v\<rparr>))"
  "universal_field raw 11 (tx, k) = with_field (read_fixed raw k 6) (\<lambda>v. Ok (tx\<lparr>stan := from_utf8_lossy v\<rparr>))"
  "universal_field raw 12 (tx, k) = with_field (read_fixed raw k 6) (\<lambda>v. Ok (tx\<lparr>local_time := from_utf8_lossy v\<rparr>))"
  "universal_field raw 13 (tx, k) = with_field (read_fixed raw k 4) (\<lambda>v. Ok (tx\<lparr>local_date := from_utf8_lossy v\<rparr>))"
  "universal_field raw 22 (tx, k) = with_field (read_fixed raw k 3) (\<lambda>v. Ok (apply_field22 (from_utf8_lossy v) tx))"
  "universal_field raw 32 (tx, k) = with_field (read_llvar raw k) (\<lambda>v. Ok (tx\<lparr>acquirer_id := v\<rparr>))"
  "universal_field raw 37 (tx, k) = with_field (read_fixed raw k 12) (\<lambda>v. Ok (tx\<lparr>rrn := from_utf8_lossy v\<rparr>))"
  "universal_field raw 39 (tx, k) = with_field (read_fixed raw k 2) (\<lambda>v. Ok (tx\<lparr>response_code := from_utf8_lossy v\<rparr>))"
  "universal_field raw 48 (tx, k) = with_field (read_lllvar raw k) (\<lambda>v. apply_field48 (from_utf8_lossy v) tx)"
  "universal_field raw 52 (tx, k) = with_field (read_fixed raw k 16) (\<lambda>v. Ok (tx\<lparr>pin_block := v\<rparr>))"
  by (simp_all add: universal_field_def)

lemma universal_image_simps:
  "universal_image e 2 t = t\<lparr>fpan := fpan e\<rparr>"
  "universal_image e 3 t = t\<lparr>processing_code := wire_text (processing_code e) 6 0x30 False\<rparr>"
  "universal_image e 4 t = t\<lparr>amount := amount e\<rparr>"
  "universal_image e 11 t = t\<lparr>stan := wire_text (stan e) 6 0x30 False\<rparr>"
  "universal_image e 12 t = t\<lparr>local_time := wire_text (local_time e) 6 0x30 False\<rparr>"
  "universal_image e 13 t = t\<lparr>local_date := wire_text (local_date e) 4 0x30 False\<rparr>"
  "universal_image e 22 t = t\<lparr>is_tokenized := True\<rparr>"
  "universal_image e 32 t = t\<lparr>acquirer_id := acquirer_id e\<rparr>"
  "universal_image e 37 t = t\<lparr>rrn := wire_text (rrn e) 12 0x20 True\<rparr>"
  "universal_image e 39 t = t\<lparr>response_code := wire_text (response_code e) 2 0x20 False\<rparr>"
  "universal_image e 48 t = (if is_tokenized t then t\<lparr>tavv_cryptogram := tavv_cryptogram e\<rparr> else t)"
  "universal_image e 52 t = t\<lparr>pin_block := write_fixed (pin_block e) 16 0x30 False\<rparr>"
  by (simp_all add: universal_image_def)

lemma wire_wf_cryptogram:
  "wire_wf e \<Longrightarrow> is_tokenized e \<Longrightarrow> tavv_cryptogram e = Some c \<Longrightarrow> plain_cryptogram c"
  by (simp add: wire_wf_def)

lemma field48_written [wire_simps]:
  "plain_cryptogram c \<Longrightarrow> with_field (read_lllvar (pre @ write_lllvar c @ post) (length pre))
      (\<lambda>v. apply_field48 (from_utf8_lossy v) t)
    = Ok (if is_tokenized t then t\<lparr>tavv_cryptogram := Some c\<rparr> else t,
          length pre + length (write_lllvar c))"
  by (auto simp: plain_cryptogram_def wire_simps apply_field48_plain)

text \<open>The fields other than 48 are shared by all dialects.\<close>

lemma shared_segment_decodes:
  assumes "lengths_wf e" and "(True, n, seg) \<in> set (universal_segments e)" and "n \<noteq> 48"
  shows "universal_field (pre @ seg @ post) n (t, length pre)
    = Ok (universal_image e n t, length pre + length seg)"
proof -
  have len: "length (fpan e) \<le> 99" "length (acquirer_id e) \<le> 99" "unat (amount e) < 10 ^ 12"
    using assms(1) by (simp_all add: lengths_wf_def)
  have "list_all (\<lambda>(c, n, seg). c \<longrightarrow> n \<noteq> 48 \<longrightarrow>
      universal_field (pre @ seg @ post) n (t, length pre)
      = Ok (universal_image e n t, length pre + length seg)) (universal_segments e)"
    using len
    by (auto simp: universal_segments_def universal_field_simps universal_image_simps wire_simps
          wire_text_def)
  with assms(2,3) show ?thesis by (auto simp: list_all_iff)
qed

lemma universal_segment_decodes:
  assumes wf: "wire_wf e" and seg: "(True, n, seg) \<in> set (universal_segments e)"
  shows "universal_field (pre @ seg @ post) n (t, length pre)
    = Ok (universal_image e n t, length pre + length seg)"
proof (cases "n = 48")
  case True
  then obtain c where "is_tokenized e" "tavv_cryptogram e = Some c" "seg = write_lllvar c"
    using seg by (auto simp: universal_segments_def)
  then show ?thesis
    using True wire_wf_cryptogram [OF wf, of c]
    by (simp add: universal_field_simps universal_image_simps wire_simps)
next
  case False
  then show ?thesis using wf seg by (intro shared_segment_decodes) (simp_all add: wire_wf_def)
qed

lemma universal_ascending: "sorted_wrt (<) (map seg_field (universal_segments e))"
  by (simp add: universal_segments_def)

interpretation universal:
  field_codec universal_field universal_segments universal_image wire_wf
  by unfold_locales (rule universal_ascending, rule universal_segment_decodes)

lemma maybe_image:
  "maybe c (universal_image e 2) t = t\<lparr>fpan := if c then fpan e else fpan t\<rparr>"
  "maybe c (universal_image e 3) t = t\<lparr>processing_code :=
     if c then wire_text (processing_code e) 6 0x30 False else processing_code t\<rparr>"
  "maybe c (universal_image e 4) t = t\<lparr>amount := if c then amount e else amount t\<rparr>"
  "maybe c (universal_image e 11) t = t\<lparr>stan :=
     if c then wire_text (stan e) 6 0x30 False else stan t\<rparr>"
  "maybe c (universal_image e 12) t = t\<lparr>local_time :=
     if c then wire_text (local_time e) 6 0x30 False else local_time t\<rparr>"
  "maybe c (universal_image e 13) t = t\<lparr>local_date :=
     if c then wire_text (local_date e) 4 0x30 False else local_date t\<rparr>"
  "maybe c (universal_image e 22) t = t\<lparr>is_tokenized := c \<or> is_tokenized t\<rparr>"
  "maybe c (universal_image e 32) t = t\<lparr>acquirer_id := if c then acquirer_id e else acquirer_id t\<rparr>"
  "maybe c (universal_image e 37) t = t\<lparr>rrn :=
     if c then wire_text (rrn e) 12 0x20 True else rrn t\<rparr>"
  "maybe c (universal_image e 39) t = t\<lparr>response_code :=
     if c then wire_text (response_code e) 2 0x20 False else response_code t\<rparr>"
  "maybe c (universal_image e 48) t = t\<lparr>tavv_cryptogram :=
     if c \<and> is_tokenized t then tavv_cryptogram e else tavv_cryptogram t\<rparr>"
  "maybe c (universal_image e 52) t = t\<lparr>pin_block :=
     if c then write_fixed (pin_block e) 16 0x30 False else pin_block t\<rparr>"
  by (simp_all add: maybe_def universal_image_simps)

lemma universal_fold:
  assumes t: "fpan t = []" "processing_code t = []" "amount t = 0" "stan t = []"
    "local_time t = []" "local_date t = []" "\<not> is_tokenized t" "acquirer_id t = []"
    "rrn t = []" "response_code t = []" "tavv_cryptogram t = None" "pin_block t = []"
  shows "fold (universal_image e) (present_fields (universal_segments e)) t = view_from t e"
proof -
  have word_pos: "(0 < a) = (a \<noteq> 0)" for a :: u64 by (simp add: word_neq_0_conv)
  show ?thesis
    unfolding fold_present universal_segments_def
    by (rule event.equality)
       (simp_all add: t maybe_image view_from_def wire_text_def amount_present_def word_pos)
qed

lemma universal_segments_range:
  "\<forall>s \<in> set (universal_segments e). 1 \<le> seg_field s \<and> seg_field s \<le> 64"
  by (simp add: universal_segments_def)

lemma present_universal_range: "set (present_fields (universal_segments e)) \<subseteq> set [1..<65]"
  using universal_segments_range [of e] by (auto simp: present_fields_def)

lemma universal_decode_header:
  assumes "length m = 4" and "length bm = 8"
  shows "universal_decode (m @ bm @ pl) =
    bindo (decode_present (has_bit bm) (universal_field ((m @ bm) @ pl)) [1..<65]
            (universal_init m, length (m @ bm)))
      (\<lambda>(tx, _). Ok tx)"
  using assms by (simp add: universal_decode_eq read_fixed_eq)

lemma universal_roundtrip_view:
  assumes "wire_wf e"
  shows "bindo (universal_encode e) universal_decode = Ok (universal_view e)"
proof -
  obtain bm pl where put: "put_fields (universal_segments e) = (bm, pl)" by fastforce
  have len: "length bm = 8" and pl: "pl = payload_of (universal_segments e)"
    using length_put_fields [of "universal_segments e"] put_fields_payload [of "universal_segments e"]
    by (simp_all add: put)
  have bits: "has_bit bm n \<longleftrightarrow> n \<in> set (present_fields (universal_segments e))" for n
    using put_fields_bitmap [OF universal_segments_range, of e n] by (simp add: put)
  let ?pre = "wire_mti e @ bm"
  have "decode_present (has_bit bm) (universal_field (?pre @ pl)) [1..<65]
      (universal_init (wire_mti e), length ?pre)
    = Ok (fold (universal_image e) (present_fields (universal_segments e))
            (universal_init (wire_mti e)), length ?pre + length pl)"
    unfolding pl using assms bits present_universal_range
    by (intro universal.decode_encoded) (auto simp: sorted_wrt_upt)
  moreover have "fold (universal_image e) (present_fields (universal_segments e))
      (universal_init (wire_mti e)) = universal_view e"
    unfolding universal_view_def
    by (rule universal_fold) (simp_all add: universal_init_def blank_event_def)
  ultimately show ?thesis
    using len by (simp add: universal_encode_def put universal_decode_header)
qed

section \<open>Exact round trip\<close>

text \<open>
  Events that a message of this dialect can carry in full: fixed fields at their width, and
  nothing in the fields the wire does not transport.
\<close>

definition fits :: "rstring \<Rightarrow> nat \<Rightarrow> bool" where
  "fits s w \<longleftrightarrow> valid_utf8 s \<and> (s = [] \<or> length s = w)"

definition wire_exact :: "event \<Rightarrow> bool" where
  "wire_exact e \<longleftrightarrow>
     wire_wf e \<and> length (mti e) = 4 \<and>
     fits (processing_code e) 6 \<and> fits (stan e) 6 \<and> fits (local_time e) 6 \<and>
     fits (local_date e) 4 \<and> fits (rrn e) 12 \<and> fits (response_code e) 2 \<and>
     (pin_block e = [] \<or> length (pin_block e) = 16) \<and>
     (is_tokenized e \<or> tavv_cryptogram e = None)"

definition off_wire_blank :: "event \<Rightarrow> bool" where
  "off_wire_blank e \<longleftrightarrow>
     transaction_type e = Purchase \<and> dpan e = None \<and> risk_score e = 0 \<and>
     \<not> requires_instant_clearing e \<and> domestic_settlement_data e = None \<and>
     source_account e = None \<and> destination_account e = None \<and>
     original_data_elements e = None \<and> mac_data e = None"

lemma wire_text_fits: "fits s w \<Longrightarrow> wire_text s w p r = s"
  by (auto simp: fits_def intro: wire_text_exact)

lemma view_from_exact:
  "wire_exact e \<Longrightarrow> view_from t e = t
     \<lparr> fpan := fpan e, is_tokenized := is_tokenized e, tavv_cryptogram := tavv_cryptogram e,
       processing_code := processing_code e, amount := amount e, stan := stan e,
       local_time := local_time e, local_date := local_date e, rrn := rrn e,
       response_code := response_code e, acquirer_id := acquirer_id e,
       pin_block := pin_block e \<rparr>"
  by (auto simp: view_from_def wire_exact_def wire_text_fits)

lemma universal_view_exact:
  assumes "wire_exact e" and "off_wire_blank e"
    and "message_class e = class_of_mti (mti e)" and "is_reversal e = reversal_mti (mti e)"
  shows "universal_view e = e"
proof -
  have "wire_mti e = mti e" using assms(1) by (simp add: wire_mti_def wire_exact_def)
  then show ?thesis
    using assms
    by (simp add: universal_view_def view_from_exact universal_init_def blank_event_def
          off_wire_blank_def)
qed

section \<open>Typing and panics\<close>

lemma universal_field_keeps: "typed m tx \<Longrightarrow> keeps m (universal_field raw f (tx, k))"
  unfolding universal_field_def prod.case
  by (intro keeps_intros typed_if) (simp_all add: typed_intros)

lemma universal_field_no_panic: "f \<noteq> 48 \<Longrightarrow> universal_field raw f st \<noteq> Panic"
  unfolding universal_field_def case_prod_beta
  by (intro no_panic) simp_all

lemma universal_decode_typed:
  assumes "universal_decode raw = Ok e"
  shows "event_ok e \<and> mti e = take 4 raw \<and> length (mti e) = 4"
proof -
  obtain k where d: "decode_present (has_bit (take 8 (drop 4 raw))) (universal_field raw) [1..<65]
      (universal_init (take 4 raw), 12) = Ok (e, k)" and len: "12 \<le> length raw"
    using assms by (auto simp: universal_decode_eq read_fixed_eq bindo_eq_Ok split: if_splits)
  have "typed (take 4 raw) e"
    by (rule typed_fields [OF _ _ d]) (simp_all add: universal_field_keeps universal_init_def)
  with len show ?thesis by (simp add: typed_def)
qed

lemma universal_decode_no_panic:
  assumes "\<not> has_bit (take 8 (drop 4 raw)) 48"
  shows "universal_decode raw \<noteq> Panic"
proof -
  have "decode_present (has_bit (take 8 (drop 4 raw))) (universal_field raw) [1..<65] st \<noteq> Panic"
    for st
    using assms by (intro decode_present_no_panic universal_field_no_panic) auto
  then show ?thesis
    by (auto simp: universal_decode_eq read_fixed_eq bindo_eq_Panic)
qed

end
