(* ===== verification/Standard_Dialect.thy ===== *)
theory Standard_Dialect
  imports Iso_Dialect
begin

text \<open>
  \<open>StandardDialect\<close> of \<open>payment-proto/src/iso_dialect.rs\<close>, the dialect of ingress
  port 8000: a data dictionary chosen by the MTI's version digit, up to three chained bitmaps,
  and rejection of any field the dictionary does not know.
\<close>

section \<open>Definitions\<close>

datatype field_type = Fixed nat | Llvar | Lllvar

definition iso1987_field_type :: "nat \<Rightarrow> field_type option" where
  "iso1987_field_type field =
     (if field = 2 then Some Llvar
      else if field = 3 then Some (Fixed 6)
      else if field = 4 then Some (Fixed 12)
      else if field = 11 then Some (Fixed 6)
      else if field = 12 then Some (Fixed 6)
      else if field = 13 then Some (Fixed 4)
      else if field = 22 then Some (Fixed 3)
      else if field = 32 then Some Llvar
      else if field = 37 then Some (Fixed 12)
      else if field = 39 then Some (Fixed 2)
      else if field = 48 then Some Lllvar
      else if field = 52 then Some (Fixed 16)
      else if field = 64 then Some (Fixed 16)
      else if field = 90 then Some (Fixed 42)
      else if field = 128 then Some (Fixed 16)
      else None)"

definition iso1993_field_type :: "nat \<Rightarrow> field_type option" where
  "iso1993_field_type field = iso1987_field_type field"

definition iso2003_field_type :: "nat \<Rightarrow> field_type option" where
  "iso2003_field_type field = iso1987_field_type field"

definition dictionary_for :: "u8 \<Rightarrow> nat \<Rightarrow> field_type option" where
  "dictionary_for b =
     (if b = 0x30 then iso1987_field_type
      else if b = 0x31 then iso1993_field_type
      else if b = 0x32 then iso2003_field_type
      else iso1987_field_type)"

function read_bitmaps :: "bytes \<Rightarrow> nat \<Rightarrow> nat \<Rightarrow> bytes \<Rightarrow> (bytes \<times> nat) parsed" where
  "read_bitmaps raw offset bit_offset bitmap =
     bindo (read_fixed raw offset 8) (\<lambda>(chunk, offset).
       bindo (byte_at chunk 0) (\<lambda>first.
         if first AND 0x80 \<noteq> 0 \<and> bit_offset < 129
         then read_bitmaps raw offset (bit_offset + 64) (bitmap @ chunk)
         else Ok (bitmap @ chunk, offset)))"
  by pat_completeness auto
termination
  by (relation "measure (\<lambda>(raw, offset, bit_offset, bitmap). 193 - bit_offset)") auto

declare read_bitmaps.simps [simp del]

definition standard_init :: "bytes \<Rightarrow> event" where
  "standard_init m = blank_event (class_of_mti m) m False (reversal_mti m)"

definition read_by_type :: "field_type \<Rightarrow> bytes \<Rightarrow> nat \<Rightarrow> (bytes \<times> nat) parsed" where
  "read_by_type ft raw offset =
     (case ft of
        Fixed len \<Rightarrow> read_fixed raw offset len
      | Llvar \<Rightarrow> read_llvar raw offset
      | Lllvar \<Rightarrow> read_lllvar raw offset)"

definition standard_apply :: "bytes \<Rightarrow> nat \<Rightarrow> bytes \<Rightarrow> event \<Rightarrow> event parsed" where
  "standard_apply bitmap field v tx =
     (if field = 2 then Ok (tx\<lparr>fpan := v\<rparr>)
      else if field = 3 then Ok (tx\<lparr>processing_code := from_utf8_lossy v\<rparr>)
      else if field = 4 then Ok (tx\<lparr>amount := parse_amount v\<rparr>)
      else if field = 11 then Ok (tx\<lparr>stan := from_utf8_lossy v\<rparr>)
      else if field = 12 then Ok (tx\<lparr>local_time := from_utf8_lossy v\<rparr>)
      else if field = 13 then Ok (tx\<lparr>local_date := from_utf8_lossy v\<rparr>)
      else if field = 22 then Ok (apply_field22 (from_utf8_lossy v) tx)
      else if field = 32 then Ok (tx\<lparr>acquirer_id := v\<rparr>)
      else if field = 37 then Ok (tx\<lparr>rrn := from_utf8_lossy v\<rparr>)
      else if field = 39 then Ok (tx\<lparr>response_code := from_utf8_lossy v\<rparr>)
      else if field = 48 then apply_field48 (from_utf8_lossy v) tx
      else if field = 52 then Ok (tx\<lparr>pin_block := v\<rparr>)
      else if field = 64 then
        bindo (is_bit_set bitmap 1) (\<lambda>b.
          Ok (if \<not> b then tx\<lparr>mac_data := Some (from_utf8_lossy v)\<rparr> else tx))
      else if field = 90 then Ok (tx\<lparr>original_data_elements := Some (from_utf8_lossy v)\<rparr>)
      else if field = 128 then
        bindo (is_bit_set bitmap 1) (\<lambda>b.
          Ok (if b then tx\<lparr>mac_data := Some (from_utf8_lossy v)\<rparr> else tx))
      else Ok tx)"

definition standard_field ::
  "(nat \<Rightarrow> field_type option) \<Rightarrow> bytes \<Rightarrow> bytes \<Rightarrow> nat \<Rightarrow> event \<times> nat \<Rightarrow> (event \<times> nat) parsed" where
  "standard_field dict bitmap raw field st = (case st of (tx, offset) \<Rightarrow>
     case dict field of
       Some ftype \<Rightarrow> with_field (read_by_type ftype raw offset) (\<lambda>v. standard_apply bitmap field v tx)
     | None \<Rightarrow> Err InvalidFormat)"

text \<open>The loop skips the three extension bits before it looks at the bitmap.\<close>

definition standard_is_set :: "bytes \<Rightarrow> nat \<Rightarrow> bool parsed" where
  "standard_is_set bitmap field =
     (if field = 1 \<or> field = 65 \<or> field = 129 then Ok False else is_bit_set bitmap field)"

definition standard_parse :: "bytes \<Rightarrow> event parsed" where
  "standard_parse raw =
     (if length raw < 12 then Err LengthError
      else bindo (read_fixed raw 0 4) (\<lambda>(m, offset).
        bindo (byte_at m 0) (\<lambda>version.
          bindo (read_bitmaps raw offset 1 []) (\<lambda>(bitmap, offset).
            bindo (decode_fields (standard_is_set bitmap)
                    (standard_field (dictionary_for version) bitmap raw)
                    [1..<length bitmap * 8 + 1] (standard_init m, offset))
              (\<lambda>(tx, _). Ok tx)))))"

definition standard_segments :: "event \<Rightarrow> segment list" where
  "standard_segments ev =
     [(fpan ev \<noteq> [], 2, write_llvar (fpan ev)),
      (processing_code ev \<noteq> [], 3, write_fixed (processing_code ev) 6 0x30 False),
      (amount_present ev, 4, write_fixed (format_padded 12 (unat (amount ev))) 12 0x30 False),
      (stan ev \<noteq> [], 11, write_fixed (stan ev) 6 0x30 False),
      (local_time ev \<noteq> [], 12, write_fixed (local_time ev) 6 0x30 False),
      (local_date ev \<noteq> [], 13, write_fixed (local_date ev) 4 0x30 False),
      (is_tokenized ev, 22, write_fixed (ascii ''071'') 3 0x30 False),
      (acquirer_id ev \<noteq> [], 32, write_llvar (acquirer_id ev)),
      (rrn ev \<noteq> [], 37, write_fixed (rrn ev) 12 0x20 True),
      (response_code ev \<noteq> [], 39, write_fixed (response_code ev) 2 0x20 False),
      (is_tokenized ev \<and> tavv_cryptogram ev \<noteq> None, 48,
        case tavv_cryptogram ev of None \<Rightarrow> [] | Some cryp \<Rightarrow> write_lllvar cryp),
      (pin_block ev \<noteq> [], 52, write_fixed (pin_block ev) 16 0x30 False)]"

definition standard_build_response :: "event \<Rightarrow> bytes" where
  "standard_build_response ev =
     (case put_fields (standard_segments ev) of (bitmap, payload) \<Rightarrow>
        wire_mti ev @ bitmap @ payload)"

definition standard_view :: "event \<Rightarrow> event" where
  "standard_view e = view_from (standard_init (wire_mti e)) e"

section \<open>Indices in range\<close>

definition standard_has_field :: "bytes \<Rightarrow> nat \<Rightarrow> bool" where
  "standard_has_field bitmap field \<longleftrightarrow>
     \<not> (field = 1 \<or> field = 65 \<or> field = 129) \<and> has_bit bitmap field"

lemma standard_is_set_has_field: "standard_is_set bitmap = (\<lambda>field. Ok (standard_has_field bitmap field))"
  by (simp add: fun_eq_iff standard_is_set_def standard_has_field_def is_bit_set_has_bit)

text \<open>The steps and the parser with their indices in range.\<close>

lemma read_bitmaps_eq:
  "read_bitmaps raw offset bit_offset bitmap =
     bindo (read_fixed raw offset 8) (\<lambda>(chunk, offset).
       if chunk ! 0 AND 0x80 \<noteq> 0 \<and> bit_offset < 129
       then read_bitmaps raw offset (bit_offset + 64) (bitmap @ chunk)
       else Ok (bitmap @ chunk, offset))"
  by (subst read_bitmaps.simps) (simp add: read_fixed_eq)

lemma standard_apply_eq:
  "standard_apply bitmap field v tx =
     (if field = 2 then Ok (tx\<lparr>fpan := v\<rparr>)
      else if field = 3 then Ok (tx\<lparr>processing_code := from_utf8_lossy v\<rparr>)
      else if field = 4 then Ok (tx\<lparr>amount := parse_amount v\<rparr>)
      else if field = 11 then Ok (tx\<lparr>stan := from_utf8_lossy v\<rparr>)
      else if field = 12 then Ok (tx\<lparr>local_time := from_utf8_lossy v\<rparr>)
      else if field = 13 then Ok (tx\<lparr>local_date := from_utf8_lossy v\<rparr>)
      else if field = 22 then Ok (apply_field22 (from_utf8_lossy v) tx)
      else if field = 32 then Ok (tx\<lparr>acquirer_id := v\<rparr>)
      else if field = 37 then Ok (tx\<lparr>rrn := from_utf8_lossy v\<rparr>)
      else if field = 39 then Ok (tx\<lparr>response_code := from_utf8_lossy v\<rparr>)
      else if field = 48 then apply_field48 (from_utf8_lossy v) tx
      else if field = 52 then Ok (tx\<lparr>pin_block := v\<rparr>)
      else if field = 64 then
        Ok (if \<not> has_bit bitmap 1 then tx\<lparr>mac_data := Some (from_utf8_lossy v)\<rparr> else tx)
      else if field = 90 then Ok (tx\<lparr>original_data_elements := Some (from_utf8_lossy v)\<rparr>)
      else if field = 128 then
        Ok (if has_bit bitmap 1 then tx\<lparr>mac_data := Some (from_utf8_lossy v)\<rparr> else tx)
      else Ok tx)"
  by (simp add: standard_apply_def is_bit_set_has_bit)

lemma standard_parse_eq:
  "standard_parse raw =
     (if length raw < 12 then Err LengthError
      else bindo (read_fixed raw 0 4) (\<lambda>(m, offset).
        bindo (read_bitmaps raw offset 1 []) (\<lambda>(bitmap, offset).
          bindo (decode_present (standard_has_field bitmap)
                  (standard_field (dictionary_for (m ! 0)) bitmap raw)
                  [1..<length bitmap * 8 + 1] (standard_init m, offset))
            (\<lambda>(tx, _). Ok tx))))"
  by (auto simp: standard_parse_def read_fixed_eq standard_is_set_has_field decode_fields_present)

section \<open>Relation to the outbound dialect\<close>

lemma standard_segments_eq: "standard_segments = universal_segments"
  by (simp add: fun_eq_iff standard_segments_def universal_segments_def)

lemma standard_view_eq: "standard_view = universal_view"
  by (simp add: fun_eq_iff standard_view_def universal_view_def standard_init_def
        universal_init_def)

lemma dictionary_for_eq [simp]: "dictionary_for b = iso1987_field_type"
  by (simp add: fun_eq_iff dictionary_for_def iso1993_field_type_def iso2003_field_type_def)

section \<open>The field contract\<close>

lemma standard_field_universal:
  "field \<in> {2, 3, 4, 11, 12, 13, 22, 32, 37, 39, 48, 52} \<Longrightarrow>
    standard_field iso1987_field_type bm raw field (tx, k) = universal_field raw field (tx, k)"
  by (elim insertE emptyE)
     (simp_all add: standard_field_def iso1987_field_type_def read_by_type_def standard_apply_eq
        universal_field_simps)

lemma universal_segments_fields:
  "(True, n, seg) \<in> set (universal_segments e) \<Longrightarrow>
    n \<in> {2, 3, 4, 11, 12, 13, 22, 32, 37, 39, 48, 52}"
  by (auto simp: universal_segments_def)

interpretation standard:
  field_codec "standard_field iso1987_field_type bm" standard_segments universal_image wire_wf
  for bm
  by unfold_locales
     (simp_all add: standard_segments_eq universal_ascending universal_segment_decodes
        standard_field_universal [OF universal_segments_fields])

section \<open>Round trip\<close>

lemma read_bitmaps_primary:
  assumes "length m = k" and "length bm = 8" and "\<not> has_bit bm 1"
  shows "read_bitmaps (m @ bm @ pl) k b [] = Ok (bm, k + 8)"
proof -
  have "bm \<noteq> []" using assms(2) by auto
  then have "bm ! 0 AND 0x80 = 0" using assms(3) has_bit_first by auto
  then show ?thesis
    using assms by (subst read_bitmaps_eq) (simp add: read_fixed_eq)
qed

lemma standard_parse_header:
  assumes "length m = 4" and "length bm = 8" and "\<not> has_bit bm 1"
  shows "standard_parse (m @ bm @ pl) =
    bindo (decode_present (standard_has_field bm) (standard_field iso1987_field_type bm ((m @ bm) @ pl))
            [1..<65] (standard_init m, length (m @ bm)))
      (\<lambda>(tx, _). Ok tx)"
  using assms by (simp add: standard_parse_eq read_fixed_eq read_bitmaps_primary del: upt_Suc)

lemma standard_roundtrip_view:
  assumes "wire_wf e"
  shows "standard_parse (standard_build_response e) = Ok (standard_view e)"
proof -
  obtain bm pl where put: "put_fields (standard_segments e) = (bm, pl)" by fastforce
  have len: "length bm = 8" and pl: "pl = payload_of (standard_segments e)"
    using length_put_fields [of "standard_segments e"] put_fields_payload [of "standard_segments e"]
    by (simp_all add: put)
  have bits: "has_bit bm n \<longleftrightarrow> n \<in> set (present_fields (standard_segments e))" for n
    using put_fields_bitmap [OF universal_segments_range, of e n]
    by (simp add: put standard_segments_eq [symmetric])
  have present: "set (present_fields (standard_segments e))
      \<subseteq> {2, 3, 4, 11, 12, 13, 22, 32, 37, 39, 48, 52}"
    by (auto simp: standard_segments_def present_fields_def)
  let ?pre = "wire_mti e @ bm"
  have "decode_present (standard_has_field bm) (standard_field iso1987_field_type bm (?pre @ pl)) [1..<65]
      (standard_init (wire_mti e), length ?pre)
    = Ok (fold (universal_image e) (present_fields (standard_segments e))
            (standard_init (wire_mti e)), length ?pre + length pl)"
    unfolding pl using assms bits present
    by (intro standard.decode_encoded) (auto simp: sorted_wrt_upt standard_has_field_def)
  moreover have "fold (universal_image e) (present_fields (standard_segments e))
      (standard_init (wire_mti e)) = standard_view e"
    unfolding standard_view_def standard_segments_eq
    by (rule universal_fold) (simp_all add: standard_init_def blank_event_def)
  moreover have "\<not> has_bit bm 1" using bits present by auto
  ultimately show ?thesis
    using len by (simp add: standard_build_response_def put standard_parse_header)
qed

section \<open>Bitmaps, typing and panics\<close>

lemma read_bitmaps_no_panic [no_panic]: "read_bitmaps raw k b acc \<noteq> Panic"
proof (induction raw k b acc rule: read_bitmaps.induct)
  case (1 raw k b acc)
  then show ?case
    by (subst read_bitmaps_eq) (auto simp: bindo_eq_Panic read_fixed_eq split: if_splits)
qed

lemma read_bitmaps_shape:
  "read_bitmaps raw k b acc = Ok (bm, k') \<Longrightarrow>
    \<exists>rest. bm = acc @ take 8 (drop k raw) @ rest \<and> k + 8 \<le> length raw \<and>
      k' = k + 8 + length rest \<and> k' \<le> length raw \<and> 8 dvd length rest \<and>
      (if b \<ge> 129 then rest = [] else length rest \<le> 8 * ((192 - b) div 64))"
proof (induction raw k b acc rule: read_bitmaps.induct)
  case (1 raw k b acc)
  let ?c = "take 8 (drop k raw)"
  from "1.prems" have len: "k + 8 \<le> length raw"
    by (subst (asm) read_bitmaps_eq) (auto simp: read_fixed_eq split: if_splits)
  then have rd: "read_fixed raw k 8 = Ok (?c, k + 8)" by (simp add: read_fixed_eq)
  show ?case
  proof (cases "?c ! 0 AND 0x80 \<noteq> 0 \<and> b < 129")
    case True
    then have "read_bitmaps raw (k + 8) (b + 64) (acc @ ?c) = Ok (bm, k')"
      using "1.prems" by (subst (asm) read_bitmaps_eq) (simp add: rd)
    then obtain rest where r: "bm = (acc @ ?c) @ take 8 (drop (k + 8) raw) @ rest"
        "k + 8 + 8 \<le> length raw" "k' = k + 8 + 8 + length rest" "k' \<le> length raw"
        "8 dvd length rest"
        "if b + 64 \<ge> 129 then rest = [] else length rest \<le> 8 * ((192 - (b + 64)) div 64)"
      using "1.IH" [OF rd refl, of "?c ! 0"] True len by auto
    have "b < 65 \<Longrightarrow> (192 - b) div 64 = Suc ((192 - (b + 64)) div 64)"
      using div_add_self2 [of 64 "128 - b"] by simp
    moreover have "b < 129 \<Longrightarrow> 1 \<le> (192 - b) div 64" by auto
    moreover have "length (take 8 (drop (k + 8) raw)) = 8" using r(2) by simp
    ultimately have "length (take 8 (drop (k + 8) raw) @ rest) \<le> 8 * ((192 - b) div 64)"
      using r(6) True unfolding length_append by (auto split: if_splits)
    then show ?thesis
      using r len True
      by (intro exI [of _ "take 8 (drop (k + 8) raw) @ rest"]) simp
  next
    case False
    then show ?thesis
      using "1.prems" len by (subst (asm) read_bitmaps_eq) (auto simp: rd)
  qed
qed

lemma standard_apply_keeps: "typed m tx \<Longrightarrow> keeps_event m (standard_apply bm f v tx)"
  unfolding standard_apply_eq
  by (intro keeps_intros typed_if) (simp_all add: typed_intros)

lemma standard_field_keeps: "typed m tx \<Longrightarrow> keeps m (standard_field dict bm raw f (tx, k))"
  by (cases "dict f") (simp_all add: standard_field_def keeps_def [of m "Err _"]
        keeps_intros(2) standard_apply_keeps)

lemma standard_field_no_panic: "f \<noteq> 48 \<Longrightarrow> standard_field dict bm raw f st \<noteq> Panic"
proof -
  assume f: "f \<noteq> 48"
  have "standard_apply bm f v tx \<noteq> Panic" for v tx
    unfolding standard_apply_eq by (intro no_panic) (simp_all add: f)
  moreover have "read_by_type ft raw k \<noteq> Panic" for ft k
    by (cases ft) (simp_all add: read_by_type_def)
  ultimately show ?thesis
    by (cases st; cases "dict f") (simp_all add: standard_field_def with_field_no_panic)
qed

lemma standard_parse_typed:
  assumes "standard_parse raw = Ok e"
  shows "event_ok e \<and> mti e = take 4 raw \<and> length (mti e) = 4"
proof -
  obtain bm k k' where d: "decode_present (standard_has_field bm)
        (standard_field (dictionary_for (take 4 raw ! 0)) bm raw)
        [1..<length bm * 8 + 1] (standard_init (take 4 raw), k) = Ok (e, k')"
      and len: "12 \<le> length raw"
    using assms
    by (auto simp: standard_parse_eq read_fixed_eq bindo_eq_Ok simp del: upt_Suc split: if_splits)
  have "typed (take 4 raw) e"
    by (rule typed_fields [OF _ _ d]) (simp_all add: standard_field_keeps standard_init_def)
  with len show ?thesis by (simp add: typed_def)
qed

lemma standard_parse_no_panic:
  assumes "\<not> has_bit (take 8 (drop 4 raw)) 48"
  shows "standard_parse raw \<noteq> Panic"
proof -
  have "decode_present (standard_has_field bm) (standard_field dict bm raw) fs st \<noteq> Panic"
    if rb: "read_bitmaps raw 4 1 [] = Ok (bm, k)" for bm k dict fs st
  proof (rule decode_present_no_panic)
    obtain rest where bm: "bm = take 8 (drop 4 raw) @ rest" and len: "12 \<le> length raw"
      using read_bitmaps_shape [OF rb] by auto
    then have "has_bit bm 48 = has_bit (take 8 (drop 4 raw)) 48"
      using has_bit_append_left [of 48 "take 8 (drop 4 raw)" rest] by simp
    then show "standard_field dict bm raw f st \<noteq> Panic" if "standard_has_field bm f" for f st
      using that assms by (intro standard_field_no_panic) (auto simp: standard_has_field_def)
  qed
  then show ?thesis
    by (auto simp: standard_parse_eq read_fixed_eq bindo_eq_Panic read_bitmaps_no_panic
          simp del: upt_Suc)
qed

interpretation standard_adapter:
  dialect_adapter standard_parse standard_build_response standard_view wire_wf
proof unfold_locales
  show "standard_parse raw = Ok e \<Longrightarrow> event_ok e \<and> length (mti e) = 4" for raw e
    using standard_parse_typed by blast
  show "length raw < 12 \<Longrightarrow> standard_parse raw = Err LengthError" for raw
    by (simp add: standard_parse_eq)
  show "wire_wf e \<Longrightarrow> standard_parse (standard_build_response e) = Ok (standard_view e)" for e
    by (rule standard_roundtrip_view)
qed (simp_all add: standard_view_def view_from_def)

end
