(* ===== verification/Interac_Dialect.thy ===== *)
theory Interac_Dialect
  imports Iso_Dialect
begin

text \<open>
  \<open>InteracDialect\<close> of \<open>payment-proto/src/dialects/interac.rs\<close>, the dialect of ingress
  port 8001: field 48 is kept verbatim, field 63 carries settlement data, and a 0200 asks for
  instant clearing. Unlike the standard dialect it has no string slices, so it never panics.
\<close>

section \<open>Definitions\<close>

definition interac_init :: "bytes \<Rightarrow> event" where
  "interac_init m =
     (let mti_str = from_utf8_lossy m in
      blank_event (class_of_mti mti_str) m (mti_str = ascii ''0200'') False)"

definition interac_field :: "bytes \<Rightarrow> nat \<Rightarrow> event \<times> nat \<Rightarrow> (event \<times> nat) parsed" where
  "interac_field raw field st = (case st of (tx, offset) \<Rightarrow>
     if field = 2 then with_field (read_llvar raw offset) (\<lambda>v. Ok (tx\<lparr>fpan := v\<rparr>))
     else if field = 3 then with_field (read_fixed raw offset 6)
       (\<lambda>v. Ok (tx\<lparr>processing_code := from_utf8_lossy v\<rparr>))
     else if field = 4 then with_field (read_fixed raw offset 12)
       (\<lambda>v. Ok (tx\<lparr>amount := parse_amount v\<rparr>))
     else if field = 11 then with_field (read_fixed raw offset 6)
       (\<lambda>v. Ok (tx\<lparr>stan := from_utf8_lossy v\<rparr>))
     else if field = 12 then with_field (read_fixed raw offset 6)
       (\<lambda>v. Ok (tx\<lparr>local_time := from_utf8_lossy v\<rparr>))
     else if field = 13 then with_field (read_fixed raw offset 4)
       (\<lambda>v. Ok (tx\<lparr>local_date := from_utf8_lossy v\<rparr>))
     else if field = 22 then with_field (read_fixed raw offset 3)
       (\<lambda>v. Ok (apply_field22 (from_utf8_lossy v) tx))
     else if field = 32 then with_field (read_llvar raw offset) (\<lambda>v. Ok (tx\<lparr>acquirer_id := v\<rparr>))
     else if field = 37 then with_field (read_fixed raw offset 12)
       (\<lambda>v. Ok (tx\<lparr>rrn := from_utf8_lossy v\<rparr>))
     else if field = 39 then with_field (read_fixed raw offset 2)
       (\<lambda>v. Ok (tx\<lparr>response_code := from_utf8_lossy v\<rparr>))
     else if field = 48 then with_field (read_lllvar raw offset)
       (\<lambda>v. Ok (tx\<lparr>tavv_cryptogram := Some (from_utf8_lossy v)\<rparr>))
     else if field = 52 then with_field (read_fixed raw offset 16)
       (\<lambda>v. Ok (tx\<lparr>pin_block := v\<rparr>))
     else if field = 63 then with_field (read_lllvar raw offset)
       (\<lambda>v. Ok (tx\<lparr>domestic_settlement_data := Some (from_utf8_lossy v)\<rparr>))
     else Ok (tx, offset))"

definition interac_parse :: "bytes \<Rightarrow> event parsed" where
  "interac_parse raw =
     (if length raw < 12 then Err LengthError
      else bindo (read_fixed raw 0 4) (\<lambda>(m, offset).
        bindo (read_fixed raw offset 8) (\<lambda>(chunk, offset).
          bindo (copy_from_slice (replicate 8 0) chunk) (\<lambda>bitmap.
            bindo (decode_fields (is_bit_set bitmap) (interac_field raw) [1..<65]
                    (interac_init m, offset))
              (\<lambda>(tx, _). Ok tx)))))"

definition interac_segments :: "event \<Rightarrow> segment list" where
  "interac_segments ev =
     [(fpan ev \<noteq> [], 2, write_llvar (fpan ev)),
      (processing_code ev \<noteq> [], 3, write_fixed (processing_code ev) 6 0x30 False),
      (amount_present ev, 4, write_fixed (format_padded 12 (unat (amount ev))) 12 0x30 False),
      (stan ev \<noteq> [], 11, write_fixed (stan ev) 6 0x30 False),
      (local_time ev \<noteq> [], 12, write_fixed (local_time ev) 6 0x30 False),
      (local_date ev \<noteq> [], 13, write_fixed (local_date ev) 4 0x30 False),
      (is_tokenized ev, 22, write_fixed (ascii ''071'') 3 0x30 False),
      (acquirer_id ev \<noteq> [], 32, write_llvar (acquirer_id ev)),
      (rrn ev \<noteq> [], 37, write_fixed (rrn ev) 12 0x20 True),
      (response_code ev \<noteq> [], 39, write_fixed (response_code ev) 2 0x20 False),
      (tavv_cryptogram ev \<noteq> None, 48,
        case tavv_cryptogram ev of None \<Rightarrow> [] | Some cryp \<Rightarrow> write_lllvar cryp),
      (pin_block ev \<noteq> [], 52, write_fixed (pin_block ev) 16 0x30 False),
      (domestic_settlement_data ev \<noteq> None, 63,
        case domestic_settlement_data ev of None \<Rightarrow> [] | Some net_data \<Rightarrow> write_lllvar net_data)]"

definition interac_build_response :: "event \<Rightarrow> bytes" where
  "interac_build_response ev =
     (case put_fields (interac_segments ev) of (bitmap, payload) \<Rightarrow>
        wire_mti ev @ bitmap @ payload)"

section \<open>What the wire carries\<close>

definition lllvar_ok :: "rstring option \<Rightarrow> bool" where
  "lllvar_ok v = (case v of None \<Rightarrow> True | Some s \<Rightarrow> valid_utf8 s \<and> length s \<le> 999)"

definition interac_wf :: "event \<Rightarrow> bool" where
  "interac_wf e \<longleftrightarrow> lengths_wf e \<and> lllvar_ok (tavv_cryptogram e) \<and>
     lllvar_ok (domestic_settlement_data e)"

definition interac_image :: "event \<Rightarrow> nat \<Rightarrow> event \<Rightarrow> event" where
  "interac_image e n t =
     (if n = 48 then t\<lparr>tavv_cryptogram := tavv_cryptogram e\<rparr>
      else if n = 63 then t\<lparr>domestic_settlement_data := domestic_settlement_data e\<rparr>
      else universal_image e n t)"

definition interac_view :: "event \<Rightarrow> event" where
  "interac_view e = (view_from (interac_init (wire_mti e)) e)
     \<lparr> tavv_cryptogram := tavv_cryptogram e,
       domestic_settlement_data := domestic_settlement_data e \<rparr>"

text \<open>The parser with its indices in range.\<close>

lemma interac_parse_eq:
  "interac_parse raw =
     (if length raw < 12 then Err LengthError
      else bindo (read_fixed raw 0 4) (\<lambda>(m, offset).
        bindo (read_fixed raw offset 8) (\<lambda>(bitmap, offset).
          bindo (decode_present (has_bit bitmap) (interac_field raw) [1..<65]
                  (interac_init m, offset))
            (\<lambda>(tx, _). Ok tx))))"
  by (auto simp: interac_parse_def read_fixed_eq decode_fields_has_bit)

section \<open>The field contract\<close>

lemma interac_field_universal:
  "field \<noteq> 48 \<Longrightarrow> field \<noteq> 63 \<Longrightarrow> field \<noteq> 126 \<Longrightarrow>
    interac_field raw field = universal_field raw field"
  by (simp add: fun_eq_iff interac_field_def universal_field_def)

lemma interac_segment_cases:
  assumes "(True, n, seg) \<in> set (interac_segments e)"
  obtains c where "n = 48" "tavv_cryptogram e = Some c" "seg = write_lllvar c"
  | d where "n = 63" "domestic_settlement_data e = Some d" "seg = write_lllvar d"
  | "n \<noteq> 48" "n \<noteq> 63" "n \<noteq> 126" "(True, n, seg) \<in> set (universal_segments e)"
  using assms by (auto simp: interac_segments_def universal_segments_def)

lemma interac_segment_decodes:
  assumes wf: "interac_wf e" and seg: "(True, n, seg) \<in> set (interac_segments e)"
  shows "interac_field (pre @ seg @ post) n (t, length pre)
    = Ok (interac_image e n t, length pre + length seg)"
  using seg
proof (cases rule: interac_segment_cases)
  case (1 c)
  then show ?thesis
    using wf by (simp add: interac_field_def interac_image_def interac_wf_def lllvar_ok_def wire_simps)
next
  case (2 d)
  then show ?thesis
    using wf by (simp add: interac_field_def interac_image_def interac_wf_def lllvar_ok_def wire_simps)
next
  case 3
  then show ?thesis
    using wf shared_segment_decodes [of e n seg pre post t]
    by (simp add: interac_field_universal interac_image_def interac_wf_def)
qed

interpretation interac:
  field_codec interac_field interac_segments interac_image interac_wf
  by unfold_locales (simp add: interac_segments_def, rule interac_segment_decodes)

section \<open>Round trip\<close>

lemma maybe_interac_image:
  "n \<noteq> 48 \<Longrightarrow> n \<noteq> 63 \<Longrightarrow> maybe c (interac_image e n) t = maybe c (universal_image e n) t"
  "maybe c (interac_image e 48) t =
     t\<lparr>tavv_cryptogram := if c then tavv_cryptogram e else tavv_cryptogram t\<rparr>"
  "maybe c (interac_image e 63) t =
     t\<lparr>domestic_settlement_data := if c then domestic_settlement_data e else domestic_settlement_data t\<rparr>"
  by (simp_all add: maybe_def interac_image_def)

lemma interac_fold:
  "fold (interac_image e) (present_fields (interac_segments e)) (interac_init (wire_mti e))
    = interac_view e"
proof -
  have word_pos: "(0 < a) = (a \<noteq> 0)" for a :: u64 by (simp add: word_neq_0_conv)
  show ?thesis
    unfolding fold_present interac_segments_def
    by (rule event.equality)
       (simp_all add: maybe_interac_image maybe_image interac_view_def view_from_def wire_text_def
          amount_present_def word_pos interac_init_def blank_event_def Let_def)
qed

lemma interac_segments_range:
  "\<forall>s \<in> set (interac_segments e). 1 \<le> seg_field s \<and> seg_field s \<le> 64"
  by (simp add: interac_segments_def)

lemma interac_parse_header:
  assumes "length m = 4" and "length bm = 8"
  shows "interac_parse (m @ bm @ pl) =
    bindo (decode_present (has_bit bm) (interac_field ((m @ bm) @ pl)) [1..<65]
            (interac_init m, length (m @ bm)))
      (\<lambda>(tx, _). Ok tx)"
  using assms by (simp add: interac_parse_eq read_fixed_eq)

lemma interac_roundtrip_view:
  assumes "interac_wf e"
  shows "interac_parse (interac_build_response e) = Ok (interac_view e)"
proof -
  obtain bm pl where put: "put_fields (interac_segments e) = (bm, pl)" by fastforce
  have len: "length bm = 8" and pl: "pl = payload_of (interac_segments e)"
    using length_put_fields [of "interac_segments e"] put_fields_payload [of "interac_segments e"]
    by (simp_all add: put)
  have bits: "has_bit bm n \<longleftrightarrow> n \<in> set (present_fields (interac_segments e))" for n
    using put_fields_bitmap [OF interac_segments_range, of e n] by (simp add: put)
  let ?pre = "wire_mti e @ bm"
  have "decode_present (has_bit bm) (interac_field (?pre @ pl)) [1..<65]
      (interac_init (wire_mti e), length ?pre)
    = Ok (fold (interac_image e) (present_fields (interac_segments e))
            (interac_init (wire_mti e)), length ?pre + length pl)"
    unfolding pl using assms bits interac_segments_range [of e]
    by (intro interac.decode_encoded) (auto simp: sorted_wrt_upt present_fields_def)
  then show ?thesis
    using len by (simp add: interac_build_response_def put interac_parse_header interac_fold)
qed

section \<open>Typing, and absence of panics\<close>

lemma interac_field_keeps: "typed m tx \<Longrightarrow> keeps m (interac_field raw f (tx, k))"
  unfolding interac_field_def prod.case
  by (intro keeps_intros typed_if) (simp_all add: typed_intros)

lemma interac_field_no_panic: "interac_field raw f st \<noteq> Panic"
  unfolding interac_field_def case_prod_beta
  by (intro no_panic)

lemma interac_parse_typed:
  assumes "interac_parse raw = Ok e"
  shows "event_ok e \<and> mti e = take 4 raw \<and> length (mti e) = 4"
proof -
  obtain k where d: "decode_present (has_bit (take 8 (drop 4 raw))) (interac_field raw) [1..<65]
      (interac_init (take 4 raw), 12) = Ok (e, k)" and len: "12 \<le> length raw"
    using assms by (auto simp: interac_parse_eq read_fixed_eq bindo_eq_Ok split: if_splits)
  have "typed (take 4 raw) e"
    by (rule typed_fields [OF _ _ d]) (simp_all add: interac_field_keeps interac_init_def Let_def)
  with len show ?thesis by (simp add: typed_def)
qed

lemma interac_parse_no_panic: "interac_parse raw \<noteq> Panic"
proof -
  have "decode_present is_set (interac_field raw) fs st \<noteq> Panic" for is_set fs st
    by (intro decode_present_no_panic interac_field_no_panic)
  then show ?thesis
    by (auto simp: interac_parse_eq read_fixed_eq bindo_eq_Panic)
qed

interpretation interac_adapter:
  dialect_adapter interac_parse interac_build_response interac_view interac_wf
proof unfold_locales
  show "interac_parse raw = Ok e \<Longrightarrow> event_ok e \<and> length (mti e) = 4" for raw e
    using interac_parse_typed by blast
  show "length raw < 12 \<Longrightarrow> interac_parse raw = Err LengthError" for raw
    by (simp add: interac_parse_eq)
  show "interac_wf e \<Longrightarrow> interac_parse (interac_build_response e) = Ok (interac_view e)" for e
    by (rule interac_roundtrip_view)
qed (simp_all add: interac_view_def view_from_def)

end
