(* ===== verification/Uk_Fps_Dialect.thy ===== *)
theory Uk_Fps_Dialect
  imports Iso_Dialect
begin

text \<open>
  \<open>UkFpsDialect\<close> of \<open>payment-proto/src/dialects/uk_fps.rs\<close>, the dialect of ingress
  port 8002: a secondary bitmap reaches fields 102 and 103 (source and destination account), and
  a message without field 2 is routed under a synthetic PAN built from the source account.
\<close>

section \<open>Definitions\<close>

definition uk_init :: "bytes \<Rightarrow> event" where
  "uk_init m = blank_event (class_of_mti (from_utf8_lossy m)) m False False"

definition uk_field :: "bytes \<Rightarrow> nat \<Rightarrow> event \<times> nat \<Rightarrow> (event \<times> nat) parsed" where
  "uk_field raw field st = (case st of (tx, offset) \<Rightarrow>
     if field = 1 then Ok (tx, offset)
     else if field = 2 then with_field (read_llvar raw offset) (\<lambda>v. Ok (tx\<lparr>fpan := v\<rparr>))
     else if field = 3 then with_field (read_fixed raw offset 6)
       (\<lambda>v. Ok (tx\<lparr>processing_code := from_utf8_lossy v\<rparr>))
     else if field = 4 then with_field (read_fixed raw offset 12)
       (\<lambda>v. Ok (tx\<lparr>amount := parse_amount v\<rparr>))
     else if field = 11 then with_field (read_fixed raw offset 6)
       (\<lambda>v. Ok (tx\<lparr>stan := from_utf8_lossy v\<rparr>))
     else if field = 12 then with_field (read_fixed raw offset 6)
       (\<lambda>v. Ok (tx\<lparr>local_time := from_utf8_lossy v\<rparr>))
     else if field = 13 then with_field (read_fixed raw offset 4)
       (\<lambda>v. Ok (tx\<lparr>local_date := from_utf8_lossy v\<rparr>))
     else if field = 22 then with_field (read_fixed raw offset 3)
       (\<lambda>v. Ok (apply_field22 (from_utf8_lossy v) tx))
     else if field = 32 then with_field (read_llvar raw offset) (\<lambda>v. Ok (tx\<lparr>acquirer_id := v\<rparr>))
     else if field = 37 then with_field (read_fixed raw offset 12)
       (\<lambda>v. Ok (tx\<lparr>rrn := from_utf8_lossy v\<rparr>))
     else if field = 39 then with_field (read_fixed raw offset 2)
       (\<lambda>v. Ok (tx\<lparr>response_code := from_utf8_lossy v\<rparr>))
     else if field = 52 then with_field (read_fixed raw offset 16)
       (\<lambda>v. Ok (tx\<lparr>pin_block := v\<rparr>))
     else if field = 102 then with_field (read_llvar raw offset)
       (\<lambda>v. let f102 = from_utf8_lossy v; tx1 = tx\<lparr>source_account := Some f102\<rparr>
            in Ok (if fpan tx1 = [] then tx1\<lparr>fpan := ascii ''UKFPS-'' @ f102\<rparr> else tx1))
     else if field = 103 then with_field (read_llvar raw offset)
       (\<lambda>v. Ok (tx\<lparr>destination_account := Some (from_utf8_lossy v)\<rparr>))
     else Ok (tx, offset))"

definition uk_is_set :: "bytes \<Rightarrow> bool \<Rightarrow> bytes \<Rightarrow> nat \<Rightarrow> bool parsed" where
  "uk_is_set bitmap has_secondary secondary field =
     (if field \<le> 64 then is_bit_set bitmap field
      else if has_secondary then is_bit_set secondary (field - 64)
      else Ok False)"

definition uk_parse :: "bytes \<Rightarrow> event parsed" where
  "uk_parse raw =
     (if length raw < 12 then Err LengthError
      else bindo (read_fixed raw 0 4) (\<lambda>(m, offset).
        bindo (read_fixed raw offset 8) (\<lambda>(chunk, offset).
          bindo (copy_from_slice (replicate 8 0) chunk) (\<lambda>bitmap.
            bindo (is_bit_set bitmap 1) (\<lambda>has_secondary.
              bindo (if has_secondary
                     then bindo (read_fixed raw offset 8) (\<lambda>(chunk, offset).
                       bindo (copy_from_slice (replicate 8 0) chunk) (\<lambda>secondary.
                         Ok (secondary, offset)))
                     else Ok (replicate 8 0, offset))
                (\<lambda>(secondary, offset).
                  bindo (decode_fields (uk_is_set bitmap has_secondary secondary) (uk_field raw)
                          [1..<129] (uk_init m, offset))
                    (\<lambda>(tx, _). Ok tx)))))))"

definition uk_primary_segments :: "event \<Rightarrow> segment list" where
  "uk_primary_segments ev =
     [(processing_code ev \<noteq> [], 3, write_fixed (processing_code ev) 6 0x30 False),
      (amount_present ev, 4, write_fixed (format_padded 12 (unat (amount ev))) 12 0x30 False),
      (stan ev \<noteq> [], 11, write_fixed (stan ev) 6 0x30 False),
      (local_time ev \<noteq> [], 12, write_fixed (local_time ev) 6 0x30 False),
      (local_date ev \<noteq> [], 13, write_fixed (local_date ev) 4 0x30 False),
      (is_tokenized ev, 22, write_fixed (ascii ''071'') 3 0x30 False),
      (acquirer_id ev \<noteq> [], 32, write_llvar (acquirer_id ev)),
      (rrn ev \<noteq> [], 37, write_fixed (rrn ev) 12 0x20 True),
      (response_code ev \<noteq> [], 39, write_fixed (response_code ev) 2 0x20 False),
      (pin_block ev \<noteq> [], 52, write_fixed (pin_block ev) 16 0x30 False)]"

text \<open>An account field sets bit 1, its bit of the secondary bitmap, and appends an LLVAR.\<close>

definition uk_put_account ::
  "nat \<Rightarrow> rstring option \<Rightarrow> bytes \<times> bytes \<times> bytes \<Rightarrow> bytes \<times> bytes \<times> bytes" where
  "uk_put_account field acc st = (case st of (bitmap, secondary, payload) \<Rightarrow>
     (case acc of
        None \<Rightarrow> (bitmap, secondary, payload)
      | Some a \<Rightarrow> (set_bit bitmap 1, set_bit secondary (field - 64), payload @ write_llvar a)))"

definition uk_build_response :: "event \<Rightarrow> bytes" where
  "uk_build_response ev =
     (case put_fields (uk_primary_segments ev) of (bitmap, payload) \<Rightarrow>
      case uk_put_account 103 (destination_account ev)
             (uk_put_account 102 (source_account ev) (bitmap, replicate 8 0, payload)) of
        (bitmap, secondary, payload) \<Rightarrow>
          wire_mti ev @ bitmap @ (if is_bit_set bitmap 1 = Ok True then secondary else []) @ payload)"

section \<open>Indices in range\<close>

definition uk_has_field :: "bytes \<Rightarrow> bool \<Rightarrow> bytes \<Rightarrow> nat \<Rightarrow> bool" where
  "uk_has_field bitmap has_secondary secondary field \<longleftrightarrow>
     (if field \<le> 64 then has_bit bitmap field
      else if has_secondary then has_bit secondary (field - 64)
      else False)"

lemma uk_is_set_has_field:
  "uk_is_set bitmap b secondary = (\<lambda>field. Ok (uk_has_field bitmap b secondary field))"
  by (simp add: fun_eq_iff uk_is_set_def uk_has_field_def is_bit_set_has_bit)

text \<open>The parser and the printer with their indices in range.\<close>

lemma uk_parse_eq:
  "uk_parse raw =
     (if length raw < 12 then Err LengthError
      else bindo (read_fixed raw 0 4) (\<lambda>(m, offset).
        bindo (read_fixed raw offset 8) (\<lambda>(bitmap, offset).
          let has_secondary = has_bit bitmap 1 in
          bindo (if has_secondary then read_fixed raw offset 8 else Ok (replicate 8 0, offset))
            (\<lambda>(secondary, offset).
              bindo (decode_present (uk_has_field bitmap has_secondary secondary) (uk_field raw)
                      [1..<129] (uk_init m, offset))
                (\<lambda>(tx, _). Ok tx)))))"
  by (auto simp: uk_parse_def read_fixed_eq is_bit_set_has_bit uk_is_set_has_field
      decode_fields_present Let_def)

lemma uk_build_response_eq:
  "uk_build_response ev =
     (case put_fields (uk_primary_segments ev) of (bitmap, payload) \<Rightarrow>
      case uk_put_account 103 (destination_account ev)
             (uk_put_account 102 (source_account ev) (bitmap, replicate 8 0, payload)) of
        (bitmap, secondary, payload) \<Rightarrow>
          wire_mti ev @ bitmap @ (if has_bit bitmap 1 then secondary else []) @ payload)"
  by (simp add: uk_build_response_def is_bit_set_has_bit)

section \<open>What the wire carries\<close>

definition llvar_ok :: "rstring option \<Rightarrow> bool" where
  "llvar_ok v = (case v of None \<Rightarrow> True | Some s \<Rightarrow> valid_utf8 s \<and> length s \<le> 99)"

definition uk_wf :: "event \<Rightarrow> bool" where
  "uk_wf e \<longleftrightarrow> lengths_wf e \<and> llvar_ok (source_account e) \<and> llvar_ok (destination_account e)"

definition account_bytes :: "rstring option \<Rightarrow> bytes" where
  "account_bytes acc = (case acc of None \<Rightarrow> [] | Some a \<Rightarrow> write_llvar a)"

definition uk_segments :: "event \<Rightarrow> segment list" where
  "uk_segments e =
     (source_account e \<noteq> None \<or> destination_account e \<noteq> None, 1, []) # uk_primary_segments e @
     [(source_account e \<noteq> None, 102, account_bytes (source_account e)),
      (destination_account e \<noteq> None, 103, account_bytes (destination_account e))]"

definition uk_image :: "event \<Rightarrow> nat \<Rightarrow> event \<Rightarrow> event" where
  "uk_image e n t =
     (if n = 1 then t
      else if n = 102 then
        t\<lparr> source_account := source_account e,
           fpan := if fpan t = [] then ascii ''UKFPS-'' @ the (source_account e) else fpan t \<rparr>
      else if n = 103 then t\<lparr>destination_account := destination_account e\<rparr>
      else universal_image e n t)"

text \<open>The response never carries the PAN; the reader substitutes the synthetic one.\<close>

definition uk_view :: "event \<Rightarrow> event" where
  "uk_view e = (view_from (uk_init (wire_mti e)) e)
     \<lparr> fpan := (case source_account e of None \<Rightarrow> [] | Some a \<Rightarrow> ascii ''UKFPS-'' @ a),
       tavv_cryptogram := None,
       source_account := source_account e,
       destination_account := destination_account e \<rparr>"

section \<open>The field contract\<close>

lemma uk_field_universal:
  "field \<notin> {1, 48, 102, 103, 126} \<Longrightarrow> uk_field raw field = universal_field raw field"
  by (simp add: fun_eq_iff uk_field_def universal_field_def)

lemma uk_segment_cases:
  assumes "(True, n, seg) \<in> set (uk_segments e)"
  obtains "n = 1" "seg = []"
  | a where "n = 102" "source_account e = Some a" "seg = write_llvar a"
  | a where "n = 103" "destination_account e = Some a" "seg = write_llvar a"
  | "n \<notin> {1, 48, 102, 103, 126}" "(True, n, seg) \<in> set (universal_segments e)"
  using assms
  by (auto simp: uk_segments_def uk_primary_segments_def universal_segments_def account_bytes_def)

lemma uk_segment_decodes:
  assumes wf: "uk_wf e" and seg: "(True, n, seg) \<in> set (uk_segments e)"
  shows "uk_field (pre @ seg @ post) n (t, length pre)
    = Ok (uk_image e n t, length pre + length seg)"
  using seg
proof (cases rule: uk_segment_cases)
  case 1
  then show ?thesis by (simp add: uk_field_def uk_image_def)
next
  case (2 a)
  then show ?thesis
    using wf by (simp add: uk_field_def uk_image_def uk_wf_def llvar_ok_def wire_simps Let_def)
next
  case (3 a)
  then show ?thesis
    using wf by (simp add: uk_field_def uk_image_def uk_wf_def llvar_ok_def wire_simps)
next
  case 4
  then show ?thesis
    using wf shared_segment_decodes [of e n seg pre post t]
    by (simp add: uk_field_universal uk_image_def uk_wf_def)
qed

lemma uk_ascending: "sorted_wrt (<) (map seg_field (uk_segments e))"
  by (simp add: uk_segments_def uk_primary_segments_def)

interpretation uk:
  field_codec uk_field uk_segments uk_image uk_wf
  by unfold_locales (rule uk_ascending, rule uk_segment_decodes)

section \<open>Round trip\<close>

lemma maybe_uk_image:
  "n \<notin> {1, 102, 103} \<Longrightarrow> maybe c (uk_image e n) t = maybe c (universal_image e n) t"
  "maybe c (uk_image e 1) t = t"
  "maybe c (uk_image e (Suc 0)) t = t"
  "maybe c (uk_image e 102) t =
     t\<lparr> source_account := if c then source_account e else source_account t,
        fpan := if c \<and> fpan t = [] then ascii ''UKFPS-'' @ the (source_account e) else fpan t \<rparr>"
  "maybe c (uk_image e 103) t =
     t\<lparr>destination_account := if c then destination_account e else destination_account t\<rparr>"
  by (simp_all add: maybe_def uk_image_def)

lemma uk_fold:
  "fold (uk_image e) (present_fields (uk_segments e)) (uk_init (wire_mti e)) = uk_view e"
proof -
  have word_pos: "(0 < a) = (a \<noteq> 0)" for a :: u64 by (simp add: word_neq_0_conv)
  show ?thesis
    unfolding fold_present uk_segments_def uk_primary_segments_def
    by (rule event.equality)
       (auto simp: maybe_uk_image maybe_image uk_view_def view_from_def wire_text_def
          amount_present_def word_pos uk_init_def blank_event_def split: option.splits)
qed

lemma uk_primary_range:
  "\<forall>s \<in> set (uk_primary_segments e). seg_field s \<in> {2..64}"
  by (simp add: uk_primary_segments_def)

lemma uk_present:
  "n \<in> set (present_fields (uk_segments e)) \<longleftrightarrow>
     n \<in> set (present_fields (uk_primary_segments e))
     \<or> n = 1 \<and> (source_account e \<noteq> None \<or> destination_account e \<noteq> None)
     \<or> n = 102 \<and> source_account e \<noteq> None \<or> n = 103 \<and> destination_account e \<noteq> None"
  by (auto simp: in_present_fields uk_segments_def)

text \<open>The encoder's two bitmaps and payload, in terms of the segment list.\<close>

lemma uk_encoder:
  assumes put: "put_fields (uk_primary_segments e) = (bm, pl)"
    and acc: "uk_put_account 103 (destination_account e)
        (uk_put_account 102 (source_account e) (bm, replicate 8 0, pl)) = (bm2, sec2, pl2)"
  shows "length bm2 = 8" and "length sec2 = 8" and "pl2 = payload_of (uk_segments e)"
    and "has_bit bm2 1 \<longleftrightarrow> source_account e \<noteq> None \<or> destination_account e \<noteq> None"
    and "uk_has_field bm2 (has_bit bm2 1) (if has_bit bm2 1 then sec2 else replicate 8 0) n
      \<longleftrightarrow> n \<in> set (present_fields (uk_segments e))"
proof -
  have len: "length bm = 8" and pl: "pl = payload_of (uk_primary_segments e)"
    using length_put_fields [of "uk_primary_segments e"] put_fields_payload [of "uk_primary_segments e"]
    by (simp_all add: put)
  have bits: "has_bit bm k \<longleftrightarrow> k \<in> set (present_fields (uk_primary_segments e))" for k
    using put_fields_bitmap [of "uk_primary_segments e" k] uk_primary_range [of e] by (force simp: put)
  have small: "k \<in> set (present_fields (uk_primary_segments e)) \<Longrightarrow> 2 \<le> k \<and> k \<le> 64" for k
    using present_fields_within [OF uk_primary_range, of e] by auto
  show "length bm2 = 8" and "length sec2 = 8"
    using acc len by (auto simp: uk_put_account_def split: option.splits)
  show "pl2 = payload_of (uk_segments e)"
    using acc pl by (auto simp: uk_put_account_def payload_of_def uk_segments_def account_bytes_def
        split: option.splits)
  have bm2: "has_bit bm2 k \<longleftrightarrow> has_bit bm k \<or>
      k = 1 \<and> (source_account e \<noteq> None \<or> destination_account e \<noteq> None)" for k
    using acc len by (auto simp: uk_put_account_def has_bit_set_bit split: option.splits)
  have sec2: "has_bit sec2 k \<longleftrightarrow>
      k = 38 \<and> source_account e \<noteq> None \<or> k = 39 \<and> destination_account e \<noteq> None" for k
    using acc by (auto simp: uk_put_account_def has_bit_set_bit split: option.splits)
  show one: "has_bit bm2 1 \<longleftrightarrow> source_account e \<noteq> None \<or> destination_account e \<noteq> None"
    using bm2 [of 1] bits [of 1] small [of 1] by auto
  show "uk_has_field bm2 (has_bit bm2 1) (if has_bit bm2 1 then sec2 else replicate 8 0) n
      \<longleftrightarrow> n \<in> set (present_fields (uk_segments e))"
    unfolding one uk_has_field_def uk_present bm2 bits
    by (cases "n \<le> 64") (auto simp: sec2 dest: small)
qed

lemma uk_parse_header:
  assumes "length m = 4" and "length bm = 8" and "length sec = (if has_bit bm 1 then 8 else 0)"
  shows "uk_parse (m @ bm @ sec @ pl) =
    bindo (decode_present (uk_has_field bm (has_bit bm 1)
              (if has_bit bm 1 then sec else replicate 8 0))
            (uk_field ((m @ bm @ sec) @ pl)) [1..<129] (uk_init m, length (m @ bm @ sec)))
      (\<lambda>(tx, _). Ok tx)"
  using assms by (auto simp: uk_parse_eq read_fixed_eq Let_def)

lemma uk_roundtrip_view:
  assumes "uk_wf e"
  shows "uk_parse (uk_build_response e) = Ok (uk_view e)"
proof -
  obtain bm pl where put: "put_fields (uk_primary_segments e) = (bm, pl)" by fastforce
  obtain bm2 sec2 pl2 where acc: "uk_put_account 103 (destination_account e)
      (uk_put_account 102 (source_account e) (bm, replicate 8 0, pl)) = (bm2, sec2, pl2)"
    by (metis prod_cases3)
  note enc = uk_encoder [OF put acc]
  let ?sec = "if has_bit bm2 1 then sec2 else []"
  let ?pre = "wire_mti e @ bm2 @ ?sec"
  have "decode_present (uk_has_field bm2 (has_bit bm2 1)
          (if has_bit bm2 1 then ?sec else replicate 8 0)) (uk_field (?pre @ pl2)) [1..<129]
      (uk_init (wire_mti e), length ?pre)
    = Ok (fold (uk_image e) (present_fields (uk_segments e)) (uk_init (wire_mti e)),
          length ?pre + length pl2)"
    unfolding enc(3)
  proof (intro uk.decode_encoded)
    show "set (present_fields (uk_segments e)) \<subseteq> set [1..<129]"
      using present_fields_within [OF uk_primary_range, of e] by (force simp: uk_present)
    show "uk_has_field bm2 (has_bit bm2 1) (if has_bit bm2 1 then ?sec else replicate 8 0) n
        \<longleftrightarrow> n \<in> set (present_fields (uk_segments e))" for n
      using enc(5) [of n] by (cases "has_bit bm2 1") simp_all
  qed (simp_all add: assms sorted_wrt_upt)
  then show ?thesis
    using enc(1,2) uk_parse_header [of "wire_mti e" bm2 ?sec pl2]
    by (cases "has_bit bm2 1") (simp_all add: uk_build_response_eq put acc uk_fold)
qed

section \<open>Typing, and absence of panics\<close>

lemma uk_field_keeps: "typed m tx \<Longrightarrow> keeps m (uk_field raw f (tx, k))"
  unfolding uk_field_def prod.case Let_def
  by (intro keeps_intros typed_if) (simp_all add: typed_intros)

lemma uk_field_no_panic: "uk_field raw f st \<noteq> Panic"
  unfolding uk_field_def case_prod_beta Let_def
  by (intro no_panic)

lemma uk_parse_typed:
  assumes "uk_parse raw = Ok e"
  shows "event_ok e \<and> mti e = take 4 raw \<and> length (mti e) = 4"
proof -
  obtain is_set fs k k' where d: "decode_present is_set (uk_field raw) fs
      (uk_init (take 4 raw), k) = Ok (e, k')" and len: "12 \<le> length raw"
    using assms by (auto simp: uk_parse_eq read_fixed_eq bindo_eq_Ok Let_def split: if_splits)
  have "typed (take 4 raw) e"
    by (rule typed_fields [OF _ _ d]) (simp_all add: uk_field_keeps uk_init_def)
  with len show ?thesis by (simp add: typed_def)
qed

lemma uk_parse_no_panic: "uk_parse raw \<noteq> Panic"
proof -
  have "decode_present is_set (uk_field raw) fs st \<noteq> Panic" for is_set fs st
    by (intro decode_present_no_panic uk_field_no_panic)
  then show ?thesis
    by (auto simp: uk_parse_eq read_fixed_eq bindo_eq_Panic Let_def)
qed

interpretation uk_adapter:
  dialect_adapter uk_parse uk_build_response uk_view uk_wf
proof unfold_locales
  show "uk_parse raw = Ok e \<Longrightarrow> event_ok e \<and> length (mti e) = 4" for raw e
    using uk_parse_typed by blast
  show "length raw < 12 \<Longrightarrow> uk_parse raw = Err LengthError" for raw
    by (simp add: uk_parse_eq)
  show "uk_wf e \<Longrightarrow> uk_parse (uk_build_response e) = Ok (uk_view e)" for e
    by (rule uk_roundtrip_view)
qed (simp_all add: uk_view_def view_from_def)

end
