(* ===== verification/Framing.thy ===== *)
theory Framing
  imports Rust_Std
begin

text \<open>
  Length-prefixed framing of the TCP streams: \<open>Iso8583Codec\<close> (\<open>edge-ingress/src/codec.rs\<close>
  and its copy in \<open>edge-egress/src/client.rs\<close>) and \<open>ThalesCodec\<close>
  (\<open>payment-proto/src/thales.rs\<close>). A frame is a big-endian \<open>u16\<close> length and that many
  bytes.

  A decoder is called on the receive buffer; \<open>Ok (None, b)\<close> asks for more input,
  \<open>Ok (Some m, b)\<close> yields a message and the buffer that is left. The locale
  \<open>framing\<close> states what the stream reader (\<open>Framed\<close>) relies on; its lemmas show that
  the messages delivered do not depend on how TCP cuts the stream.
\<close>

section \<open>Definitions\<close>

datatype io_error = InvalidData

type_synonym 'a io = "(io_error, 'a) outcome"

text \<open>\<open>Iso8583Codec::decode\<close> and \<open>encode\<close>; \<open>item.len() as u16\<close> wraps.\<close>

definition iso8583_decode :: "bytes \<Rightarrow> (bytes option \<times> bytes) io" where
  "iso8583_decode src =
     (if length src < 2 then Ok (None, src)
      else let len = from_be_bytes (take 2 src) in
        if length src < 2 + len then Ok (None, src)
        else let src1 = drop 2 src in Ok (Some (take len src1), drop len src1))"

definition iso8583_encode :: "bytes \<Rightarrow> bytes \<Rightarrow> bytes io" where
  "iso8583_encode item dst =
     (let len = (of_nat (length item) :: u16)
      in Ok (dst @ to_be_bytes 2 (unat len) @ item))"

text \<open>The egress client's own copy of the codec (\<open>edge-egress/src/client.rs\<close>).\<close>

definition upstream_decode :: "bytes \<Rightarrow> (bytes option \<times> bytes) io" where
  "upstream_decode src =
     (if length src < 2 then Ok (None, src)
      else let len = from_be_bytes (take 2 src) in
        if length src < 2 + len then Ok (None, src)
        else let src1 = drop 2 src in Ok (Some (take len src1), drop len src1))"

definition upstream_encode :: "bytes \<Rightarrow> bytes \<Rightarrow> bytes io" where
  "upstream_encode item dst =
     (let len = (of_nat (length item) :: u16)
      in Ok (dst @ to_be_bytes 2 (unat len) @ item))"

text \<open>The frame that clients without a codec write: the same length prefix, then the payload.\<close>

definition length_prefixed :: "bytes \<Rightarrow> bytes" where
  "length_prefixed p = to_be_bytes 2 (unat (of_nat (length p) :: u16)) @ p"

record thales_message =
  header :: rstring
  command :: rstring
  payload :: rstring

definition thales_decode :: "bytes \<Rightarrow> (thales_message option \<times> bytes) io" where
  "thales_decode src =
     (if length src < 2 then Ok (None, src)
      else let len = from_be_bytes (take 2 src) in
        if length src < 2 + len then Ok (None, src)
        else let src1 = drop 2 src; msg_str = take len src1; src2 = drop len src1 in
          if \<not> valid_utf8 msg_str then Err InvalidData
          else if length msg_str < 6 then Err InvalidData
          else case str_slice msg_str 0 4 of
            None \<Rightarrow> Panic
          | Some hdr \<Rightarrow> (case str_slice msg_str 4 6 of
              None \<Rightarrow> Panic
            | Some cmd \<Rightarrow> (case str_slice msg_str 6 (length msg_str) of
                None \<Rightarrow> Panic
              | Some pl \<Rightarrow> Ok (Some \<lparr>header = hdr, command = cmd, payload = pl\<rparr>, src2))))"

definition thales_encode :: "thales_message \<Rightarrow> bytes \<Rightarrow> bytes io" where
  "thales_encode item dst =
     (let payload_len = length (header item) + length (command item) + length (payload item) in
      if payload_len > 65535 then Err InvalidData
      else Ok (dst @ to_be_bytes 2 payload_len @ header item @ command item @ payload item))"

text \<open>
  The read loop of \<open>Framed\<close>: decode until the decoder asks for more, over a buffer that may
  already hold several frames. The recursion is on the buffer, which every delivered frame
  shortens; a decoder that delivers without consuming stops the model's loop.
\<close>

function drain ::
  "(bytes \<Rightarrow> ('m option \<times> bytes) io) \<Rightarrow> bytes \<Rightarrow> ('m list \<times> bytes) io" where
  "drain dec src =
     bindo (dec src) (\<lambda>(item, rest). case item of
       None \<Rightarrow> Ok ([], rest)
     | Some m \<Rightarrow>
         if length rest < length src
         then bindo (drain dec rest) (\<lambda>(ms, rest'). Ok (m # ms, rest'))
         else Ok ([m], rest))"
  by pat_completeness auto
termination by (relation "measure (\<lambda>(_, src). length src)") auto

declare drain.simps [simp del]

text \<open>A connection: each chunk TCP delivers is appended to the buffer, which is then drained.\<close>

fun receive_chunks ::
  "(bytes \<Rightarrow> ('m option \<times> bytes) io) \<Rightarrow> bytes \<Rightarrow> bytes list \<Rightarrow> ('m list \<times> bytes) io" where
  "receive_chunks dec buf [] = Ok ([], buf)"
| "receive_chunks dec buf (c # cs) =
     bindo (drain dec (buf @ c)) (\<lambda>(ms, buf').
       bindo (receive_chunks dec buf' cs) (\<lambda>(ms', buf''). Ok (ms @ ms', buf'')))"

text \<open>A peer that sends a list of messages through an encoder.\<close>

fun send_all :: "('m \<Rightarrow> bytes \<Rightarrow> bytes io) \<Rightarrow> 'm list \<Rightarrow> bytes \<Rightarrow> bytes io" where
  "send_all enc [] dst = Ok dst"
| "send_all enc (m # ms) dst = bindo (enc m dst) (send_all enc ms)"

text \<open>\<open>parse_iso8583\<close> of \<open>iso-parser/src/lib.rs\<close>: the header check of the nom parser.\<close>

datatype nom_error = Eof bytes | MapRes bytes | Tag bytes

definition nom_take :: "nat \<Rightarrow> bytes \<Rightarrow> (nom_error, bytes \<times> bytes) outcome" where
  "nom_take n input =
     (if length input < n then Err (Eof input) else Ok (drop n input, take n input))"

definition parse_mti :: "bytes \<Rightarrow> (nom_error, bytes \<times> rstring) outcome" where
  "parse_mti input = bindo (nom_take 4 input) (\<lambda>(rest, s).
     if valid_utf8 s then Ok (rest, s) else Err (MapRes input))"

definition parse_primary_bitmap :: "bytes \<Rightarrow> (nom_error, bytes \<times> bytes) outcome" where
  "parse_primary_bitmap input = bindo (nom_take 8 input) (\<lambda>(rest, bitmap). Ok (rest, bitmap))"

record iso8583_message =
  msg_mti :: rstring
  primary_bitmap :: bytes

definition parse_iso8583 :: "bytes \<Rightarrow> (nom_error, bytes \<times> iso8583_message) outcome" where
  "parse_iso8583 input =
     bindo (parse_mti input) (\<lambda>(input, m).
       bindo (parse_primary_bitmap input) (\<lambda>(input, bitmap).
         if m \<noteq> ascii ''0100'' \<and> m \<noteq> ascii ''0110'' then Err (Tag input)
         else Ok (input, \<lparr>msg_mti = m, primary_bitmap = bitmap\<rparr>)))"

section \<open>The framing contract\<close>

locale framing =
  fixes decode :: "bytes \<Rightarrow> ('m option \<times> bytes) io"
    and encode :: "'m \<Rightarrow> bytes \<Rightarrow> bytes io"
    and sendable :: "'m \<Rightarrow> bool"
  assumes encode_frame: "sendable m \<Longrightarrow>
      \<exists>frame. (\<forall>dst. encode m dst = Ok (dst @ frame)) \<and> (\<forall>rest. decode (frame @ rest) = Ok (Some m, rest))"
    and decode_nil: "decode [] = Ok (None, [])"
    and decode_waits: "decode src = Ok (None, rest) \<Longrightarrow> rest = src"
    and decode_consumes: "decode src = Ok (Some m, rest) \<Longrightarrow> length rest < length src"
    and decode_extends: "decode src = Ok (Some m, rest) \<Longrightarrow> decode (src @ tail) = Ok (Some m, rest @ tail)"
    and decode_fails: "decode src = Err e \<Longrightarrow> decode (src @ tail) = Err e"
      "decode src = Panic \<Longrightarrow> decode (src @ tail) = Panic"
begin

lemma drain_waits: "decode src = Ok (None, rest) \<Longrightarrow> drain decode src = Ok ([], src)"
  using decode_waits by (subst drain.simps) simp

lemma drain_step: "decode src = Ok (Some m, rest) \<Longrightarrow>
    drain decode src = bindo (drain decode rest) (\<lambda>(ms, r). Ok (m # ms, r))"
  using decode_consumes by (subst drain.simps) simp

text \<open>Draining early and draining late give the same messages.\<close>

lemma drain_append:
  assumes "drain decode src = Ok (ms, rest)"
  shows "drain decode (src @ tail) = bindo (drain decode (rest @ tail)) (\<lambda>(ms', r). Ok (ms @ ms', r))"
  using assms
proof (induction "length src" arbitrary: src ms rule: less_induct)
  case less
  obtain item rest1 where d: "decode src = Ok (item, rest1)"
    using less.prems by (subst (asm) drain.simps) (auto simp: bindo_eq_Ok)
  show ?case
  proof (cases item)
    case None
    then have "drain decode src = Ok ([], src)" using d drain_waits by simp
    then show ?thesis using less.prems by (cases "drain decode (src @ tail)") auto
  next
    case (Some m)
    then have step: "decode src = Ok (Some m, rest1)" using d by simp
    obtain ms1 where ms1: "drain decode rest1 = Ok (ms1, rest)" "ms = m # ms1"
      using less.prems by (auto simp: drain_step [OF step] bindo_eq_Ok)
    have "drain decode (rest1 @ tail)
        = bindo (drain decode (rest @ tail)) (\<lambda>(ms', r). Ok (ms1 @ ms', r))"
      using less.hyps [OF decode_consumes [OF step] ms1(1)] .
    then show ?thesis
      by (simp add: drain_step [OF decode_extends [OF step]] ms1(2) bindo_assoc split_def)
  qed
qed

lemma drain_frames:
  assumes "\<forall>m \<in> set ms. sendable m" and "send_all encode ms [] = Ok stream"
    and "decode rest = Ok (None, rest)"
  shows "drain decode (stream @ rest) = Ok (ms, rest)"
proof -
  have "\<exists>frames. (\<forall>dst. send_all encode ms dst = Ok (dst @ frames))
      \<and> drain decode (frames @ rest) = Ok (ms, rest)"
    using assms(1)
  proof (induction ms)
    case Nil
    then show ?case using assms(3) by (simp add: drain_waits)
  next
    case (Cons m ms)
    then obtain frames where fs: "\<forall>dst. send_all encode ms dst = Ok (dst @ frames)"
      "drain decode (frames @ rest) = Ok (ms, rest)" by auto
    obtain frame where f: "\<forall>dst. encode m dst = Ok (dst @ frame)"
      "\<forall>rest. decode (frame @ rest) = Ok (Some m, rest)"
      using encode_frame [of m] Cons.prems by auto
    have "drain decode ((frame @ frames) @ rest) = Ok (m # ms, rest)"
      using f(2) fs(2) by (simp add: drain_step)
    then show ?case using f(1) fs(1) by (intro exI [of _ "frame @ frames"]) simp
  qed
  then show ?thesis using assms(2) by auto
qed

lemma drain_stops: "drain decode src = Ok (ms, rest) \<Longrightarrow> decode rest = Ok (None, rest)"
proof (induction "length src" arbitrary: src ms rule: less_induct)
  case less
  obtain item rest1 where d: "decode src = Ok (item, rest1)"
    using less.prems by (subst (asm) drain.simps) (auto simp: bindo_eq_Ok)
  show ?case
  proof (cases item)
    case None
    then show ?thesis using d less.prems drain_waits decode_waits by fastforce
  next
    case (Some m)
    then have step: "decode src = Ok (Some m, rest1)" using d by simp
    then obtain ms1 where "drain decode rest1 = Ok (ms1, rest)"
      using less.prems by (auto simp: drain_step bindo_eq_Ok)
    then show ?thesis by (rule less.hyps [OF decode_consumes [OF step]])
  qed
qed

text \<open>A prefix of a stream that drains without error drains without error.\<close>

lemma drain_prefix:
  assumes "drain decode (src @ tail) = Ok (ms, rest)"
  shows "\<exists>ms1 rest1. drain decode src = Ok (ms1, rest1)"
  using assms
proof (induction "length src" arbitrary: src ms rule: less_induct)
  case less
  show ?case
  proof (cases "decode src")
    case (Ok res)
    obtain item rest1 where d: "decode src = Ok (item, rest1)"
      using Ok by (cases res) simp
    show ?thesis
    proof (cases item)
      case None
      then show ?thesis using d drain_waits by simp
    next
      case (Some m)
      then have step: "decode src = Ok (Some m, rest1)" using d by simp
      then obtain ms2 where "drain decode (rest1 @ tail) = Ok (ms2, rest)"
        using less.prems by (auto simp: drain_step [OF decode_extends [OF step]] bindo_eq_Ok)
      then have "\<exists>ms1 rest2. drain decode rest1 = Ok (ms1, rest2)"
        by (rule less.hyps [OF decode_consumes [OF step]])
      then show ?thesis by (auto simp: drain_step [OF step])
    qed
  next
    case (Err e)
    then have "decode (src @ tail) = Err e" by (rule decode_fails)
    then show ?thesis using less.prems by (subst (asm) drain.simps) simp
  next
    case Panic
    then have "decode (src @ tail) = Panic" by (rule decode_fails)
    then show ?thesis using less.prems by (subst (asm) drain.simps) simp
  qed
qed

text \<open>However the stream is cut into chunks, the receiver ends as if it had come at once.\<close>

lemma chunks_drain:
  assumes "decode buf = Ok (None, buf)" and "drain decode (buf @ concat cs) = Ok (ms, rest)"
  shows "receive_chunks decode buf cs = Ok (ms, rest)"
  using assms
proof (induction cs arbitrary: buf ms)
  case Nil
  then show ?case using drain_waits by simp
next
  case (Cons c cs)
  obtain ms1 rest1 where first: "drain decode (buf @ c) = Ok (ms1, rest1)"
    using drain_prefix [of "buf @ c" "concat cs"] Cons.prems(2) by auto
  obtain ms2 where second: "drain decode (rest1 @ concat cs) = Ok (ms2, rest)" and "ms = ms1 @ ms2"
    using drain_append [OF first, of "concat cs"] Cons.prems(2) by (auto simp: bindo_eq_Ok)
  moreover have "receive_chunks decode rest1 cs = Ok (ms2, rest)"
    using Cons.IH [OF drain_stops [OF first] second] .
  ultimately show ?case using first by simp
qed

lemma stream_delivered:
  assumes "\<forall>m \<in> set ms. sendable m" and "send_all encode ms [] = Ok stream" and "concat cs = stream"
  shows "receive_chunks decode [] cs = Ok (ms, [])"
  using chunks_drain [OF decode_nil, of cs ms "[]"] drain_frames [OF assms(1,2) decode_nil] assms(3)
  by simp

lemma send_all_succeeds: "\<forall>m \<in> set ms. sendable m \<Longrightarrow> \<exists>stream. send_all encode ms dst = Ok stream"
proof (induction ms arbitrary: dst)
  case (Cons m ms)
  then show ?case using encode_frame [of m] by auto
qed simp

end

section \<open>The two codecs\<close>

lemma length_prefixed_value:
  assumes "length p < 65536"
  shows "from_be_bytes (take 2 (length_prefixed p)) = length p" "drop 2 (length_prefixed p) = p"
    "length (length_prefixed p) = 2 + length p"
proof -
  have "unat (of_nat (length p) :: u16) = length p" using assms by (simp add: unat_of_nat)
  then show "from_be_bytes (take 2 (length_prefixed p)) = length p" "drop 2 (length_prefixed p) = p"
    "length (length_prefixed p) = 2 + length p"
    using assms by (simp_all add: length_prefixed_def from_be_to_be_bytes)
qed

lemma decode_length_prefixed:
  "length p < 65536 \<Longrightarrow> iso8583_decode (length_prefixed p) = Ok (Some p, [])"
  by (simp add: iso8583_decode_def length_prefixed_value Let_def)

interpretation iso8583:
  framing iso8583_decode iso8583_encode "\<lambda>m. length m \<le> 65535"
proof
  fix m :: bytes
  assume "length m \<le> 65535"
  then have "unat (of_nat (length m) :: u16) = length m"
    by (simp add: unat_of_nat)
  then show "\<exists>frame. (\<forall>dst. iso8583_encode m dst = Ok (dst @ frame))
      \<and> (\<forall>rest. iso8583_decode (frame @ rest) = Ok (Some m, rest))"
    using \<open>length m \<le> 65535\<close>
    by (intro exI [of _ "to_be_bytes 2 (length m) @ m"])
       (simp add: iso8583_encode_def iso8583_decode_def from_be_to_be_bytes Let_def)
next
  fix src rest tail m
  assume "iso8583_decode src = Ok (Some m, rest)"
  then show "length rest < length src" and "iso8583_decode (src @ tail) = Ok (Some m, rest @ tail)"
    by (auto simp: iso8583_decode_def Let_def split: if_splits)
qed (auto simp: iso8583_decode_def Let_def split: if_splits)

definition thales_sendable :: "thales_message \<Rightarrow> bool" where
  "thales_sendable m \<longleftrightarrow> valid_utf8 (header m) \<and> valid_utf8 (command m) \<and> valid_utf8 (payload m)
     \<and> length (header m) = 4 \<and> length (command m) = 2 \<and> length (payload m) \<le> 65529"

text \<open>The two copies of the codec are the same functions, so each reads what the other writes.\<close>

lemma upstream_codec: "upstream_decode = iso8583_decode" "upstream_encode = iso8583_encode"
  by (simp_all add: fun_eq_iff upstream_decode_def iso8583_decode_def upstream_encode_def iso8583_encode_def)

interpretation upstream:
  framing upstream_decode upstream_encode "\<lambda>m. length m \<le> 65535"
  unfolding upstream_codec by (rule iso8583.framing_axioms)

lemma thales_decode_frame:
  assumes "thales_sendable m"
  shows "thales_decode (to_be_bytes 2 (length (header m) + length (command m) + length (payload m))
      @ (header m @ command m @ payload m) @ rest) = Ok (Some m, rest)"
proof -
  let ?s = "header m @ command m @ payload m"
  have len: "length (header m) = 4" "length (command m) = 2" "length (payload m) \<le> 65529"
    and utf: "valid_utf8 (header m)" "valid_utf8 (command m)" "valid_utf8 (payload m)"
    using assms by (simp_all add: thales_sendable_def)
  have "from_be_bytes (to_be_bytes 2 (length ?s)) = length ?s"
    using len by (simp add: from_be_to_be_bytes)
  moreover have "valid_utf8 ?s" using utf by (intro valid_utf8_append)
  moreover have "str_slice ?s 0 4 = Some (header m)"
    using str_slice_parts [of "header m" "command m @ payload m" "[]"] utf len valid_utf8_append by simp
  moreover have "str_slice ?s 4 6 = Some (command m)"
    using str_slice_parts [of "command m" "payload m" "header m"] utf len by simp
  moreover have "str_slice ?s 6 (length ?s) = Some (payload m)"
    using str_slice_parts [of "payload m" "[]" "header m @ command m"] utf len by simp
  ultimately show ?thesis using len by (simp add: thales_decode_def Let_def)
qed

lemma thales_decode_append:
  assumes "thales_decode src \<noteq> Ok (None, src)"
  shows "thales_decode (src @ tail) = bindo (thales_decode src) (\<lambda>(m, rest). Ok (m, rest @ tail))"
    and "thales_decode src = Ok (m, rest) \<Longrightarrow> m \<noteq> None \<and> length rest < length src"
proof -
  have "2 \<le> length src" and "2 + from_be_bytes (take 2 src) \<le> length src"
    using assms by (auto simp: thales_decode_def Let_def split: if_splits)
  then show "thales_decode (src @ tail) = bindo (thales_decode src) (\<lambda>(m, rest). Ok (m, rest @ tail))"
    and "thales_decode src = Ok (m, rest) \<Longrightarrow> m \<noteq> None \<and> length rest < length src"
    by (auto simp: thales_decode_def Let_def split: option.splits if_splits)
qed

interpretation thales:
  framing thales_decode thales_encode thales_sendable
proof
  fix m
  assume m: "thales_sendable m"
  then have "thales_encode m dst = Ok (dst @ to_be_bytes 2 (length (header m) + length (command m)
      + length (payload m)) @ header m @ command m @ payload m)" for dst
    by (simp add: thales_encode_def thales_sendable_def)
  then show "\<exists>frame. (\<forall>dst. thales_encode m dst = Ok (dst @ frame))
      \<and> (\<forall>rest. thales_decode (frame @ rest) = Ok (Some m, rest))"
    using thales_decode_frame [OF m] by (metis append.assoc)
next
  fix src rest
  assume "thales_decode src = Ok (None, rest)"
  then show "rest = src" using thales_decode_append(2) by force
next
  fix src rest tail m
  assume "thales_decode src = Ok (Some m, rest)"
  then show "length rest < length src" and "thales_decode (src @ tail) = Ok (Some m, rest @ tail)"
    using thales_decode_append [of src] by auto
next
  fix src tail e
  show "thales_decode src = Err e \<Longrightarrow> thales_decode (src @ tail) = Err e"
    and "thales_decode src = Panic \<Longrightarrow> thales_decode (src @ tail) = Panic"
    using thales_decode_append(1) [of src tail] by auto
qed (simp add: thales_decode_def)

section \<open>The nom header parser\<close>

lemma parse_iso8583_Ok:
  "parse_iso8583 input = Ok (rest, m) \<longleftrightarrow>
     input = msg_mti m @ primary_bitmap m @ rest \<and> length (primary_bitmap m) = 8
     \<and> msg_mti m \<in> {ascii ''0100'', ascii ''0110''}"
proof
  assume "parse_iso8583 input = Ok (rest, m)"
  then have "12 \<le> length input" and "rest = drop 8 (drop 4 input)"
    and "m = \<lparr>msg_mti = take 4 input, primary_bitmap = take 8 (drop 4 input)\<rparr>"
    and "take 4 input \<in> {ascii ''0100'', ascii ''0110''}"
    by (auto simp: parse_iso8583_def parse_mti_def parse_primary_bitmap_def nom_take_def bindo_eq_Ok
        split: if_splits)
  then show "input = msg_mti m @ primary_bitmap m @ rest \<and> length (primary_bitmap m) = 8
      \<and> msg_mti m \<in> {ascii ''0100'', ascii ''0110''}"
    by (simp del: drop_drop)
next
  have "valid_utf8 (ascii ''0100'')" and "valid_utf8 (ascii ''0110'')"
    by (simp_all add: ascii_def valid_utf8_ascii)
  moreover assume "input = msg_mti m @ primary_bitmap m @ rest \<and> length (primary_bitmap m) = 8
    \<and> msg_mti m \<in> {ascii ''0100'', ascii ''0110''}"
  moreover have "length (ascii ''0100'') = 4" and "length (ascii ''0110'') = 4"
    by (simp_all add: ascii_def)
  ultimately show "parse_iso8583 input = Ok (rest, m)"
    by (auto simp: parse_iso8583_def parse_mti_def parse_primary_bitmap_def nom_take_def)
qed

end
