(* ===== verification/Dialect_Properties.thy ===== *)
theory Dialect_Properties
  imports Standard_Dialect Interac_Dialect Uk_Fps_Dialect Framing
begin

text \<open>
  What the message layer guarantees: the properties of the dialects, the protobuf form and the
  framing, over the definitions of the component theories and the facts of their interpretations.
\<close>

section \<open>Sample messages\<close>

definition sample_message :: event where
  "sample_message = (blank_event Authorization (ascii ''0110'') False False)
     \<lparr> fpan := ascii ''4111222233334444'', processing_code := ascii ''000000'', amount := 12345,
       stan := ascii ''000042'', local_time := ascii ''120000'', local_date := ascii ''1231'',
       rrn := ascii ''000000000001'', response_code := ascii ''00'', acquirer_id := ascii ''ACQ'' \<rparr>"

definition empty_message :: bytes where
  "empty_message = ascii ''0100'' @ replicate 8 0"

text \<open>A request whose only field is field 48.\<close>

definition field48_message :: "rstring \<Rightarrow> bytes" where
  "field48_message f48 = ascii ''0100'' @ fst (put_fields [(True, 48, write_lllvar f48)]) @ write_lllvar f48"

lemma sample_lengths: "lengths_wf sample_message"
  by (simp add: lengths_wf_def sample_message_def blank_event_def ascii_def)

lemma sample_wire_wf: "wire_wf sample_message"
  by (simp add: wire_wf_def sample_lengths) (simp add: sample_message_def blank_event_def)

lemma empty_parses:
  "standard_parse empty_message = Ok (standard_init (ascii ''0100''))"
  "universal_decode empty_message = Ok (universal_init (ascii ''0100''))"
  "interac_parse empty_message = Ok (interac_init (ascii ''0100''))"
  "uk_parse empty_message = Ok (uk_init (ascii ''0100''))"
proof -
  have none: "decode_present (\<lambda>_. False) step fs st = Ok st" for step :: "nat \<Rightarrow> event \<times> nat \<Rightarrow> (event \<times> nat) parsed" and fs st
    by (induction fs) simp_all
  have zero: "has_bit (replicate 8 0) = (\<lambda>_. False)" "standard_has_field (replicate 8 0) = (\<lambda>_. False)"
    "uk_has_field (replicate 8 0) False (replicate 8 0) = (\<lambda>_. False)"
    by (auto simp: fun_eq_iff standard_has_field_def uk_has_field_def)
  have len: "length (ascii ''0100'') = 4" by (simp add: ascii_def)
  show "standard_parse empty_message = Ok (standard_init (ascii ''0100''))"
    using standard_parse_header [OF len, of "replicate 8 0" "[]"]
    by (simp add: empty_message_def none zero)
  show "universal_decode empty_message = Ok (universal_init (ascii ''0100''))"
    using universal_decode_header [OF len, of "replicate 8 0" "[]"]
    by (simp add: empty_message_def none zero)
  show "interac_parse empty_message = Ok (interac_init (ascii ''0100''))"
    using interac_parse_header [OF len, of "replicate 8 0" "[]"]
    by (simp add: empty_message_def none zero)
  show "uk_parse empty_message = Ok (uk_init (ascii ''0100''))"
    using uk_parse_header [OF len, of "replicate 8 0" "[]" "[]"]
    by (simp add: empty_message_def none zero)
qed

section \<open>Round trips\<close>

text \<open>
  C21. The outbound dialects lose nothing: an event whose fields have their wire widths and that
  uses only fields the wire transports is decoded to itself after encoding, by either of the
  Base24 and Connex routers on either side.
\<close>

theorem outbound_roundtrip:
  assumes "wire_exact e" and "off_wire_blank e"
    and "message_class e = class_of_mti (mti e)" and "is_reversal e = reversal_mti (mti e)"
  shows "bindo (router_encode d e) (router_decode d') = Ok e"
proof -
  have "bindo (universal_encode e) universal_decode = Ok e"
    using universal_roundtrip_view [of e] universal_view_exact [OF assms] assms(1)
    by (simp add: wire_exact_def)
  moreover have "router_decode d' = universal_decode" by (cases d') auto
  ultimately show ?thesis by (cases d) simp_all
qed

theorem outbound_roundtrip_witness:
  "bindo (router_encode Connex sample_message) (router_decode Base24) = Ok sample_message"
proof (rule outbound_roundtrip)
  show "wire_exact sample_message"
    by (simp add: wire_exact_def sample_wire_wf)
       (simp add: fits_def sample_message_def blank_event_def ascii_def valid_utf8_ascii)
qed (simp_all add: off_wire_blank_def sample_message_def blank_event_def class_of_mti_def
      reversal_mti_def ascii_def)

text \<open>
  A standard-dialect response arrives as its wire view: every event whose variable fields fit
  and whose amount has at most twelve digits parses back with PAN, amount and acquirer unchanged
  and each text field padded or cut to its width.
\<close>

theorem standard_response_arrives:
  assumes "wire_wf e"
  shows "\<exists>e'. standard_parse (standard_build_response e) = Ok e' \<and>
    fpan e' = fpan e \<and> amount e' = amount e \<and> acquirer_id e' = acquirer_id e \<and>
    stan e' = wire_text (stan e) 6 0x30 False \<and> rrn e' = wire_text (rrn e) 12 0x20 True \<and>
    response_code e' = wire_text (response_code e) 2 0x20 False \<and> mti e' = wire_mti e \<and>
    is_tokenized e' = is_tokenized e"
  using standard_adapter.response_parses [OF assms]
  by (simp add: standard_view_def view_from_def standard_init_def blank_event_def)

theorem standard_response_arrives_witness:
  "\<exists>e'. standard_parse (standard_build_response sample_message) = Ok e' \<and> fpan e' = ascii ''4111222233334444''"
  using standard_response_arrives [OF sample_wire_wf] by (auto simp: sample_message_def)

text \<open>
  An Interac response carries, beyond the standard fields, the settlement data of field 63 and
  the cryptogram of field 48 unchanged, tokenized or not; only a 0200 is marked for instant clearing.
\<close>

theorem interac_response_arrives:
  assumes "interac_wf e"
  shows "\<exists>e'. interac_parse (interac_build_response e) = Ok e' \<and>
    fpan e' = fpan e \<and> amount e' = amount e \<and> acquirer_id e' = acquirer_id e \<and>
    tavv_cryptogram e' = tavv_cryptogram e \<and>
    domestic_settlement_data e' = domestic_settlement_data e \<and>
    response_code e' = wire_text (response_code e) 2 0x20 False \<and>
    requires_instant_clearing e' = (from_utf8_lossy (wire_mti e) = ascii ''0200'')"
  using interac_adapter.response_parses [OF assms]
  by (simp add: interac_view_def view_from_def interac_init_def blank_event_def Let_def)

theorem interac_response_arrives_witness:
  "\<exists>e'. interac_parse (interac_build_response (sample_message\<lparr>domestic_settlement_data := Some (ascii ''D1'')\<rparr>)) = Ok e'
    \<and> domestic_settlement_data e' = Some (ascii ''D1'')"
proof -
  have "interac_wf (sample_message\<lparr>domestic_settlement_data := Some (ascii ''D1'')\<rparr>)"
    using sample_lengths
    by (simp add: interac_wf_def lengths_wf_def lllvar_ok_def)
       (simp add: sample_message_def blank_event_def ascii_def valid_utf8_ascii)
  from interac_response_arrives [OF this] show ?thesis by auto
qed

text \<open>
  A UK Faster Payments response carries the two accounts and never the PAN: the receiver finds
  the source account behind the prefix \<open>UKFPS-\<close> in its place, or nothing.
\<close>

theorem uk_response_hides_pan:
  assumes "uk_wf e"
  shows "\<exists>e'. uk_parse (uk_build_response e) = Ok e' \<and>
    fpan e' = (case source_account e of None \<Rightarrow> [] | Some a \<Rightarrow> ascii ''UKFPS-'' @ a) \<and>
    source_account e' = source_account e \<and> destination_account e' = destination_account e \<and>
    amount e' = amount e \<and> response_code e' = wire_text (response_code e) 2 0x20 False"
  using uk_adapter.response_parses [OF assms]
  by (simp add: uk_view_def view_from_def uk_init_def blank_event_def)

theorem uk_response_hides_pan_witness:
  "\<exists>e'. uk_parse (uk_build_response (sample_message\<lparr>source_account := Some (ascii ''GB1'')\<rparr>)) = Ok e'
    \<and> fpan e' = ascii ''UKFPS-GB1''"
proof -
  have "uk_wf (sample_message\<lparr>source_account := Some (ascii ''GB1'')\<rparr>)"
    using sample_lengths
    by (simp add: uk_wf_def lengths_wf_def llvar_ok_def)
       (simp add: sample_message_def blank_event_def ascii_def valid_utf8_ascii)
  from uk_response_hides_pan [OF this] show ?thesis by (auto simp: ascii_def)
qed

text \<open>
  The protobuf form is faithful to the transaction: converting to it and back keeps every field
  it has, and resets the rest to their defaults; converting from it and back is the identity.
\<close>

theorem protobuf_roundtrip:
  assumes "text_fields_ok e" and "pb_ok p"
  shows "from_pb (to_pb e) =
    e\<lparr> message_class := class_of_mti (mti e), transaction_type := Purchase, dpan := None,
       is_tokenized := False, tavv_cryptogram := None, risk_score := 0,
       requires_instant_clearing := False, domestic_settlement_data := None,
       source_account := None, destination_account := None,
       original_data_elements := None, mac_data := None, is_reversal := False \<rparr>
    \<and> to_pb (from_pb p) = p"
  using from_to_pb [OF assms(1)] to_from_pb [OF assms(2)] by simp

theorem protobuf_roundtrip_witness:
  "from_pb (to_pb sample_message) = sample_message \<and> to_pb (from_pb (to_pb sample_message)) = to_pb sample_message"
proof -
  have utf: "text_fields_ok sample_message"
    by (simp add: text_fields_ok_def sample_message_def blank_event_def ascii_def valid_utf8_ascii)
  have "pb_ok (to_pb sample_message)"
    by (intro to_pb_ok) (simp add: event_ok_def sample_message_def blank_event_def ascii_def valid_utf8_ascii)
  from protobuf_roundtrip [OF utf this] show ?thesis
    by (simp add: sample_message_def blank_event_def class_of_mti_def ascii_def)
qed

section \<open>Typing and panics\<close>

text \<open>
  C34. Whatever bytes arrive, a parser that accepts them returns an event whose strings are valid
  UTF-8 and whose MTI is the first four bytes of the message.
\<close>

theorem parsed_events_typed:
  assumes "parse \<in> {standard_parse, interac_parse, uk_parse, universal_decode}"
    and "parse raw = Ok e"
  shows "event_ok e \<and> mti e = take 4 raw \<and> length (mti e) = 4"
proof -
  consider "standard_parse raw = Ok e" | "interac_parse raw = Ok e" | "uk_parse raw = Ok e"
    | "universal_decode raw = Ok e"
    using assms by auto
  then show ?thesis
    by cases (rule standard_parse_typed interac_parse_typed uk_parse_typed universal_decode_typed, assumption)+
qed

theorem parsed_events_typed_witness:
  "event_ok (standard_init (ascii ''0100'')) \<and> mti (standard_init (ascii ''0100'')) = take 4 empty_message"
  using parsed_events_typed [of standard_parse, OF _ empty_parses(1)] by simp

text \<open>
  C35. No input makes the Interac or the UK parser panic; the standard and the outbound parsers can
  panic only on messages that have field 48.
\<close>

theorem parsers_panic_only_on_field48:
  "interac_parse raw \<noteq> Panic \<and> uk_parse raw \<noteq> Panic \<and>
   (standard_parse raw = Panic \<or> universal_decode raw = Panic \<longrightarrow> is_bit_set (take 8 (drop 4 raw)) 48 = Ok True)"
  using interac_parse_no_panic uk_parse_no_panic standard_parse_no_panic universal_decode_no_panic
  by (simp add: is_bit_set_has_bit) blast

lemma field48_decodes:
  assumes "length f48 \<le> 999"
  shows "standard_parse (field48_message f48) = apply_field48 (from_utf8_lossy f48) (standard_init (ascii ''0100''))"
    and "universal_decode (field48_message f48) = apply_field48 (from_utf8_lossy f48) (universal_init (ascii ''0100''))"
proof -
  let ?m = "ascii ''0100''" and ?bm = "fst (put_fields [(True, 48, write_lllvar f48)])"
  have bits: "has_bit ?bm n \<longleftrightarrow> n = 48" for n
    using put_fields_bitmap [of "[(True, 48, write_lllvar f48)]" n] by (simp add: present_fields_def)
  have len: "length ?m = 4" "length ?bm = 8" by (simp_all add: ascii_def)
  have only: "filter (\<lambda>n. n = 48) [1..<65] = [48 :: nat]" by (simp add: upt_rec)
  have read: "read_lllvar ((?m @ ?bm) @ write_lllvar f48 @ []) (length (?m @ ?bm))
      = Ok (f48, length (?m @ ?bm) + length (write_lllvar f48))"
    using assms by (rule read_lllvar_segment)
  have single: "decode_present is_set step [1..<65] (t, length (?m @ ?bm))
      = bindo (apply_field48 (from_utf8_lossy f48) t) (\<lambda>tx. Ok (tx, length (?m @ ?bm) + length (write_lllvar f48)))"
    if "\<And>n. is_set n \<longleftrightarrow> n = 48"
      and "\<And>st. step 48 st = universal_field ((?m @ ?bm) @ write_lllvar f48) 48 st" for is_set step t
  proof -
    have "is_set = (\<lambda>n. n = 48)" using that(1) by auto
    then have "filter is_set [1..<65] = [48]" using only by simp
    moreover have "decode_present (\<lambda>_. True) step [] = Ok" by (rule ext) simp
    ultimately show ?thesis
      using read that(2) by (subst decode_present_filter) (simp add: universal_field_simps with_field_Ok)
  qed
  have drop_offset: "bindo (bindo r (\<lambda>tx. Ok (tx, k))) (\<lambda>(tx, _). Ok tx) = r"
    for r :: "event parsed" and k :: nat
    by (cases r) simp_all
  have ext: "\<not> has_bit ?bm 1" by (simp add: bits)
  have "standard_field iso1987_field_type ?bm raw 48 st = universal_field raw 48 st" for raw st
    using standard_field_universal [of 48] by (cases st) simp
  then show "standard_parse (field48_message f48) = apply_field48 (from_utf8_lossy f48) (standard_init ?m)"
    unfolding field48_message_def standard_parse_header [OF len ext]
    by (subst single) (auto simp: drop_offset standard_has_field_def bits)
  show "universal_decode (field48_message f48) = apply_field48 (from_utf8_lossy f48) (universal_init ?m)"
    unfolding field48_message_def universal_decode_header [OF len]
    by (subst single) (auto simp: drop_offset bits)
qed

text \<open>
  The risk-score prefix makes both parsers panic: field 48 text that starts with \<open>RSK:\<close>, has
  at least eight bytes and a character that spans byte 7 or 8 unwinds the task that parses it.
\<close>

theorem field48_risk_prefix_panics:
  assumes "valid_utf8 f48" and "length f48 \<le> 999" and "8 \<le> length f48"
    and "starts_with f48 (ascii ''RSK:'')"
    and "\<not> (is_char_boundary f48 7 \<and> is_char_boundary f48 8)"
  shows "standard_parse (field48_message f48) = Panic \<and> universal_decode (field48_message f48) = Panic"
proof -
  have "apply_field48 f48 tx = Panic" for tx
    using assms(3-5) by (auto simp: apply_field48_def str_slice_def Let_def)
  then show ?thesis using assms(1) by (simp add: field48_decodes [OF assms(2)])
qed

theorem field48_risk_prefix_panics_witness:
  "standard_parse (field48_message (ascii ''RSK:00'' @ [0xC3, 0xA9])) = Panic"
proof -
  let ?f = "ascii ''RSK:00'' @ [0xC3, 0xA9 :: u8]"
  have "valid_utf8 [0xC3, 0xA9 :: u8]"
    by (simp add: utf8_chunk_def utf8_width_def second_ok_def is_cont_def safe_get_def Let_def)
  moreover have "valid_utf8 (ascii ''RSK:00'')" by (rule valid_utf8_ascii) (simp add: ascii_def)
  ultimately have "valid_utf8 ?f" by (metis valid_utf8_append)
  then show ?thesis
    using field48_risk_prefix_panics [of ?f]
    by (simp add: ascii_def starts_with_def is_char_boundary_def is_cont_def)
qed

theorem parsers_panic_only_on_field48_witness:
  "is_bit_set (take 8 (drop 4 (field48_message (ascii ''RSK:00'' @ [0xC3, 0xA9])))) 48 = Ok True"
proof -
  let ?f = "ascii ''RSK:00'' @ [0xC3, 0xA9 :: u8]"
  have "from_utf8_lossy ?f = ?f"
    by (simp add: ascii_def utf8_chunk_def utf8_width_def second_ok_def is_cont_def safe_get_def Let_def)
  moreover have "length ?f \<le> 999" by (simp add: ascii_def)
  ultimately have "standard_parse (field48_message ?f) = Panic"
    by (simp only: field48_decodes) (simp add: apply_field48_def ascii_def starts_with_def str_slice_def
        is_char_boundary_def is_cont_def)
  then show ?thesis using parsers_panic_only_on_field48 by blast
qed

section \<open>Amounts\<close>

lemma length_digits_ge: "10 ^ k \<le> n \<Longrightarrow> Suc k \<le> length (digits n)"
proof (induction k arbitrary: n)
  case 0
  show ?case using digits_nonempty [of n] by (cases "digits n") simp_all
next
  case (Suc k)
  then have "10 \<le> n" and "10 ^ k \<le> n div 10"
    by (auto simp: less_eq_div_iff_mult_less_eq intro: order_trans [of _ "10 * 10 ^ k"])
  then show ?case using Suc.IH [of "n div 10"] by (subst digits.simps) simp
qed

text \<open>
  An amount of thirteen digits is cut, not refused: the twelve-digit field keeps its leading
  twelve digits, so the receiver reads a tenth of the amount. Up to twelve digits the amount
  arrives unchanged.
\<close>

theorem amount_field_truncates:
  "(unat a < 10 ^ 12 \<longrightarrow> parse_amount (write_fixed (format_padded 12 (unat a)) 12 0x30 False) = a) \<and>
   (10 ^ 12 \<le> unat a \<and> unat a < 10 ^ 13 \<longrightarrow>
      parse_amount (write_fixed (format_padded 12 (unat a)) 12 0x30 False) = of_nat (unat a div 10))"
proof (intro conjI impI)
  show "unat a < 10 ^ 12 \<Longrightarrow> parse_amount (write_fixed (format_padded 12 (unat a)) 12 0x30 False) = a"
    by simp
  let ?n = "unat a div 10"
  assume range: "10 ^ 12 \<le> unat a \<and> unat a < 10 ^ 13"
  then have small: "?n < 10 ^ 12" and "10 ^ 11 \<le> ?n"
    by (simp_all add: div_less_iff_less_mult less_eq_div_iff_mult_less_eq)
  then have len: "length (digits ?n) = 12"
    using length_digits_le [of ?n 12] length_digits_ge [of 11 ?n] by simp
  have "digits (unat a) = digits ?n @ [of_nat (48 + unat a mod 10)]"
    using range by (subst digits.simps) simp
  then have "write_fixed (format_padded 12 (unat a)) 12 0x30 False = format_padded 12 ?n"
    using len by (simp add: write_fixed_def format_padded_def)
  then show "parse_amount (write_fixed (format_padded 12 (unat a)) 12 0x30 False) = of_nat ?n"
    using small by (simp add: parse_amount_def)
qed

theorem amount_field_truncates_witness:
  "parse_amount (write_fixed (format_padded 12 1000000000000) 12 0x30 False) = 100000000000"
  using amount_field_truncates [of 1000000000000] by simp

section \<open>Framing\<close>

text \<open>
  C20. The ISO 8583 stream delivers every message once, in order and unchanged, however TCP cuts the
  bytes: for messages of at most 65535 bytes, sending succeeds and any chunking of the sent
  bytes is received as exactly those messages, with nothing left in the buffer.
\<close>

theorem iso8583_stream_delivered:
  assumes "\<forall>m \<in> set ms. length m \<le> 65535"
  shows "\<exists>stream. send_all iso8583_encode ms [] = Ok stream \<and>
    (\<forall>cs. concat cs = stream \<longrightarrow> receive_chunks iso8583_decode [] cs = Ok (ms, []))"
  using iso8583.send_all_succeeds [OF assms] iso8583.stream_delivered [OF assms] by blast

theorem iso8583_stream_delivered_witness:
  "receive_chunks iso8583_decode [] [[0], [2, 0x41], [0x42, 0, 1], [0x43]] = Ok ([[0x41, 0x42], [0x43]], [])"
proof -
  have "to_be_bytes 2 n = [of_nat (n div 256 mod 256), of_nat (n mod 256)]" for n
    by (simp add: numeral_2_eq_2)
  then have "send_all iso8583_encode [[0x41, 0x42], [0x43]] [] = Ok [0, 2, 0x41, 0x42, 0, 1, 0x43]"
    by (simp add: iso8583_encode_def)
  moreover have "concat [[0], [2, 0x41], [0x42, 0, 1], [0x43]] = [0, 2, 0x41, 0x42, 0, 1, 0x43 :: u8]"
    by simp
  ultimately show ?thesis
    using iso8583_stream_delivered [of "[[0x41, 0x42], [0x43]]"]
    by (auto simp del: receive_chunks.simps send_all.simps concat.simps)
qed

text \<open>C16. The same for the HSM stream and its messages of header, command and payload.\<close>

theorem thales_stream_delivered:
  assumes "\<forall>m \<in> set ms. thales_sendable m"
  shows "\<exists>stream. send_all thales_encode ms [] = Ok stream \<and>
    (\<forall>cs. concat cs = stream \<longrightarrow> receive_chunks thales_decode [] cs = Ok (ms, []))"
  using thales.send_all_succeeds [OF assms] thales.stream_delivered [OF assms] by blast

theorem thales_stream_delivered_witness:
  "\<exists>stream. send_all thales_encode [\<lparr>header = ascii ''0001'', command = ascii ''DA'', payload = ascii ''X''\<rparr>] []
      = Ok stream \<and> receive_chunks thales_decode [] [stream]
      = Ok ([\<lparr>header = ascii ''0001'', command = ascii ''DA'', payload = ascii ''X''\<rparr>], [])"
proof -
  let ?m = "\<lparr>header = ascii ''0001'', command = ascii ''DA'', payload = ascii ''X''\<rparr>"
  have "thales_sendable ?m" by (simp add: thales_sendable_def ascii_def valid_utf8_ascii)
  then obtain stream where "send_all thales_encode [?m] [] = Ok stream"
    and "\<forall>cs. concat cs = stream \<longrightarrow> receive_chunks thales_decode [] cs = Ok ([?m], [])"
    using thales_stream_delivered [of "[?m]"] by auto
  then show ?thesis by (intro exI [of _ stream]) (auto dest: spec [of _ "[stream]"])
qed

text \<open>
  A longer message is not refused but mis-framed: its length is written modulo 65536, and the
  receiver takes the first so many bytes as the message and the rest as the next frame.
\<close>

theorem overlong_frame_split:
  assumes "65535 < length m"
  shows "\<exists>frame. iso8583_encode m [] = Ok frame \<and>
    iso8583_decode frame = Ok (Some (take (length m mod 65536) m), drop (length m mod 65536) m)
    \<and> take (length m mod 65536) m \<noteq> m"
proof -
  let ?k = "length m mod 65536"
  have "?k < 65536" by simp
  then have k: "?k < length m" using assms by simp
  have "unat (of_nat (length m) :: u16) = ?k" by (simp add: unat_of_nat)
  then have "iso8583_encode m [] = Ok (to_be_bytes 2 ?k @ m)" by (simp add: iso8583_encode_def)
  moreover have "iso8583_decode (to_be_bytes 2 ?k @ m) = Ok (Some (take ?k m), drop ?k m)"
    using k by (simp add: iso8583_decode_def from_be_to_be_bytes Let_def)
  moreover have "take ?k m \<noteq> m" using k by (metis length_take min.absorb4 less_irrefl)
  ultimately show ?thesis by blast
qed

theorem overlong_frame_split_witness:
  "\<exists>frame. iso8583_encode (replicate 65536 0) [] = Ok frame \<and>
    (\<exists>rest. iso8583_decode frame = Ok (Some [], rest))"
proof -
  have "65535 < length (replicate 65536 (0 :: u8))" by (simp only: length_replicate)
  from overlong_frame_split [OF this] show ?thesis
    by (simp only: length_replicate) auto
qed

text \<open>
  The header parser accepts exactly the messages that start with 0100 or 0110 and eight bitmap
  bytes, and returns those and the rest.
\<close>

theorem header_parser_exact:
  "parse_iso8583 input = Ok (rest, m) \<longleftrightarrow>
     input = msg_mti m @ primary_bitmap m @ rest \<and> length (primary_bitmap m) = 8
     \<and> msg_mti m \<in> {ascii ''0100'', ascii ''0110''}"
  by (rule parse_iso8583_Ok)

end
