(* ===== verification/Routing.thy ===== *)
theory Routing
  imports Rust_Std "HOL-Library.Sublist"
begin

text \<open>
  The BIN router: the byte trie of \<open>switch-core/src/routing.rs\<close> and the compilation of
  published rules into it (\<open>hot_reload_routes\<close> of \<open>payment-daemon/src/main.rs\<close>).

  The locale \<open>route_table\<close> is the contract the engine relies on: a table abstracts to a map
  from BIN prefixes to routes, and \<open>find\<close> returns the route of the longest prefix of the PAN
  in that map. The trie implements it.
\<close>

section \<open>Definitions\<close>

datatype route_destination = InternalCrdb | ExternalNode rstring

record route =
  destination :: route_destination
  failover_node :: "rstring option"

text \<open>\<open>children: HashMap<u8, Box<BinTrieNode>>\<close> is a map.\<close>

datatype bin_trie_node =
  BinTrieNode (node_route: "route option") (children: "u8 \<Rightarrow> bin_trie_node option")

definition bin_trie_new :: bin_trie_node where
  "bin_trie_new = BinTrieNode None Map.empty"

fun trie_insert :: "bytes \<Rightarrow> route \<Rightarrow> bin_trie_node \<Rightarrow> bin_trie_node" where
  "trie_insert [] r (BinTrieNode _ ch) = BinTrieNode (Some r) ch"
| "trie_insert (b # bin) r (BinTrieNode q ch) =
     BinTrieNode q (ch(b \<mapsto> trie_insert bin r
       (case ch b of None \<Rightarrow> bin_trie_new | Some child \<Rightarrow> child)))"

text \<open>The loop of \<open>find\<close>: the node reached and the best match so far.\<close>

fun find_loop :: "bin_trie_node \<Rightarrow> route option \<Rightarrow> bytes \<Rightarrow> route option" where
  "find_loop node best_match [] = best_match"
| "find_loop node best_match (b # pan) =
     (case children node b of
        Some child \<Rightarrow>
          find_loop child (if node_route child \<noteq> None then node_route child else best_match) pan
      | None \<Rightarrow> best_match)"

definition trie_find :: "bin_trie_node \<Rightarrow> bytes \<Rightarrow> route option" where
  "trie_find root pan = find_loop root (node_route root) pan"

record route_row =
  bin_prefix :: rstring
  destination_type :: rstring
  target_node :: "rstring option"
  row_failover_node :: "rstring option"

definition row_destination :: "route_row \<Rightarrow> route_destination option" where
  "row_destination row =
     (if destination_type row = ascii ''InternalCrdb'' then Some InternalCrdb
      else case target_node row of Some target \<Rightarrow> Some (ExternalNode target) | None \<Rightarrow> None)"

definition row_route :: "route_row \<Rightarrow> route option" where
  "row_route row = map_option
     (\<lambda>dest. \<lparr>destination = dest, failover_node = row_failover_node row\<rparr>) (row_destination row)"

definition compile_routes :: "route_row list \<Rightarrow> bin_trie_node" where
  "compile_routes rows = foldl (\<lambda>trie row.
     case row_route row of None \<Rightarrow> trie | Some r \<Rightarrow> trie_insert (bin_prefix row) r trie)
     bin_trie_new rows"

section \<open>Longest prefix match\<close>

text \<open>The reference: the longest prefix of the PAN that the table defines.\<close>

fun lpm :: "(bytes \<rightharpoonup> 'r) \<Rightarrow> bytes \<Rightarrow> 'r option" where
  "lpm m [] = m []"
| "lpm m (b # pan) =
     (case lpm (\<lambda>p. m (b # p)) pan of Some r \<Rightarrow> Some r | None \<Rightarrow> m [])"

text \<open>A table row published later replaces an earlier one with the same prefix.\<close>

definition rows_map :: "route_row list \<Rightarrow> bytes \<rightharpoonup> route" where
  "rows_map rows = foldl (\<lambda>m row.
     case row_route row of None \<Rightarrow> m | Some r \<Rightarrow> m(bin_prefix row \<mapsto> r)) Map.empty rows"

lemma lpm_None: "lpm m pan = None \<longleftrightarrow> (\<forall>p. prefix p pan \<longrightarrow> m p = None)"
proof (induction pan arbitrary: m)
  case (Cons b pan)
  show ?case
    by (auto simp: prefix_Cons Cons.IH split: option.splits)
       (metis Cons.IH not_Some_eq)
qed simp

lemma lpm_longest:
  assumes "lpm m pan = Some r"
  shows "\<exists>p. prefix p pan \<and> m p = Some r \<and>
    (\<forall>q. prefix q pan \<longrightarrow> m q \<noteq> None \<longrightarrow> length q \<le> length p)"
  using assms
proof (induction pan arbitrary: m)
  case (Cons b pan)
  show ?case
  proof (cases "lpm (\<lambda>p. m (b # p)) pan")
    case None
    then have "m (b # q) = None" if "prefix q pan" for q
      using that by (simp add: lpm_None)
    moreover have "m [] = Some r" using Cons.prems None by simp
    ultimately show ?thesis by (intro exI [of _ "[]"]) (auto simp: prefix_Cons)
  next
    case (Some r')
    then have "r' = r" using Cons.prems by simp
    then obtain p where "prefix p pan" and "m (b # p) = Some r"
      and "\<forall>q. prefix q pan \<longrightarrow> m (b # q) \<noteq> None \<longrightarrow> length q \<le> length p"
      using Cons.IH [of "\<lambda>p. m (b # p)"] Some by auto
    then show ?thesis by (intro exI [of _ "b # p"]) (auto simp: prefix_Cons)
  qed
qed simp

lemma lpm_Some:
  "lpm m pan = Some r \<longleftrightarrow>
     (\<exists>p. prefix p pan \<and> m p = Some r \<and> (\<forall>q. prefix q pan \<longrightarrow> m q \<noteq> None \<longrightarrow> length q \<le> length p))"
proof
  assume "\<exists>p. prefix p pan \<and> m p = Some r \<and>
    (\<forall>q. prefix q pan \<longrightarrow> m q \<noteq> None \<longrightarrow> length q \<le> length p)"
  then obtain p where p: "prefix p pan" "m p = Some r"
    and top: "\<forall>q. prefix q pan \<longrightarrow> m q \<noteq> None \<longrightarrow> length q \<le> length p" by blast
  then obtain r' where r': "lpm m pan = Some r'" using lpm_None [of m pan] by fastforce
  then obtain p' where "prefix p' pan" "m p' = Some r'" "length p \<le> length p'"
    using lpm_longest [OF r'] p by fastforce
  moreover from this have "p' = p"
    using top p(1) by (metis le_antisym option.distinct(1) prefix_length_prefix prefix_order.eq_iff)
  ultimately show "lpm m pan = Some r" using p r' by simp
qed (rule lpm_longest)

section \<open>The route table contract\<close>

locale route_table =
  fixes empty :: 't
    and insert_route :: "bytes \<Rightarrow> route \<Rightarrow> 't \<Rightarrow> 't"
    and find_route :: "'t \<Rightarrow> bytes \<Rightarrow> route option"
    and table :: "'t \<Rightarrow> bytes \<rightharpoonup> route"
  assumes table_empty: "table empty = Map.empty"
    and table_insert: "table (insert_route p r t) = (table t)(p \<mapsto> r)"
    and find_longest: "find_route t pan = lpm (table t) pan"
begin

definition compile :: "route_row list \<Rightarrow> 't" where
  "compile rows = foldl (\<lambda>t row.
     case row_route row of None \<Rightarrow> t | Some r \<Rightarrow> insert_route (bin_prefix row) r t) empty rows"

lemma table_compile: "table (compile rows) = rows_map rows"
proof (induction rows rule: rev_induct)
  case Nil
  show ?case by (simp add: compile_def rows_map_def table_empty)
next
  case (snoc row rows)
  then show ?case
    by (cases "row_route row") (simp_all add: compile_def rows_map_def table_insert)
qed

lemma find_compile: "find_route (compile rows) pan = lpm (rows_map rows) pan"
  by (simp add: find_longest table_compile)

text \<open>Inserting a route changes the answer only for PANs that start with its prefix.\<close>

lemma find_insert_other:
  assumes "\<not> prefix p pan"
  shows "find_route (insert_route p r t) pan = find_route t pan"
proof -
  have "((table t)(p \<mapsto> r)) q = table t q" if "prefix q pan" for q
    using assms that by auto
  then have "lpm ((table t)(p \<mapsto> r)) pan = Some x \<longleftrightarrow> lpm (table t) pan = Some x" for x
    unfolding lpm_Some by (metis (no_types, lifting))
  then show ?thesis
    unfolding find_longest table_insert by (metis not_Some_eq)
qed

lemma find_insert_same:
  assumes "prefix p pan" and "\<forall>q. prefix q pan \<longrightarrow> table t q \<noteq> None \<longrightarrow> length q \<le> length p"
  shows "find_route (insert_route p r t) pan = Some r"
  unfolding find_longest table_insert lpm_Some
  using assms by (intro exI [of _ p]) auto

end

section \<open>The trie is a route table\<close>

fun trie_table :: "bin_trie_node \<Rightarrow> bytes \<Rightarrow> route option" where
  "trie_table t [] = node_route t"
| "trie_table t (b # p) = (case children t b of None \<Rightarrow> None | Some child \<Rightarrow> trie_table child p)"

lemma trie_table_new: "trie_table bin_trie_new = Map.empty"
proof
  show "trie_table bin_trie_new p = None" for p
    by (cases p) (simp_all add: bin_trie_new_def)
qed

lemma trie_table_insert: "trie_table (trie_insert p r t) = (trie_table t)(p \<mapsto> r)"
proof
  show "trie_table (trie_insert p r t) q = ((trie_table t)(p \<mapsto> r)) q" for q
  proof (induction p r t arbitrary: q rule: trie_insert.induct)
    case (1 r uu ch)
    show ?case by (cases q) simp_all
  next
    case (2 b p r x ch)
    then show ?case by (cases q) (auto simp: trie_table_new split: option.splits)
  qed
qed

lemma lpm_undefined [simp]: "lpm (\<lambda>p. None) pan = None"
  by (simp add: lpm_None)

lemma lpm_default:
  "lpm (m([] := if m [] \<noteq> None then m [] else best)) pan =
     (case lpm m pan of Some r \<Rightarrow> Some r | None \<Rightarrow> best)"
  by (cases pan) (auto split: option.splits)

lemma find_loop_lpm: "find_loop t best pan = lpm ((trie_table t)([] := best)) pan"
proof (induction pan arbitrary: t best)
  case (Cons b pan)
  show ?case
  proof (cases "children t b")
    case None
    then show ?thesis by simp
  next
    case (Some child)
    then show ?thesis
      using lpm_default [of "trie_table child" best pan]
      by (simp add: Cons.IH fun_upd_def cong: if_cong split: if_splits)
  qed
qed simp

lemma trie_find_lpm: "trie_find t pan = lpm (trie_table t) pan"
proof -
  have "(trie_table t)([] := node_route t) = trie_table t" by (rule ext) simp
  then show ?thesis by (simp add: trie_find_def find_loop_lpm)
qed

interpretation trie:
  route_table bin_trie_new trie_insert trie_find trie_table
  by unfold_locales (simp_all add: trie_table_new trie_table_insert trie_find_lpm)

lemma compile_routes_trie: "compile_routes rows = trie.compile rows"
  by (simp add: compile_routes_def trie.compile_def)

lemma trie_find_compiled: "trie_find (compile_routes rows) pan = lpm (rows_map rows) pan"
  unfolding compile_routes_trie by (rule trie.find_compile)

lemma rows_map_Some:
  "rows_map rows p = Some r \<Longrightarrow> \<exists>row \<in> set rows. bin_prefix row = p \<and> row_route row = Some r"
proof (induction rows rule: rev_induct)
  case (snoc row rows)
  then show ?case
    by (cases "row_route row") (auto simp: rows_map_def split: if_splits)
qed (simp add: rows_map_def)

section \<open>Properties\<close>

text \<open>
  C9. Routing is longest-prefix match over the published rules: a PAN is routed by \<open>r\<close> iff
  some rule's prefix starts the PAN, \<open>r\<close> is that prefix's last published route, and no
  longer prefix of the PAN has a route.
\<close>

theorem published_route_longest_prefix:
  "trie_find (compile_routes rows) pan = Some r \<longleftrightarrow>
     (\<exists>p. prefix p pan \<and> rows_map rows p = Some r \<and>
        (\<forall>q. prefix q pan \<and> length p < length q \<longrightarrow> rows_map rows q = None))"
  unfolding trie_find_compiled lpm_Some by (metis leD leI option.distinct(1))

theorem published_route_longest_prefix_witness:
  "trie_find (compile_routes
      [\<lparr>bin_prefix = [0x34], destination_type = ascii ''ExternalNode'', target_node = Some [0x56],
         row_failover_node = None\<rparr>,
       \<lparr>bin_prefix = [0x34, 0x31], destination_type = ascii ''InternalCrdb'', target_node = None,
         row_failover_node = None\<rparr>]) [0x34, 0x31, 0x31]
    = Some \<lparr>destination = InternalCrdb, failover_node = None\<rparr>"
  unfolding published_route_longest_prefix
  by (intro exI [of _ "[0x34, 0x31]"])
     (auto simp: rows_map_def row_route_def row_destination_def ascii_def prefix_Cons)

end
