(* ===== verification/Switch_State.thy ===== *)
theory Switch_State
  imports Canonical Routing
begin

text \<open>
  The shared state of the switch core: the transaction context and the guard entry
  (\<open>switch-core/src/context.rs\<close>), the hot-reloadable \<open>GlobalState\<close>
  (\<open>state.rs\<close>), the compliance cache (\<open>compliance.rs\<close>), the token vault
  (\<open>tsp_vault.rs\<close>), the reload handlers of \<open>payment-daemon/src/main.rs\<close>, the health
  probe of \<open>network_manager.rs\<close> and the card-profile loader \<open>bin/stip_loader.rs\<close>.

  A one-shot responder is a number, its identity. A crossbeam channel is its queue with a
  capacity; a \<open>Sender\<close> is the number of its channel. \<open>Instant\<close> is milliseconds since
  start. \<open>f64\<close> card balances are never read by the switch and are kept as bit patterns.
\<close>

section \<open>Definitions\<close>

datatype network_state = HSMPending | UpstreamSent | Reversed | ReversedPending | Completed

record transaction_context =
  ctx_transaction :: event
  ctx_responder :: "nat option"

record active_transaction =
  created_at :: nat
  at_state :: network_state
  at_responder :: "nat option"
  transaction_data :: transaction
  egress_stan :: "rstring option"

record card_profile =
  profile_balance :: i64
  profile_is_blocked :: bool

record stip_rule =
  action :: rstring
  max_risk_score :: u8

definition default_max_risk_score :: u8 where
  "default_max_risk_score = 100"

record card_record =
  card_balance_bits :: u64
  card_is_blocked :: bool
  pvv :: rstring

record global_state =
  stip :: "rstring \<rightharpoonup> stip_rule"
  crdb :: "rstring \<rightharpoonup> card_record"
  router :: bin_trie_node
  node_health :: "rstring \<rightharpoonup> bool"
  egress_channels :: "rstring \<rightharpoonup> nat"
  token_map :: "rstring \<rightharpoonup> rstring"
  stan_nat :: "rstring \<rightharpoonup> rstring"
  stan_counter :: u64

definition tsp_vault_new :: "rstring \<rightharpoonup> rstring" where
  "tsp_vault_new = [ascii ''4000000000009999'' \<mapsto> ascii ''4111222233334444'']"

definition detokenize :: "(rstring \<rightharpoonup> rstring) \<Rightarrow> rstring \<Rightarrow> rstring option" where
  "detokenize vault dp = vault dp"

definition global_state_new :: global_state where
  "global_state_new =
     \<lparr> stip = Map.empty, crdb = Map.empty, router = bin_trie_new, node_health = Map.empty,
       egress_channels = Map.empty, token_map = tsp_vault_new, stan_nat = Map.empty,
       stan_counter = 0 \<rparr>"

text \<open>
  \<open>ComplianceGuard::evaluate\<close>: a cached block on the first six bytes of the PAN. The slice
  \<open>&pan_str[0..6]\<close> panics when byte 6 is inside a character.
\<close>

definition compliance_evaluate :: "(rstring \<rightharpoonup> rstring) \<Rightarrow> transaction_context \<Rightarrow> (unit, bool) outcome" where
  "compliance_evaluate cache ctx =
     (let pan_str = from_utf8_lossy (fpan (ctx_transaction ctx)) in
      if length pan_str \<ge> 6 then
        (case str_slice pan_str 0 6 of
           None \<Rightarrow> Panic
         | Some bin \<Rightarrow> Ok (cache (ascii ''bin:'' @ bin) \<noteq> None))
      else Ok False)"

text \<open>
  One synchronisation of the poller: the cache keeps the keys of the new list and inserts every
  row. Case folding is that of ASCII letters, on which Rust's Unicode folding agrees with it.
\<close>

definition to_lowercase :: "rstring \<Rightarrow> rstring" where
  "to_lowercase s = map (\<lambda>b. if 0x41 \<le> b \<and> b \<le> 0x5A then b + 0x20 else b) s"

definition to_uppercase :: "rstring \<Rightarrow> rstring" where
  "to_uppercase s = map (\<lambda>b. if 0x61 \<le> b \<and> b \<le> 0x7A then b - 0x20 else b) s"

definition sanction_key :: "rstring \<times> rstring \<Rightarrow> rstring" where
  "sanction_key row = to_lowercase (fst row) @ ascii '':'' @ to_uppercase (snd row)"

definition sync_compliance ::
  "(rstring \<times> rstring) list \<Rightarrow> (rstring \<rightharpoonup> rstring) \<Rightarrow> (rstring \<rightharpoonup> rstring)" where
  "sync_compliance rows cache =
     (let temp_cache = foldl (\<lambda>m row. m(sanction_key row \<mapsto> ascii ''block'')) Map.empty rows;
          kept = (\<lambda>k. if temp_cache k \<noteq> None then cache k else None)
      in (\<lambda>k. case temp_cache k of Some v \<Rightarrow> Some v | None \<Rightarrow> kept k))"

text \<open>The reload handlers replace one table and leave the rest of the state alone.\<close>

definition hot_reload_crdb :: "(rstring \<rightharpoonup> card_record) \<Rightarrow> global_state \<Rightarrow> global_state" where
  "hot_reload_crdb cards g = g\<lparr>crdb := cards\<rparr>"

definition hot_reload_stip :: "(rstring \<rightharpoonup> stip_rule) \<Rightarrow> global_state \<Rightarrow> global_state" where
  "hot_reload_stip rules g = g\<lparr>stip := rules\<rparr>"

definition hot_reload_routes :: "route_row list \<Rightarrow> global_state \<Rightarrow> global_state" where
  "hot_reload_routes rows g = g\<lparr>router := compile_routes rows\<rparr>"

text \<open>
  Choice of the egress channel of a route: an absent health entry counts as online, a node
  that is down is replaced by its failover node.
\<close>

definition is_online :: "global_state \<Rightarrow> rstring \<Rightarrow> bool" where
  "is_online g node = (case node_health g node of Some h \<Rightarrow> h | None \<Rightarrow> True)"

definition select_node :: "global_state \<Rightarrow> rstring \<Rightarrow> rstring option \<Rightarrow> nat option" where
  "select_node g node_id failover =
     (let (target_node, online) =
        (if \<not> is_online g node_id then
           (case failover of
              Some f \<Rightarrow> (f, is_online g f)
            | None \<Rightarrow> (node_id, False))
         else (node_id, True))
      in if online then egress_channels g target_node else None)"

definition select_egress :: "global_state \<Rightarrow> event \<Rightarrow> nat option" where
  "select_egress g tx =
     (if message_class tx \<in> {Authorization, Financial, ReversalAdvice, NetworkManagement} then
        (case trie_find (router g) (fpan tx) of
           None \<Rightarrow> None
         | Some r \<Rightarrow>
             (case destination r of
                InternalCrdb \<Rightarrow> egress_channels g (ascii ''CRDB_DOMAIN_2'')
              | ExternalNode node_id \<Rightarrow> select_node g node_id (failover_node r)))
      else None)"

section \<open>Channels\<close>

record channel =
  queue :: "transaction_context list"
  capacity :: nat
  connected :: bool

text \<open>\<open>try_send\<close>: fails on a full or disconnected channel, leaving it unchanged.\<close>

definition try_send :: "transaction_context \<Rightarrow> channel \<Rightarrow> channel option" where
  "try_send ctx c =
     (if connected c \<and> length (queue c) < capacity c then Some (c\<lparr>queue := queue c @ [ctx]\<rparr>)
      else None)"

text \<open>
  \<open>send\<close> blocks while the channel is full; the definition is the state when it returns. It
  fails only on a disconnected channel.
\<close>

definition send_blocking :: "transaction_context \<Rightarrow> channel \<Rightarrow> channel" where
  "send_blocking ctx c = (if connected c then c\<lparr>queue := queue c @ [ctx]\<rparr> else c)"

text \<open>The 0800 probe of the network manager, at second \<open>probe_id\<close>, over all channels.\<close>

definition probe_event :: "nat \<Rightarrow> event" where
  "probe_event probe_id =
     \<lparr> message_class = NetworkManagement, transaction_type = Purchase, mti = ascii ''0800'',
       fpan = ascii ''0000000000000000'', dpan = None, is_tokenized = False,
       tavv_cryptogram = None, processing_code = ascii ''000000'', amount = 0,
       stan = format_padded 6 (probe_id mod 1000000), local_time = ascii ''120000'',
       local_date = ascii ''1231'', rrn = ascii ''PING'' @ format_padded 8 probe_id,
       response_code = ascii ''00'', acquirer_id = ascii ''NETWORK_MGR'', pin_block = [],
       risk_score = 0, requires_instant_clearing = False, domestic_settlement_data = None,
       source_account = None, destination_account = None, original_data_elements = None,
       mac_data = None, is_reversal = False \<rparr>"

fun probe_nodes ::
  "nat \<Rightarrow> (rstring \<times> nat) list \<Rightarrow> global_state \<times> (nat \<Rightarrow> channel) \<Rightarrow> global_state \<times> (nat \<Rightarrow> channel)"
where
  "probe_nodes probe_id [] st = st"
| "probe_nodes probe_id ((node_id, ch) # snapshots) (g, chans) =
     probe_nodes probe_id snapshots
       (case try_send \<lparr>ctx_transaction = probe_event probe_id, ctx_responder = None\<rparr> (chans ch) of
          Some c \<Rightarrow> (g\<lparr>node_health := (node_health g)(node_id \<mapsto> True)\<rparr>, chans(ch := c))
        | None \<Rightarrow> (g\<lparr>node_health := (node_health g)(node_id \<mapsto> False)\<rparr>, chans))"

text \<open>
  \<open>stip_loader\<close>: rows of \<open>pan,balance,status\<close> become serialized card profiles; the
  serializer (bincode) is a parameter.
\<close>

definition trim_ascii :: "rstring \<Rightarrow> rstring" where
  "trim_ascii s = (let ws = (\<lambda>b. b \<in> {0x20, 0x09, 0x0A, 0x0B, 0x0C, 0x0D})
     in rev (dropWhile ws (rev (dropWhile ws s))))"

definition load_profile :: "i64 \<Rightarrow> rstring \<Rightarrow> card_profile" where
  "load_profile bal status =
     \<lparr> profile_balance = bal,
       profile_is_blocked = (to_lowercase (trim_ascii status) = ascii ''blocked''
         \<or> trim_ascii status = ascii ''0'') \<rparr>"

definition stip_load ::
  "(card_profile \<Rightarrow> bytes) \<Rightarrow> (rstring \<times> i64 \<times> rstring) list \<Rightarrow> (bytes \<rightharpoonup> bytes) \<Rightarrow> (bytes \<rightharpoonup> bytes)" where
  "stip_load serialize records db =
     foldl (\<lambda>db (pan, bal, status). db(pan \<mapsto> serialize (load_profile bal status))) db records"

section \<open>Compliance\<close>

lemma sync_compliance_keys:
  "sync_compliance rows cache k = (if k \<in> sanction_key ` set rows then Some (ascii ''block'') else None)"
proof -
  have "foldl (\<lambda>m row. m(sanction_key row \<mapsto> ascii ''block'')) m0 rows k
      = (if k \<in> sanction_key ` set rows then Some (ascii ''block'') else m0 k)" for m0
    by (induction rows arbitrary: m0) auto
  then show ?thesis by (simp add: sync_compliance_def Let_def)
qed

lemma compliance_ascii:
  assumes "list_all (\<lambda>b. b < 0x80) (fpan (ctx_transaction ctx))"
  shows "compliance_evaluate cache ctx = Ok (length (fpan (ctx_transaction ctx)) \<ge> 6
    \<and> cache (ascii ''bin:'' @ take 6 (fpan (ctx_transaction ctx))) \<noteq> None)"
proof -
  have "from_utf8_lossy (fpan (ctx_transaction ctx)) = fpan (ctx_transaction ctx)"
    using assms by (intro lossy_valid valid_utf8_ascii)
  then show ?thesis
    using assms by (simp add: compliance_evaluate_def str_slice_ascii Let_def)
qed

section \<open>Routing\<close>

lemma select_node_online:
  "select_node g n f = Some ch \<Longrightarrow>
    \<exists>n'. (n' = n \<or> f = Some n') \<and> is_online g n' \<and> egress_channels g n' = Some ch"
  by (auto simp: select_node_def split: if_splits option.splits)

section \<open>Health probes\<close>

lemma probe_health_other:
  "n \<notin> fst ` set snaps \<Longrightarrow>
    node_health (fst (probe_nodes i snaps (g, chans))) n = node_health g n"
  by (induction i snaps "(g, chans)" arbitrary: g chans rule: probe_nodes.induct)
     (auto split: option.splits)

text \<open>After a round every probed node has a health entry: whether its channel took the probe.\<close>

lemma probe_health:
  assumes "distinct (map fst snaps)" and "(n, ch) \<in> set snaps" and "inj_on snd (set snaps)"
  shows "node_health (fst (probe_nodes i snaps (g, chans))) n
    = Some (connected (chans ch) \<and> length (queue (chans ch)) < capacity (chans ch))"
  using assms
proof (induction i snaps "(g, chans)" arbitrary: g chans rule: probe_nodes.induct)
  case (2 i n1 ch1 snaps g chans)
  let ?ctx = "\<lparr>ctx_transaction = probe_event i, ctx_responder = None\<rparr>"
  let ?st = "case try_send ?ctx (chans ch1) of
      Some c \<Rightarrow> (g\<lparr>node_health := (node_health g)(n1 \<mapsto> True)\<rparr>, chans(ch1 := c))
    | None \<Rightarrow> (g\<lparr>node_health := (node_health g)(n1 \<mapsto> False)\<rparr>, chans)"
  show ?case
  proof (cases "n = n1")
    case True
    then have "ch = ch1" and "n \<notin> fst ` set snaps" using "2.prems" by (auto simp: image_iff)
    then show ?thesis
      using True by (cases "try_send ?ctx (chans ch1)") (auto simp: probe_health_other try_send_def split: if_splits)
  next
    case False
    then have mem: "(n, ch) \<in> set snaps" using "2.prems" by auto
    moreover have "ch \<noteq> ch1"
      using "2.prems"(2,3) False mem unfolding inj_on_def by fastforce
    moreover have "snd ?st ch = chans ch"
      using \<open>ch \<noteq> ch1\<close> by (simp split: option.splits)
    moreover have "inj_on snd (set snaps)" using "2.prems"(3) by (simp add: inj_on_def)
    ultimately show ?thesis
      using "2.hyps" [of "fst ?st" "snd ?st"] "2.prems"(1) by simp
  qed
qed simp

section \<open>Properties\<close>

text \<open>
  After a synchronisation the sanctions list is what is enforced: a transaction with an ASCII
  PAN is blocked iff the PAN has at least six digits and its BIN is one of the rows just read.
\<close>

theorem sanctions_enforced:
  assumes "list_all (\<lambda>b. b < 0x80) (fpan (ctx_transaction ctx))"
  shows "compliance_evaluate (sync_compliance rows cache) ctx =
    Ok (6 \<le> length (fpan (ctx_transaction ctx)) \<and>
        (\<exists>row \<in> set rows. sanction_key row = ascii ''bin:'' @ take 6 (fpan (ctx_transaction ctx))))"
  unfolding compliance_ascii [OF assms] by (auto simp: sync_compliance_keys image_iff split: if_splits)

theorem sanctions_enforced_witness:
  "compliance_evaluate (sync_compliance [(ascii ''BIN'', ascii ''411111'')] Map.empty)
     \<lparr>ctx_transaction = (blank_event Authorization [] False False)\<lparr>fpan := ascii ''4111111''\<rparr>,
      ctx_responder = None\<rparr> = Ok True"
proof -
  let ?ctx = "\<lparr>ctx_transaction = (blank_event Authorization [] False False)\<lparr>fpan := ascii ''4111111''\<rparr>,
    ctx_responder = None\<rparr>"
  have "sanction_key (ascii ''BIN'', ascii ''411111'') = ascii ''bin:411111''"
    by (simp add: sanction_key_def to_lowercase_def to_uppercase_def ascii_def)
  then show ?thesis
    using sanctions_enforced [of ?ctx "[(ascii ''BIN'', ascii ''411111'')]" Map.empty]
    by (simp add: ascii_def)
qed

text \<open>
  Routing fails over and fails open: a transaction for an external node goes to that node
  unless its last probe failed, then to the failover node unless that one's probe failed, and
  otherwise nowhere; a node without a probe counts as reachable.
\<close>

theorem external_route_fails_over:
  assumes "message_class tx \<in> {Authorization, Financial, ReversalAdvice, NetworkManagement}"
    and "trie_find (router g) (fpan tx) = Some r" and "destination r = ExternalNode n"
  shows "select_egress g tx =
    (if node_health g n \<noteq> Some False then egress_channels g n
     else case failover_node r of
       Some f \<Rightarrow> if node_health g f \<noteq> Some False then egress_channels g f else None
     | None \<Rightarrow> None)"
proof -
  have "is_online g k \<longleftrightarrow> node_health g k \<noteq> Some False" for k
    by (auto simp: is_online_def split: option.splits)
  then show ?thesis
    using assms by (auto simp: select_egress_def select_node_def split: option.splits)
qed

theorem external_route_fails_over_witness:
  "select_egress (global_state_new\<lparr>
      router := trie_insert [0x34] \<lparr>destination = ExternalNode (ascii ''A''), failover_node = Some (ascii ''B'')\<rparr> bin_trie_new,
      node_health := [ascii ''A'' \<mapsto> False], egress_channels := [ascii ''A'' \<mapsto> 0, ascii ''B'' \<mapsto> 1]\<rparr>)
    ((blank_event Authorization [] False False)\<lparr>fpan := [0x34, 0x31]\<rparr>) = Some 1"
proof -
  let ?r = "\<lparr>destination = ExternalNode (ascii ''A''), failover_node = Some (ascii ''B'')\<rparr>"
  let ?g = "global_state_new\<lparr>router := trie_insert [0x34] ?r bin_trie_new,
    node_health := [ascii ''A'' \<mapsto> False], egress_channels := [ascii ''A'' \<mapsto> 0, ascii ''B'' \<mapsto> 1]\<rparr>"
  let ?tx = "(blank_event Authorization [] False False)\<lparr>fpan := [0x34, 0x31]\<rparr>"
  have "trie_find (router ?g) (fpan ?tx) = Some ?r"
    by (simp add: trie_find_def bin_trie_new_def)
  then show ?thesis
    using external_route_fails_over [of ?tx ?g ?r "ascii ''A''"]
    by (simp add: blank_event_def ascii_def)
qed

text \<open>
  A probe round records, for each node it visits, exactly whether the node's channel could take
  the probe, and changes no other node's entry.
\<close>

theorem probe_round_records_health:
  assumes "distinct (map fst snaps)" and "inj_on snd (set snaps)"
  shows "(\<forall>(n, ch) \<in> set snaps. node_health (fst (probe_nodes i snaps (g, chans))) n
      = Some (connected (chans ch) \<and> length (queue (chans ch)) < capacity (chans ch))) \<and>
    (\<forall>n. n \<notin> fst ` set snaps \<longrightarrow>
      node_health (fst (probe_nodes i snaps (g, chans))) n = node_health g n)"
  using probe_health [OF assms(1) _ assms(2)] probe_health_other by fast

theorem probe_round_records_health_witness:
  "node_health (fst (probe_nodes 60 [(ascii ''A'', 0), (ascii ''B'', 1)] (global_state_new,
      (\<lambda>c. \<lparr>queue = [], capacity = 10, connected = (c = 0)\<rparr>)))) (ascii ''B'') = Some False"
proof -
  have "inj_on snd (set [(ascii ''A'', 0), (ascii ''B'', 1 :: nat)])"
    by (simp add: inj_on_def)
  then show ?thesis
    using probe_round_records_health [of "[(ascii ''A'', 0), (ascii ''B'', 1)]" 60 global_state_new
        "\<lambda>c. \<lparr>queue = [], capacity = 10, connected = (c = 0)\<rparr>"]
    by (simp add: ascii_def)
qed

end
