(* ===== verification/Engine.thy ===== *)
theory Engine
  imports Switch_State
begin

text \<open>
  The staged pipeline of \<open>switch-core/src/engine.rs\<close>: the ingress worker, the HSM worker,
  the reaper and the bank-reply worker, over the state they share. Each worker is cut into the
  pieces between two accesses to the idempotency guard, because that is where other threads
  interleave; a piece that leaves work behind returns it as a \<open>job\<close>.
  \<open>Engine_Steps\<close> interleaves the pieces, the definitions here also compose them into the whole
  handlers (\<open>process_transaction\<close>, \<open>reaper_pass\<close>, \<open>process_bank_reply\<close>).

  The guard (\<open>DashMap\<close>) is an association list, since the reaper and reversals iterate over
  it. Answers to terminals are logged in \<open>answers\<close> under the responder's number. The
  card-profile serializer (bincode) and the HSM round trips are parameters. Telemetry and metrics
  have no effect on the state and are left out.
\<close>

section \<open>State\<close>

datatype job =
    Dispatch rstring transaction_context
  | RecordStan rstring transaction_context nat rstring
  | Transmit transaction_context nat
  | StipLookup transaction_context
  | StipApply transaction_context "bytes option"
  | Evict rstring
  | Reap rstring
  | ReapFinish rstring "rstring option" bool
  | Reply rstring transaction

record engine =
  memory_state :: global_state
  compliance_cache :: "rstring \<rightharpoonup> rstring"
  idempotency_guard :: "(rstring, active_transaction) dashmap"
  stip_db :: "bytes \<rightharpoonup> bytes"
  journal :: "transaction list"
  journal_open :: bool
  ledger_queue :: "event list"
  ingress_queue :: "transaction_context list"
  hsm_queue :: "transaction_context list"
  bank_replies :: "transaction list"
  channels :: "nat \<Rightarrow> channel"
  answers :: "(nat \<times> event) list"
  clock :: nat
  timeout_ms :: nat
  workers :: nat
  jobs :: "job list"

text \<open>The parameters: bincode for \<open>CardProfile\<close>, and the three HSM round trips.\<close>

record codec =
  serialize :: "card_profile \<Rightarrow> bytes"
  deserialize :: "bytes \<Rightarrow> card_profile option"

record hsm =
  verify_mac :: "rstring \<Rightarrow> rstring \<Rightarrow> (unit, bool) outcome"
  verify_pin :: "rstring \<Rightarrow> rstring \<Rightarrow> rstring \<Rightarrow> (unit, bool) outcome"
  translate_pin :: "rstring \<Rightarrow> rstring \<Rightarrow> (unit, rstring) outcome"

section \<open>Shared operations\<close>

definition guard_key :: "rstring \<Rightarrow> rstring \<Rightarrow> rstring \<Rightarrow> rstring" where
  "guard_key r s a = r @ ascii ''-'' @ s @ ascii ''-'' @ a"

text \<open>\<open>responder.take()\<close> followed by \<open>responder.send(reply)\<close>.\<close>

definition respond :: "nat option \<Rightarrow> event \<Rightarrow> engine \<Rightarrow> engine" where
  "respond responder reply st =
     (case responder of None \<Rightarrow> st | Some r \<Rightarrow> st\<lparr>answers := answers st @ [(r, reply)]\<rparr>)"

definition decline_of :: "event \<Rightarrow> rstring \<Rightarrow> event" where
  "decline_of tx code = tx\<lparr>mti := ascii ''0110'', response_code := code\<rparr>"

text \<open>\<open>journaler.append\<close> fails only when the writer thread is gone.\<close>

definition journal_append :: "transaction \<Rightarrow> engine \<Rightarrow> (unit, engine) outcome" where
  "journal_append tx st =
     (if journal_open st then Ok (st\<lparr>journal := journal st @ [tx]\<rparr>) else Err ())"

text \<open>
  \<open>ledger_tx.send\<close>: \<open>ledger_queue\<close> is the log of what has been sent. The channel holds ten thousand
  events and a sender waits for room, so its bound delays a worker and loses nothing; the error of
  a channel whose receiver is gone is ignored by the code, and is not told apart here.
\<close>

definition ledger_send :: "event \<Rightarrow> engine \<Rightarrow> engine" where
  "ledger_send e st = st\<lparr>ledger_queue := ledger_queue st @ [e]\<rparr>"

section \<open>Ingress worker: admission\<close>

text \<open>
  The token vault: a tokenized card number is replaced by the funding PAN; \<open>Ok None\<close> is the
  decline with code 56. The masked form for the log slices the token and may panic.
\<close>

definition mask_pan :: "rstring \<Rightarrow> rstring option" where
  "mask_pan dp =
     (case str_slice dp 0 6 of
        None \<Rightarrow> None
      | Some a \<Rightarrow> (case str_slice dp (length dp - 4) (length dp) of
          None \<Rightarrow> None
        | Some b \<Rightarrow> Some (a @ ascii ''****'' @ b)))"

definition tsp_intercept :: "global_state \<Rightarrow> event \<Rightarrow> (unit, event option) outcome" where
  "tsp_intercept g tx =
     (if is_tokenized tx then
        let dp = from_utf8_lossy (fpan tx) in
        (case detokenize (token_map g) dp of
           Some real_fpan \<Rightarrow>
             let tx1 = tx\<lparr>fpan := real_fpan, dpan := Some dp\<rparr> in
             (case mask_pan dp of None \<Rightarrow> Panic | Some _ \<Rightarrow> Ok (Some tx1))
         | None \<Rightarrow> Ok None)
      else Ok (Some tx))"

definition network_id :: "bytes \<Rightarrow> rstring" where
  "network_id pan =
     (if starts_with pan (ascii ''4'') then ascii ''VISA''
      else if starts_with pan (ascii ''5'') then ascii ''MASTERCARD''
      else ascii ''DEFAULT'')"

definition risk_threshold :: "(rstring \<rightharpoonup> stip_rule) \<Rightarrow> event \<Rightarrow> u8" where
  "risk_threshold rules tx =
     (case rules (network_id (fpan tx)) of Some r \<Rightarrow> max_risk_score r | None \<Rightarrow> 100)"

definition risk_declined :: "(rstring \<rightharpoonup> stip_rule) \<Rightarrow> event \<Rightarrow> bool" where
  "risk_declined rules tx \<longleftrightarrow> risk_score tx > 0 \<and> risk_score tx > risk_threshold rules tx"

definition for_switch :: "event \<Rightarrow> bool" where
  "for_switch tx \<longleftrightarrow>
     \<not> starts_with (fpan tx) (ascii ''4'') \<and> \<not> starts_with (fpan tx) (ascii ''5'')"

text \<open>
  A reversal marks every guarded transaction with the original STAN and sends the ledger a copy
  of the reversal under that transaction's RRN. \<open>Panic\<close> is the panic of
  \<open>&odata[4..10]\<close>. The code locks the guard shard by shard while it iterates; the model marks the
  entries of one moment, so that a change of another thread to an entry comes before the whole
  reversal or after it.
\<close>

definition original_stan :: "event \<Rightarrow> (unit, rstring option) outcome" where
  "original_stan tx =
     (case original_data_elements tx of
        None \<Rightarrow> Ok None
      | Some odata \<Rightarrow>
          if length odata \<ge> 20 then
            (case str_slice odata 4 10 of None \<Rightarrow> Panic | Some s \<Rightarrow> Ok (Some s))
          else Ok None)"

fun mark_reversed ::
  "event \<Rightarrow> rstring \<Rightarrow> (rstring, active_transaction) dashmap
    \<Rightarrow> (rstring, active_transaction) dashmap \<times> event list" where
  "mark_reversed tx orig_stan [] = ([], [])"
| "mark_reversed tx orig_stan ((k, entry) # es) =
     (case mark_reversed tx orig_stan es of (es', evs) \<Rightarrow>
        if pb_stan (transaction_data entry) = orig_stan
        then ((k, entry\<lparr>at_state := ReversedPending\<rparr>) # es',
              tx\<lparr>rrn := pb_rrn (transaction_data entry)\<rparr> # evs)
        else ((k, entry) # es', evs))"

definition apply_reversal :: "event \<Rightarrow> engine \<Rightarrow> (unit, engine) outcome" where
  "apply_reversal tx st =
     bindo (original_stan tx) (\<lambda>orig.
       case orig of
         None \<Rightarrow> Ok st
       | Some s \<Rightarrow>
           (case mark_reversed tx s (idempotency_guard st) of (guard, evs) \<Rightarrow>
              Ok (st\<lparr>idempotency_guard := guard, ledger_queue := ledger_queue st @ evs\<rparr>)))"

text \<open>
  From the received context to the guard entry. \<open>Ok (st, None)\<close>: the transaction is answered
  and done; \<open>Ok (st, Some job)\<close>: it is guarded and goes on; \<open>Panic\<close>: the worker dies.
\<close>

definition guard_or_duplicate ::
  "rstring \<Rightarrow> transaction_context \<Rightarrow> engine \<Rightarrow> engine \<times> job option" where
  "guard_or_duplicate key ctx st =
     (let tx = ctx_transaction ctx in
      case map_of (idempotency_guard st) key of
        Some _ \<Rightarrow> (respond (ctx_responder ctx) (decline_of tx (ascii ''94'')) st, None)
      | None \<Rightarrow>
          (st\<lparr>idempotency_guard := (key, \<lparr> created_at = clock st, at_state = UpstreamSent,
                at_responder = ctx_responder ctx, transaction_data = to_pb tx,
                egress_stan = None \<rparr>) # idempotency_guard st\<rparr>,
           Some (Dispatch key (ctx\<lparr>ctx_responder := None\<rparr>))))"

definition admit_screened ::
  "rstring \<Rightarrow> transaction_context \<Rightarrow> engine \<Rightarrow> (unit, engine \<times> job option) outcome" where
  "admit_screened key ctx st =
     (let tx = ctx_transaction ctx; responder = ctx_responder ctx in
      if message_class tx = NetworkManagement \<and> for_switch tx then
        Ok (respond responder (tx\<lparr>mti := ascii ''0810'', response_code := ascii ''00'',
              message_class := NetworkManagementResponse\<rparr>) st, None)
      else if is_reversal tx then
        bindo (apply_reversal tx st) (\<lambda>st1.
          Ok (respond responder (tx\<lparr>mti := ascii ''0430'', response_code := ascii ''00''\<rparr>) st1, None))
      else Ok (guard_or_duplicate key ctx st))"

definition admit :: "transaction_context \<Rightarrow> engine \<Rightarrow> (unit, engine \<times> job option) outcome" where
  "admit ctx st =
     (let tx = ctx_transaction ctx; responder = ctx_responder ctx;
          acq = from_utf8_lossy (acquirer_id tx); g = memory_state st in
      bindo (compliance_evaluate (compliance_cache st) ctx) (\<lambda>blocked.
        if blocked then Ok (respond responder (decline_of tx (ascii ''93'')) st, None)
        else bindo (tsp_intercept g tx) (\<lambda>detok. case detok of
          None \<Rightarrow> Ok (respond responder (decline_of tx (ascii ''56'')) st, None)
        | Some tx1 \<Rightarrow>
            if risk_declined (stip g) tx1
            then Ok (respond responder (decline_of tx1 (ascii ''59'')) st, None)
            else admit_screened (guard_key (rrn tx) (stan tx) acq)
                   (ctx\<lparr>ctx_transaction := tx1\<rparr>) st)))"

section \<open>Ingress worker: dispatch\<close>

definition next_egress_stan :: "global_state \<Rightarrow> rstring" where
  "next_egress_stan g = format_padded 6 (unat (stan_counter g) mod 1000000)"

text \<open>The outbound half of the STAN translation.\<close>

definition nat_outbound :: "rstring \<Rightarrow> global_state \<Rightarrow> global_state \<times> rstring" where
  "nat_outbound ingress_stan g =
     (let es = next_egress_stan g
      in (g\<lparr>stan_counter := stan_counter g + 1, stan_nat := (stan_nat g)(es \<mapsto> ingress_stan)\<rparr>, es))"

text \<open>\<open>idempotency_guard.get_mut(&key)\<close> with an update of the entry.\<close>

definition guard_modify :: "rstring \<Rightarrow> (active_transaction \<Rightarrow> active_transaction) \<Rightarrow> engine \<Rightarrow> engine" where
  "guard_modify key f st =
     (case map_of (idempotency_guard st) key of
        None \<Rightarrow> st
      | Some entry \<Rightarrow>
          st\<lparr>idempotency_guard := AList.update key (f entry) (idempotency_guard st)\<rparr>)"

definition guard_remove :: "rstring \<Rightarrow> engine \<Rightarrow> engine" where
  "guard_remove key st = st\<lparr>idempotency_guard := AList.delete key (idempotency_guard st)\<rparr>"

text \<open>No egress channel: the terminal is declined from the guard entry, which is then removed.\<close>

definition decline_unrouted :: "rstring \<Rightarrow> event \<Rightarrow> engine \<Rightarrow> engine" where
  "decline_unrouted key tx st =
     (case map_of (idempotency_guard st) key of
        None \<Rightarrow> st
      | Some entry \<Rightarrow>
          guard_modify key (\<lambda>e. e\<lparr>at_responder := None, at_state := Completed\<rparr>)
            (respond (at_responder entry) (decline_of tx (ascii ''05'')) st))"

definition dispatch :: "rstring \<Rightarrow> transaction_context \<Rightarrow> engine \<Rightarrow> engine \<times> job option" where
  "dispatch key ctx st =
     (let tx = ctx_transaction ctx in
      if pin_block tx \<noteq> [] \<or> mac_data tx \<noteq> None
      then (st\<lparr>hsm_queue := hsm_queue st @ [ctx]\<rparr>, None)
      else case journal_append (to_pb tx) st of
        Ok st1 \<Rightarrow>
          (case select_egress (memory_state st1) tx of
             Some ch \<Rightarrow>
               (case nat_outbound (stan tx) (memory_state st1) of (g, es) \<Rightarrow>
                  (st1\<lparr>memory_state := g\<rparr>,
                   Some (RecordStan key (ctx\<lparr>ctx_transaction := tx\<lparr>stan := es\<rparr>\<rparr>) ch es)))
           | None \<Rightarrow> (decline_unrouted key tx st1, Some (Evict key)))
      | _ \<Rightarrow> (st, None))"

definition record_stan ::
  "rstring \<Rightarrow> transaction_context \<Rightarrow> nat \<Rightarrow> rstring \<Rightarrow> engine \<Rightarrow> engine \<times> job option" where
  "record_stan key ctx ch es st =
     (guard_modify key (\<lambda>e. e\<lparr>egress_stan := Some es\<rparr>) st, Some (Transmit ctx ch))"

text \<open>
  The stand-in decision when the egress channel is full or gone: the card profile read from
  \<open>stip_db\<close> authorizes or declines, an authorization deducts the amount and gives the profile to
  store. Between the read and the store of one worker another worker may read and store: the
  lookup and the application are two pieces of work. \<open>stip_decision\<close> is the two without a pause.
  An error of the database is not modelled: the code takes a failed read for a missing profile and
  ignores a failed store.
\<close>

definition stip_decide :: "codec \<Rightarrow> event \<Rightarrow> bytes option \<Rightarrow> event \<times> bytes option" where
  "stip_decide cd tx found =
     (case found of
        None \<Rightarrow> (decline_of tx (ascii ''05''), None)
      | Some cached \<Rightarrow>
          (case deserialize cd cached of
             None \<Rightarrow> (decline_of tx (ascii ''05''), None)
           | Some profile \<Rightarrow>
               if profile_is_blocked profile then (decline_of tx (ascii ''41''), None)
               else if sint (profile_balance profile) \<ge> sint (amount tx) then
                 let profile1 = profile\<lparr>profile_balance := profile_balance profile - amount tx\<rparr> in
                 ((decline_of tx (ascii ''00''))\<lparr>processing_code := ascii ''STIP12''\<rparr>,
                  Some (serialize cd profile1))
               else (decline_of tx (ascii ''51''), None)))"

definition stip_insert :: "bytes \<Rightarrow> bytes option \<Rightarrow> (bytes \<rightharpoonup> bytes) \<Rightarrow> (bytes \<rightharpoonup> bytes)" where
  "stip_insert key w db = (case w of None \<Rightarrow> db | Some bs \<Rightarrow> db(key \<mapsto> bs))"

definition stip_decision ::
  "codec \<Rightarrow> event \<Rightarrow> (bytes \<rightharpoonup> bytes) \<Rightarrow> event \<times> (bytes \<rightharpoonup> bytes)" where
  "stip_decision cd tx db =
     (case stip_decide cd tx (db (fpan tx)) of (tx', w) \<Rightarrow> (tx', stip_insert (fpan tx) w db))"

definition stip_lookup :: "transaction_context \<Rightarrow> engine \<Rightarrow> engine \<times> job option" where
  "stip_lookup failed_ctx st =
     (st, Some (StipApply failed_ctx (stip_db st (fpan (ctx_transaction failed_ctx)))))"

definition stip_fallback :: "codec \<Rightarrow> transaction_context \<Rightarrow> bytes option \<Rightarrow> engine \<Rightarrow> engine" where
  "stip_fallback cd failed_ctx found st =
     (case stip_decide cd (ctx_transaction failed_ctx) found of (tx, w) \<Rightarrow>
        let st1 = st\<lparr>stip_db := stip_insert (fpan (ctx_transaction failed_ctx)) w (stip_db st)\<rparr> in
        (case journal_append (to_pb tx) st1 of
           Ok st2 \<Rightarrow> respond (ctx_responder failed_ctx) tx st2
         | _ \<Rightarrow> st1))"

text \<open>\<open>send_timeout\<close> is decided when its wait ends: there is room, or the send has failed.\<close>

definition transmit :: "transaction_context \<Rightarrow> nat \<Rightarrow> engine \<Rightarrow> engine \<times> job option" where
  "transmit ctx ch st =
     (let st1 = ledger_send (ctx_transaction ctx) st in
      case try_send ctx (channels st1 ch) of
        Some c \<Rightarrow> (st1\<lparr>channels := (channels st1)(ch := c)\<rparr>, None)
      | None \<Rightarrow> (st1, Some (StipLookup ctx)))"

section \<open>HSM worker\<close>

definition mac_valid :: "hsm \<Rightarrow> event \<Rightarrow> rstring \<Rightarrow> (unit, bool) outcome" where
  "mac_valid h tx pan_str =
     (case mac_data tx of
        None \<Rightarrow> Ok True
      | Some mac \<Rightarrow> (case verify_mac h mac pan_str of
          Ok success \<Rightarrow> Ok success | Err _ \<Rightarrow> Ok False | Panic \<Rightarrow> Panic))"

text \<open>The verdict on the PIN and the MAC, the forwarded transaction and its channel.\<close>

definition hsm_internal ::
  "hsm \<Rightarrow> global_state \<Rightarrow> event \<Rightarrow> rstring \<Rightarrow> rstring \<Rightarrow> (unit, bool \<times> event \<times> nat option) outcome" where
  "hsm_internal h g tx pan_str pin_str =
     (case crdb g pan_str of
        None \<Rightarrow> Ok (False, tx, None)
      | Some rec \<Rightarrow>
          bindo (mac_valid h tx pan_str) (\<lambda>mac_ok.
            let crdb_ch = egress_channels g (ascii ''CRDB_DOMAIN_2'') in
            if pin_str \<noteq> [] then
              (case verify_pin h pin_str pan_str (pvv rec) of
                 Ok success \<Rightarrow>
                   if \<not> success \<or> \<not> mac_ok then Ok (False, tx, None) else Ok (True, tx, crdb_ch)
               | Err _ \<Rightarrow> Ok (False, tx, None)
               | Panic \<Rightarrow> Panic)
            else if \<not> mac_ok then Ok (False, tx, None) else Ok (True, tx, crdb_ch)))"

definition hsm_external ::
  "hsm \<Rightarrow> global_state \<Rightarrow> rstring \<Rightarrow> rstring option \<Rightarrow> event \<Rightarrow> rstring \<Rightarrow> rstring
    \<Rightarrow> (unit, bool \<times> event \<times> nat option) outcome" where
  "hsm_external h g node_id failover tx pan_str pin_str =
     bindo (mac_valid h tx pan_str) (\<lambda>mac_ok.
       if \<not> mac_ok then Ok (False, tx, None)
       else if pin_str \<noteq> [] then
         (case translate_pin h pin_str pan_str of
            Ok translated \<Rightarrow> Ok (True, tx\<lparr>pin_block := translated\<rparr>, select_node g node_id failover)
          | Err _ \<Rightarrow> Ok (False, tx, None)
          | Panic \<Rightarrow> Panic)
       else Ok (True, tx, select_node g node_id failover))"

definition hsm_check ::
  "hsm \<Rightarrow> global_state \<Rightarrow> event \<Rightarrow> (unit, bool \<times> event \<times> nat option) outcome" where
  "hsm_check h g tx =
     (let pan_str = from_utf8_lossy (fpan tx); pin_str = from_utf8_lossy (pin_block tx) in
      case trie_find (router g) (fpan tx) of
        None \<Rightarrow> Ok (True, tx, None)
      | Some r \<Rightarrow>
          (case destination r of
             InternalCrdb \<Rightarrow> hsm_internal h g tx pan_str pin_str
           | ExternalNode node_id \<Rightarrow>
               hsm_external h g node_id (failover_node r) tx pan_str pin_str))"

text \<open>A panic ends the spawned task; the context is dropped with it.\<close>

definition hsm_process :: "hsm \<Rightarrow> transaction_context \<Rightarrow> engine \<Rightarrow> engine" where
  "hsm_process h ctx st =
     (case hsm_check h (memory_state st) (ctx_transaction ctx) of
        Ok (is_pin_valid, tx, target_ch) \<Rightarrow>
          if \<not> is_pin_valid then respond (ctx_responder ctx) (decline_of tx (ascii ''55'')) st
          else (case journal_append (to_pb tx) st of
            Ok st1 \<Rightarrow>
              (case target_ch of
                 None \<Rightarrow> st1
               | Some ch \<Rightarrow> st1\<lparr>channels := (channels st1)(ch :=
                   send_blocking (ctx\<lparr>ctx_transaction := tx\<rparr>) (channels st1 ch))\<rparr>)
          | _ \<Rightarrow> st)
      | _ \<Rightarrow> st)"

section \<open>Reaper\<close>

definition expired :: "engine \<Rightarrow> active_transaction \<Rightarrow> bool" where
  "expired st entry \<longleftrightarrow> at_state entry = UpstreamSent \<and> clock st - created_at entry > timeout_ms st"

definition reaper_scan :: "engine \<Rightarrow> rstring list" where
  "reaper_scan st = map fst (filter (\<lambda>(k, entry). expired st entry) (idempotency_guard st))"

text \<open>The 0420 reversal goes to the primary node of the route, if that has a channel.\<close>

definition send_reversal :: "transaction \<Rightarrow> engine \<Rightarrow> engine" where
  "send_reversal data st =
     (let rev = from_pb (data\<lparr>pb_mti := ascii ''0420''\<rparr>);
          rev_ctx = \<lparr>ctx_transaction = rev, ctx_responder = None\<rparr> in
      case trie_find (router (memory_state st)) (fpan rev) of
        None \<Rightarrow> st
      | Some r \<Rightarrow>
          (case destination r of
             InternalCrdb \<Rightarrow> st
           | ExternalNode n \<Rightarrow>
               (case egress_channels (memory_state st) n of
                  None \<Rightarrow> st
                | Some ch \<Rightarrow> st\<lparr>channels := (channels st)(ch :=
                    send_blocking rev_ctx (channels st ch))\<rparr>)))"

definition timeout_reply :: "transaction \<Rightarrow> event" where
  "timeout_reply data = from_pb (data\<lparr>pb_mti := ascii ''0110'', pb_response_code := ascii ''68''\<rparr>)"

text \<open>The part of a reap that holds the guard entry.\<close>

definition reap :: "rstring \<Rightarrow> engine \<Rightarrow> engine \<times> job option" where
  "reap key st =
     (case map_of (idempotency_guard st) key of
        None \<Rightarrow> (st, Some (ReapFinish key None False))
      | Some entry \<Rightarrow>
          if at_state entry = UpstreamSent then
            (send_reversal (transaction_data entry)
               (guard_modify key (\<lambda>e. e\<lparr>at_state := Reversed, egress_stan := None, at_responder := None\<rparr>)
                 (respond (at_responder entry) (timeout_reply (transaction_data entry)) st)),
             Some (ReapFinish key (egress_stan entry) True))
          else (st, Some (ReapFinish key None False)))"

definition nat_remove :: "rstring \<Rightarrow> engine \<Rightarrow> engine" where
  "nat_remove es st = st\<lparr>memory_state := (memory_state st)\<lparr>stan_nat := (stan_nat (memory_state st))(es := None)\<rparr>\<rparr>"

definition reap_finish :: "rstring \<Rightarrow> rstring option \<Rightarrow> bool \<Rightarrow> engine \<Rightarrow> engine" where
  "reap_finish key es did_reverse st =
     (let st1 = (case es of None \<Rightarrow> st | Some e \<Rightarrow> nat_remove e st)
      in if did_reverse then guard_remove key st1 else st1)"

definition prune_after :: nat where
  "prune_after = 30000"

definition stale :: "engine \<Rightarrow> active_transaction \<Rightarrow> bool" where
  "stale st entry \<longleftrightarrow> at_state entry \<in> {Completed, Reversed} \<and> clock st - created_at entry > prune_after"

definition prune_scan :: "engine \<Rightarrow> rstring list" where
  "prune_scan st = map fst (filter (\<lambda>(k, entry). stale st entry) (idempotency_guard st))"

section \<open>Bank replies\<close>

text \<open>The inbound half of the STAN translation consumes the NAT entry.\<close>

definition bank_reply_key :: "transaction \<Rightarrow> engine \<Rightarrow> engine \<times> rstring" where
  "bank_reply_key reply st =
     (let es = pb_stan reply;
          ingress = (case stan_nat (memory_state st) es of Some i \<Rightarrow> i | None \<Rightarrow> es)
      in (nat_remove es st, guard_key (pb_rrn reply) ingress (pb_acquirer_id reply)))"

definition bank_reply :: "rstring \<Rightarrow> transaction \<Rightarrow> engine \<Rightarrow> engine \<times> job option" where
  "bank_reply key reply st =
     (case map_of (idempotency_guard st) key of
        None \<Rightarrow> (st, None)
      | Some entry \<Rightarrow>
          if at_state entry = Reversed then (st, Some (Evict key))
          else
            let st1 = guard_modify key (\<lambda>e. e\<lparr>at_state := Completed\<rparr>) st in
            (case journal_append reply st1 of
               Ok st2 \<Rightarrow>
                 (respond (at_responder entry) (from_pb (reply\<lparr>pb_mti := ascii ''0110''\<rparr>))
                    (guard_modify key (\<lambda>e. e\<lparr>at_responder := None\<rparr>) st2),
                  Some (Evict key))
             | _ \<Rightarrow> (st1, None)))"

section \<open>Whole handlers\<close>

text \<open>One piece of work; \<open>run_job\<close> follows a transaction's pieces to the end.\<close>

fun job_step :: "codec \<Rightarrow> job \<Rightarrow> engine \<Rightarrow> engine \<times> job option" where
  "job_step cd (Dispatch key ctx) st = dispatch key ctx st"
| "job_step cd (RecordStan key ctx ch es) st = record_stan key ctx ch es st"
| "job_step cd (Transmit ctx ch) st = transmit ctx ch st"
| "job_step cd (StipLookup ctx) st = stip_lookup ctx st"
| "job_step cd (StipApply ctx found) st = (stip_fallback cd ctx found st, None)"
| "job_step cd (Evict key) st = (guard_remove key st, None)"
| "job_step cd (Reap key) st = reap key st"
| "job_step cd (ReapFinish key es did) st = (reap_finish key es did st, None)"
| "job_step cd (Reply key reply) st = bank_reply key reply st"

fun job_rank :: "job \<Rightarrow> nat" where
  "job_rank (Dispatch _ _) = 4"
| "job_rank (RecordStan _ _ _ _) = 3"
| "job_rank (Transmit _ _) = 2"
| "job_rank (StipLookup _) = 1"
| "job_rank (StipApply _ _) = 0"
| "job_rank (Evict _) = 0"
| "job_rank (Reap _) = 1"
| "job_rank (ReapFinish _ _ _) = 0"
| "job_rank (Reply _ _) = 1"

lemma job_step_rank: "job_step cd j st = (st', Some j') \<Longrightarrow> job_rank j' < job_rank j"
  by (cases j) (auto simp: dispatch_def record_stan_def transmit_def stip_lookup_def reap_def bank_reply_def
      Let_def split: if_splits option.splits outcome.splits prod.splits)

function run_job :: "codec \<Rightarrow> job \<Rightarrow> engine \<Rightarrow> engine" where
  "run_job cd j st = (case job_step cd j st of
      (st', None) \<Rightarrow> st' | (st', Some j') \<Rightarrow> run_job cd j' st')"
  by pat_completeness auto
termination
  by (relation "measure (\<lambda>(_, j, _). job_rank j)") (auto dest: job_step_rank sym)

declare run_job.simps [simp del]

text \<open>A panic of the ingress worker ends its thread.\<close>

definition process_transaction :: "codec \<Rightarrow> transaction_context \<Rightarrow> engine \<Rightarrow> engine" where
  "process_transaction cd ctx st =
     (case admit ctx st of
        Ok (st1, None) \<Rightarrow> st1
      | Ok (st1, Some j) \<Rightarrow> run_job cd j st1
      | _ \<Rightarrow> st\<lparr>workers := workers st - 1\<rparr>)"

definition process_bank_reply :: "codec \<Rightarrow> transaction \<Rightarrow> engine \<Rightarrow> engine" where
  "process_bank_reply cd reply st =
     (case bank_reply_key reply st of (st1, key) \<Rightarrow> run_job cd (Reply key reply) st1)"

definition reaper_pass :: "codec \<Rightarrow> engine \<Rightarrow> engine" where
  "reaper_pass cd st =
     (let st1 = foldl (\<lambda>s key. run_job cd (Reap key) s) st (reaper_scan st)
      in foldl (\<lambda>s key. guard_remove key s) st1 (prune_scan st1))"

text \<open>The daemon's view of the guard: key, state, age, amount, MTI and RRN of each entry, and their number.\<close>

definition get_dashmap ::
  "engine \<Rightarrow> (rstring \<times> network_state \<times> nat \<times> u64 \<times> rstring \<times> rstring) list \<times> nat" where
  "get_dashmap st =
     (let transactions = map (\<lambda>(key, tx). (key, at_state tx, clock st - created_at tx,
          pb_amount (transaction_data tx), pb_mti (transaction_data tx), pb_rrn (transaction_data tx)))
        (idempotency_guard st)
      in (transactions, length transactions))"

section \<open>Guard entries\<close>

abbreviation entry_of :: "engine \<Rightarrow> rstring \<Rightarrow> active_transaction option" where
  "entry_of st key \<equiv> map_of (idempotency_guard st) key"

lemma entry_guard_modify [simp]:
  "entry_of (guard_modify key f st) k = (if k = key then map_option f (entry_of st key) else entry_of st k)"
  by (auto simp: guard_modify_def update_conv' split: option.splits)

lemma entry_guard_remove [simp]:
  "entry_of (guard_remove key st) k = (if k = key then None else entry_of st k)"
  by (simp add: guard_remove_def delete_conv')

lemma entry_respond [simp]: "idempotency_guard (respond r e st) = idempotency_guard st"
  by (simp add: respond_def split: option.splits)

lemma entry_nat_remove [simp]: "idempotency_guard (nat_remove es st) = idempotency_guard st"
  by (simp add: nat_remove_def)

lemma guard_keys_distinct:
  "distinct (map fst (idempotency_guard st)) \<Longrightarrow> distinct (map fst (idempotency_guard (guard_modify k f st)))"
  "distinct (map fst (idempotency_guard st)) \<Longrightarrow> distinct (map fst (idempotency_guard (guard_remove k st)))"
  by (auto simp: guard_modify_def guard_remove_def distinct_update distinct_delete split: option.splits)

text \<open>What the small operations leave alone.\<close>

lemma respond_frame [simp]:
  "memory_state (respond r e st) = memory_state st"
  "journal (respond r e st) = journal st"
  "journal_open (respond r e st) = journal_open st"
  "channels (respond r e st) = channels st"
  "clock (respond r e st) = clock st"
  "timeout_ms (respond r e st) = timeout_ms st"
  "ledger_queue (respond r e st) = ledger_queue st"
  "stip_db (respond r e st) = stip_db st"
  "answers (respond r e st) = answers st @ (case r of None \<Rightarrow> [] | Some i \<Rightarrow> [(i, e)])"
  by (simp_all add: respond_def split: option.splits)

lemma guard_modify_frame [simp]:
  "memory_state (guard_modify k f st) = memory_state st"
  "journal (guard_modify k f st) = journal st"
  "journal_open (guard_modify k f st) = journal_open st"
  "channels (guard_modify k f st) = channels st"
  "clock (guard_modify k f st) = clock st"
  "timeout_ms (guard_modify k f st) = timeout_ms st"
  "ledger_queue (guard_modify k f st) = ledger_queue st"
  "stip_db (guard_modify k f st) = stip_db st"
  "answers (guard_modify k f st) = answers st"
  by (simp_all add: guard_modify_def split: option.splits)

lemma guard_remove_frame [simp]:
  "memory_state (guard_remove k st) = memory_state st"
  "journal (guard_remove k st) = journal st"
  "journal_open (guard_remove k st) = journal_open st"
  "channels (guard_remove k st) = channels st"
  "clock (guard_remove k st) = clock st"
  "timeout_ms (guard_remove k st) = timeout_ms st"
  "ledger_queue (guard_remove k st) = ledger_queue st"
  "answers (guard_remove k st) = answers st"
  by (simp_all add: guard_remove_def)

lemma nat_remove_frame [simp]:
  "journal (nat_remove k st) = journal st"
  "journal_open (nat_remove k st) = journal_open st"
  "channels (nat_remove k st) = channels st"
  "clock (nat_remove k st) = clock st"
  "timeout_ms (nat_remove k st) = timeout_ms st"
  "answers (nat_remove k st) = answers st"
  "stan_nat (memory_state (nat_remove k st)) = (stan_nat (memory_state st))(k := None)"
  by (simp_all add: nat_remove_def)

lemma send_reversal_frame [simp]:
  "idempotency_guard (send_reversal d st) = idempotency_guard st"
  "memory_state (send_reversal d st) = memory_state st"
  "answers (send_reversal d st) = answers st"
  "clock (send_reversal d st) = clock st"
  "timeout_ms (send_reversal d st) = timeout_ms st"
  "journal (send_reversal d st) = journal st"
  "journal_open (send_reversal d st) = journal_open st"
  by (simp_all add: send_reversal_def Let_def split: option.splits route_destination.splits)

section \<open>The life of a transaction\<close>

text \<open>A transaction that passes every screen before the guard.\<close>

definition clears_screening :: "engine \<Rightarrow> transaction_context \<Rightarrow> event \<Rightarrow> bool" where
  "clears_screening st ctx tx \<longleftrightarrow>
     compliance_evaluate (compliance_cache st) ctx = Ok False \<and>
     tsp_intercept (memory_state st) (ctx_transaction ctx) = Ok (Some tx) \<and>
     \<not> risk_declined (stip (memory_state st)) tx \<and>
     \<not> (message_class tx = NetworkManagement \<and> for_switch tx) \<and> \<not> is_reversal tx"

definition context_key :: "transaction_context \<Rightarrow> rstring" where
  "context_key ctx = (let tx = ctx_transaction ctx
     in guard_key (rrn tx) (stan tx) (from_utf8_lossy (acquirer_id tx)))"

lemma admit_clear:
  "clears_screening st ctx tx \<Longrightarrow>
    admit ctx st = Ok (guard_or_duplicate (context_key ctx) (ctx\<lparr>ctx_transaction := tx\<rparr>) st)"
  by (auto simp: clears_screening_def admit_def admit_screened_def context_key_def Let_def)

lemma tsp_intercept_keeps:
  assumes "tsp_intercept g tx = Ok (Some tx')"
  shows "rrn tx' = rrn tx" and "stan tx' = stan tx" and "acquirer_id tx' = acquirer_id tx"
  using assms by (auto simp: tsp_intercept_def Let_def split: if_splits option.splits)

lemmas run_job_simps =
  run_job.simps [of _ "Dispatch k c"] run_job.simps [of _ "RecordStan k c h e"]
  run_job.simps [of _ "Transmit c h"] run_job.simps [of _ "StipLookup c"]
  run_job.simps [of _ "StipApply c v"] run_job.simps [of _ "Evict k"]
  run_job.simps [of _ "Reap k"] run_job.simps [of _ "ReapFinish k es d"]
  run_job.simps [of _ "Reply k r"] for k c h e es d r v

text \<open>A routed transaction just before it is offered to its channel, and the message offered.\<close>

definition translated :: "transaction_context \<Rightarrow> event \<Rightarrow> engine \<Rightarrow> engine" where
  "translated ctx tx st =
     (let g = memory_state st; es = next_egress_stan g in
      st\<lparr> idempotency_guard := (context_key ctx, \<lparr> created_at = clock st, at_state = UpstreamSent,
             at_responder = ctx_responder ctx, transaction_data = to_pb tx,
             egress_stan = Some es \<rparr>) # idempotency_guard st,
          journal := journal st @ [to_pb tx],
          memory_state := g\<lparr>stan_counter := stan_counter g + 1,
             stan_nat := (stan_nat g)(es \<mapsto> stan tx)\<rparr> \<rparr>)"

definition outbound :: "engine \<Rightarrow> event \<Rightarrow> transaction_context" where
  "outbound st tx = \<lparr>ctx_transaction = tx\<lparr>stan := next_egress_stan (memory_state st)\<rparr>, ctx_responder = None\<rparr>"

text \<open>Offered to its channel, the transaction is taken or stood in for.\<close>

lemma run_transmit:
  "run_job cd (Transmit ctx ch) st =
     (let st1 = ledger_send (ctx_transaction ctx) st in
      case try_send ctx (channels st1 ch) of
        Some c \<Rightarrow> st1\<lparr>channels := (channels st1)(ch := c)\<rparr>
      | None \<Rightarrow>
          (case stip_decision cd (ctx_transaction ctx) (stip_db st1) of (tx, db) \<Rightarrow>
             let st2 = st1\<lparr>stip_db := db\<rparr> in
             (case journal_append (to_pb tx) st2 of
                Ok st3 \<Rightarrow> respond (ctx_responder ctx) tx st3
              | _ \<Rightarrow> st2)))"
  by (simp add: run_job_simps transmit_def stip_lookup_def stip_fallback_def stip_decision_def Let_def
      split: option.splits prod.splits)

lemma run_dispatch_transmits:
  assumes plain: "pin_block tx = []" "mac_data tx = None"
    and up: "journal_open st" and route: "select_egress (memory_state st) tx = Some ch"
    and ctx: "ctx_transaction ctx = tx" "ctx_responder ctx = None"
    and entry: "idempotency_guard st = (key, en) # rest"
  shows "run_job cd (Dispatch key ctx) st =
    (let g = memory_state st; es = next_egress_stan g in
      run_job cd (Transmit (outbound st tx) ch) (st\<lparr> journal := journal st @ [to_pb tx],
          memory_state := g\<lparr>stan_counter := stan_counter g + 1,
             stan_nat := (stan_nat g)(es \<mapsto> stan tx)\<rparr>,
          idempotency_guard := (key, en\<lparr>egress_stan := Some es\<rparr>) # rest \<rparr>))"
proof -
  let ?g = "memory_state st" and ?es = "next_egress_stan (memory_state st)"
  let ?st1 = "st\<lparr>journal := journal st @ [to_pb tx],
    memory_state := ?g\<lparr>stan_counter := stan_counter ?g + 1, stan_nat := (stan_nat ?g)(?es \<mapsto> stan tx)\<rparr>\<rparr>"
  let ?st2 = "?st1\<lparr>idempotency_guard := (key, en\<lparr>egress_stan := Some ?es\<rparr>) # rest\<rparr>"
  have out: "ctx\<lparr>ctx_transaction := tx\<lparr>stan := ?es\<rparr>\<rparr> = outbound st tx"
    using ctx by (simp add: outbound_def)
  have "dispatch key ctx st = (?st1, Some (RecordStan key (outbound st tx) ch ?es))"
    using plain up route ctx(1)
    by (simp add: dispatch_def journal_append_def nat_outbound_def out Let_def)
  moreover have "record_stan key (outbound st tx) ch ?es ?st1 = (?st2, Some (Transmit (outbound st tx) ch))"
    using entry by (simp add: record_stan_def guard_modify_def)
  ultimately show ?thesis by (simp add: run_job_simps(1,2) Let_def)
qed

lemma process_transmits:
  assumes clear: "clears_screening st ctx tx" and fresh: "entry_of st (context_key ctx) = None"
    and plain: "pin_block tx = []" "mac_data tx = None"
    and up: "journal_open st" and route: "select_egress (memory_state st) tx = Some ch"
  shows "process_transaction cd ctx st = run_job cd (Transmit (outbound st tx) ch) (translated ctx tx st)"
proof -
  let ?en = "\<lparr> created_at = clock st, at_state = UpstreamSent, at_responder = ctx_responder ctx,
    transaction_data = to_pb tx, egress_stan = None \<rparr>"
  let ?st = "st\<lparr>idempotency_guard := (context_key ctx, ?en) # idempotency_guard st\<rparr>"
  let ?ctx = "ctx\<lparr>ctx_transaction := tx, ctx_responder := None\<rparr>"
  have "process_transaction cd ctx st = run_job cd (Dispatch (context_key ctx) ?ctx) ?st"
    using fresh by (simp add: process_transaction_def admit_clear [OF clear] guard_or_duplicate_def Let_def)
  moreover have "translated ctx tx st = st\<lparr> journal := journal st @ [to_pb tx],
      memory_state := (memory_state st)\<lparr>stan_counter := stan_counter (memory_state st) + 1,
        stan_nat := (stan_nat (memory_state st))(next_egress_stan (memory_state st) \<mapsto> stan tx)\<rparr>,
      idempotency_guard := (context_key ctx, ?en\<lparr>egress_stan := Some (next_egress_stan (memory_state st))\<rparr>)
        # idempotency_guard st \<rparr>"
    by (simp add: translated_def Let_def)
  moreover have "outbound ?st tx = outbound st tx" by (simp add: outbound_def)
  ultimately show ?thesis
    using run_dispatch_transmits [of tx ?st ch ?ctx "context_key ctx" ?en "idempotency_guard st" cd]
      plain up route by (simp add: Let_def)
qed

text \<open>The channel has room: the transaction is forwarded.\<close>

definition forwarded :: "transaction_context \<Rightarrow> event \<Rightarrow> nat \<Rightarrow> channel \<Rightarrow> engine \<Rightarrow> engine" where
  "forwarded ctx tx ch c st =
     (translated ctx tx st)\<lparr>
        ledger_queue := ledger_queue st @ [ctx_transaction (outbound st tx)],
        channels := (channels st)(ch := c) \<rparr>"

lemma process_forwarded:
  assumes "clears_screening st ctx tx" and "entry_of st (context_key ctx) = None"
    and "pin_block tx = []" and "mac_data tx = None"
    and "journal_open st" and "select_egress (memory_state st) tx = Some ch"
    and room: "try_send (outbound st tx) (channels st ch) = Some c"
  shows "process_transaction cd ctx st = forwarded ctx tx ch c st"
proof -
  have "process_transaction cd ctx st = run_job cd (Transmit (outbound st tx) ch) (translated ctx tx st)"
    using assms(1-6) by (rule process_transmits)
  also have "\<dots> = forwarded ctx tx ch c st"
    using room by (simp add: run_transmit ledger_send_def forwarded_def translated_def Let_def)
  finally show ?thesis .
qed

text \<open>A bank reply to a live entry: journaled, delivered, and the entry is gone.\<close>

definition approval_of :: "transaction \<Rightarrow> event" where
  "approval_of reply = from_pb (reply\<lparr>pb_mti := ascii ''0110''\<rparr>)"

lemma run_reply:
  assumes "entry_of st key = Some en" and "at_state en \<noteq> Reversed" and "journal_open st"
  shows "answers (run_job cd (Reply key reply) st)
      = answers st @ (case at_responder en of None \<Rightarrow> [] | Some r \<Rightarrow> [(r, approval_of reply)])"
    and "journal (run_job cd (Reply key reply) st) = journal st @ [reply]"
    and "entry_of (run_job cd (Reply key reply) st) k = (if k = key then None else entry_of st k)"
    and "memory_state (run_job cd (Reply key reply) st) = memory_state st"
proof -
  let ?st1 = "guard_modify key (\<lambda>e. e\<lparr>at_state := Completed\<rparr>) st"
  let ?st2 = "?st1\<lparr>journal := journal st @ [reply]\<rparr>"
  have "run_job cd (Reply key reply) st = guard_remove key
      (respond (at_responder en) (approval_of reply) (guard_modify key (\<lambda>e. e\<lparr>at_responder := None\<rparr>) ?st2))"
    using assms by (simp add: run_job_simps bank_reply_def journal_append_def approval_of_def Let_def)
  then show "answers (run_job cd (Reply key reply) st)
      = answers st @ (case at_responder en of None \<Rightarrow> [] | Some r \<Rightarrow> [(r, approval_of reply)])"
    and "journal (run_job cd (Reply key reply) st) = journal st @ [reply]"
    and "entry_of (run_job cd (Reply key reply) st) k = (if k = key then None else entry_of st k)"
    and "memory_state (run_job cd (Reply key reply) st) = memory_state st"
    by simp_all
qed

lemma process_bank_reply_delivered:
  assumes key: "snd (bank_reply_key reply st) = key"
    and entry: "entry_of st key = Some en" "at_state en \<noteq> Reversed" and up: "journal_open st"
  shows "answers (process_bank_reply cd reply st)
      = answers st @ (case at_responder en of None \<Rightarrow> [] | Some r \<Rightarrow> [(r, approval_of reply)])"
    and "journal (process_bank_reply cd reply st) = journal st @ [reply]"
    and "entry_of (process_bank_reply cd reply st) k = (if k = key then None else entry_of st k)"
    and "stan_nat (memory_state (process_bank_reply cd reply st))
      = (stan_nat (memory_state st))(pb_stan reply := None)"
proof -
  let ?st = "nat_remove (pb_stan reply) st"
  have run: "process_bank_reply cd reply st = run_job cd (Reply key reply) ?st"
    using key by (auto simp: process_bank_reply_def bank_reply_key_def Let_def)
  have live: "entry_of ?st key = Some en" "journal_open ?st" using entry(1) up by simp_all
  note r = run_reply [OF live(1) entry(2) live(2)]
  show "answers (process_bank_reply cd reply st)
      = answers st @ (case at_responder en of None \<Rightarrow> [] | Some r \<Rightarrow> [(r, approval_of reply)])"
    and "journal (process_bank_reply cd reply st) = journal st @ [reply]"
    and "entry_of (process_bank_reply cd reply st) k = (if k = key then None else entry_of st k)"
    and "stan_nat (memory_state (process_bank_reply cd reply st))
      = (stan_nat (memory_state st))(pb_stan reply := None)"
    unfolding run by (simp_all add: r)
qed

text \<open>Forwarding followed by the reply that echoes the egress STAN.\<close>

lemma forward_then_reply:
  assumes "clears_screening st ctx tx" and "entry_of st (context_key ctx) = None"
    and "pin_block tx = []" and "mac_data tx = None" and "journal_open st"
    and "select_egress (memory_state st) tx = Some ch"
    and "try_send (outbound st tx) (channels st ch) = Some c"
    and "ctx_responder ctx = Some r"
    and "pb_stan reply = next_egress_stan (memory_state st)"
    and "pb_rrn reply = rrn tx" and "pb_acquirer_id reply = from_utf8_lossy (acquirer_id tx)"
  shows "let st' = process_bank_reply cd reply (process_transaction cd ctx st) in
    answers st' = answers st @ [(r, approval_of reply)] \<and>
    journal st' = journal st @ [to_pb tx, reply] \<and>
    entry_of st' = entry_of st \<and>
    stan_nat (memory_state st') = (stan_nat (memory_state st))(next_egress_stan (memory_state st) := None) \<and>
    channels (process_transaction cd ctx st) ch = c"
proof -
  let ?es = "next_egress_stan (memory_state st)"
  let ?st = "forwarded ctx tx ch c st"
  let ?en = "\<lparr>created_at = clock st, at_state = UpstreamSent, at_responder = ctx_responder ctx,
    transaction_data = to_pb tx, egress_stan = Some ?es\<rparr>"
  have run: "process_transaction cd ctx st = ?st"
    using assms(1-7) by (rule process_forwarded)
  have same: "rrn tx = rrn (ctx_transaction ctx)" "stan tx = stan (ctx_transaction ctx)"
    "acquirer_id tx = acquirer_id (ctx_transaction ctx)"
    using assms(1) tsp_intercept_keeps by (auto simp: clears_screening_def)
  have key: "context_key ctx = guard_key (pb_rrn reply) (stan tx) (pb_acquirer_id reply)"
    using assms(10,11) same by (simp add: context_key_def Let_def)
  have "snd (bank_reply_key reply ?st) = context_key ctx"
    and "entry_of ?st (context_key ctx) = Some ?en" and "at_state ?en \<noteq> Reversed" and "journal_open ?st"
    using assms(5,9) by (simp_all add: key bank_reply_key_def forwarded_def translated_def Let_def)
  note reply = process_bank_reply_delivered [OF this, of cd]
  moreover have "entry_of (process_bank_reply cd reply ?st) = entry_of st"
    using assms(2) reply(3) by (auto simp: forwarded_def translated_def Let_def)
  ultimately show ?thesis
    using assms(8,9) by (simp add: run Let_def) (simp add: forwarded_def translated_def Let_def)
qed

section \<open>The reaper\<close>

lemma run_reap:
  assumes "entry_of st key = Some en" and "at_state en = UpstreamSent"
  shows "answers (run_job cd (Reap key) st) = answers st @
      (case at_responder en of None \<Rightarrow> [] | Some r \<Rightarrow> [(r, timeout_reply (transaction_data en))])"
    and "entry_of (run_job cd (Reap key) st) k = (if k = key then None else entry_of st k)"
    and "stan_nat (memory_state (run_job cd (Reap key) st)) =
      (case egress_stan en of None \<Rightarrow> stan_nat (memory_state st)
       | Some es \<Rightarrow> (stan_nat (memory_state st))(es := None))"
    and "clock (run_job cd (Reap key) st) = clock st"
    and "timeout_ms (run_job cd (Reap key) st) = timeout_ms st"
proof -
  let ?st1 = "send_reversal (transaction_data en)
    (guard_modify key (\<lambda>e. e\<lparr>at_state := Reversed, egress_stan := None, at_responder := None\<rparr>)
      (respond (at_responder en) (timeout_reply (transaction_data en)) st))"
  have run: "run_job cd (Reap key) st =
      guard_remove key (case egress_stan en of None \<Rightarrow> ?st1 | Some e \<Rightarrow> nat_remove e ?st1)"
    using assms by (simp add: run_job_simps reap_def reap_finish_def Let_def)
  show "answers (run_job cd (Reap key) st) = answers st @
      (case at_responder en of None \<Rightarrow> [] | Some r \<Rightarrow> [(r, timeout_reply (transaction_data en))])"
    and "entry_of (run_job cd (Reap key) st) k = (if k = key then None else entry_of st k)"
    and "stan_nat (memory_state (run_job cd (Reap key) st)) =
      (case egress_stan en of None \<Rightarrow> stan_nat (memory_state st)
       | Some es \<Rightarrow> (stan_nat (memory_state st))(es := None))"
    and "clock (run_job cd (Reap key) st) = clock st"
    and "timeout_ms (run_job cd (Reap key) st) = timeout_ms st"
    unfolding run by (simp_all split: option.splits)
qed

text \<open>A whole first pass over keys that are all awaiting the bank.\<close>

definition timeout_answers :: "engine \<Rightarrow> rstring \<Rightarrow> (nat \<times> event) list" where
  "timeout_answers st k =
     (case entry_of st k of
        None \<Rightarrow> []
      | Some en \<Rightarrow> (case at_responder en of
          None \<Rightarrow> [] | Some r \<Rightarrow> [(r, timeout_reply (transaction_data en))]))"

lemma reap_keys:
  assumes "distinct keys" and "\<forall>k \<in> set keys. \<exists>en. entry_of st k = Some en \<and> at_state en = UpstreamSent"
  shows "(\<forall>k. entry_of (foldl (\<lambda>s k. run_job cd (Reap k) s) st keys) k
        = (if k \<in> set keys then None else entry_of st k))
    \<and> answers (foldl (\<lambda>s k. run_job cd (Reap k) s) st keys)
        = answers st @ concat (map (timeout_answers st) keys)
    \<and> clock (foldl (\<lambda>s k. run_job cd (Reap k) s) st keys) = clock st
    \<and> timeout_ms (foldl (\<lambda>s k. run_job cd (Reap k) s) st keys) = timeout_ms st"
  using assms
proof (induction keys arbitrary: st)
  case (Cons key keys)
  obtain en where en: "entry_of st key = Some en" "at_state en = UpstreamSent"
    using Cons.prems(2) by auto
  let ?st = "run_job cd (Reap key) st"
  note reaped = run_reap [OF en, of cd]
  have others: "entry_of ?st k = entry_of st k" if "k \<in> set keys" for k
    using that Cons.prems(1) reaped(2) [of k] by auto
  then have same: "map (timeout_answers ?st) keys = map (timeout_answers st) keys"
    by (simp add: timeout_answers_def)
  have "answers ?st = answers st @ timeout_answers st key"
    using reaped(1) en(1) by (simp add: timeout_answers_def)
  moreover have "\<forall>k \<in> set keys. \<exists>en. entry_of ?st k = Some en \<and> at_state en = UpstreamSent"
    using others Cons.prems(2) by simp
  ultimately show ?case
    using Cons.IH [of ?st] Cons.prems(1) reaped(2,4,5) same by auto
qed simp

lemma reaper_scan_entries:
  assumes "distinct (map fst (idempotency_guard st))"
  shows "distinct (reaper_scan st)" "distinct (prune_scan st)"
    and "k \<in> set (reaper_scan st) \<longleftrightarrow> (\<exists>en. entry_of st k = Some en \<and> expired st en)"
    and "k \<in> set (prune_scan st) \<longleftrightarrow> (\<exists>en. entry_of st k = Some en \<and> stale st en)"
  using assms
  by (auto simp: reaper_scan_def prune_scan_def distinct_map_filter map_of_eq_Some_iff image_iff
      split: prod.splits intro!: bexI)

lemma prune_keys:
  "entry_of (foldl (\<lambda>s k. guard_remove k s) st keys) k = (if k \<in> set keys then None else entry_of st k)"
  "answers (foldl (\<lambda>s k. guard_remove k s) st keys) = answers st"
  by (induction keys arbitrary: st) simp_all

lemma run_job_distinct:
  assumes "distinct (map fst (idempotency_guard st))"
  shows "distinct (map fst (idempotency_guard (run_job cd (Reap k) st)))"
  using assms
  by (auto simp: run_job_simps reap_def reap_finish_def Let_def guard_keys_distinct
      split: option.splits)

lemma reap_keys_distinct:
  "distinct (map fst (idempotency_guard st)) \<Longrightarrow>
    distinct (map fst (idempotency_guard (foldl (\<lambda>s k. run_job cd (Reap k) s) st keys)))"
  by (induction keys arbitrary: st) (simp_all add: run_job_distinct)

lemma reaper_pass_entries:
  assumes dist: "distinct (map fst (idempotency_guard st))"
  shows "entry_of (reaper_pass cd st) k =
      (case entry_of st k of None \<Rightarrow> None
       | Some en \<Rightarrow> if expired st en \<or> stale st en then None else Some en)"
    and "answers (reaper_pass cd st) = answers st @ concat (map (timeout_answers st) (reaper_scan st))"
proof -
  let ?st1 = "foldl (\<lambda>s k. run_job cd (Reap k) s) st (reaper_scan st)"
  have "\<forall>k \<in> set (reaper_scan st). \<exists>en. entry_of st k = Some en \<and> at_state en = UpstreamSent"
    using reaper_scan_entries(3) [OF dist] by (auto simp: expired_def)
  note first = reap_keys [OF reaper_scan_entries(1) [OF dist] this, of cd]
  have dist1: "distinct (map fst (idempotency_guard ?st1))"
    using dist by (rule reap_keys_distinct)
  have stale1: "stale ?st1 en = stale st en" for en
    using first by (simp add: stale_def)
  show "answers (reaper_pass cd st) = answers st @ concat (map (timeout_answers st) (reaper_scan st))"
    using first by (simp add: reaper_pass_def prune_keys Let_def)
  show "entry_of (reaper_pass cd st) k =
      (case entry_of st k of None \<Rightarrow> None
       | Some en \<Rightarrow> if expired st en \<or> stale st en then None else Some en)"
    using first reaper_scan_entries(3) [OF dist, of k] reaper_scan_entries(4) [OF dist1, of k] stale1
    by (auto simp: reaper_pass_def prune_keys Let_def split: option.splits)
qed

end
