(* ===== verification/Engine_Steps.thy ===== *)
theory Engine_Steps
  imports Engine "HOL-Library.Multiset"
begin

text \<open>
  The engine as a concurrent system: a step relation that interleaves the pieces of the workers
  of \<open>Engine\<close> with arrivals, bank replies, reloads and the passing of time, and the invariant of
  its reachable states. The invariant follows the one-shot responders: each is held in at most
  one place (a queued context, a guard entry, or the log of answers), so no terminal is
  answered twice however the threads interleave.
\<close>

section \<open>Definitions\<close>

text \<open>
  The engine as it starts: tables empty, the two bank channels open, and the stand-in profiles
  that \<open>stip.db\<close> holds from earlier runs and from \<open>stip_loader\<close>, whatever they are.
\<close>

definition engine_start :: "(bytes \<rightharpoonup> bytes) \<Rightarrow> nat \<Rightarrow> nat \<Rightarrow> engine" where
  "engine_start db timeout threads =
     \<lparr> memory_state = global_state_new\<lparr>egress_channels :=
         [ascii ''MockVisaNode'' \<mapsto> 0, ascii ''MockMastercardNode'' \<mapsto> 1]\<rparr>,
       compliance_cache = Map.empty, idempotency_guard = [], stip_db = db,
       journal = [], journal_open = True, ledger_queue = [], ingress_queue = [], hsm_queue = [],
       bank_replies = [],
       channels = (\<lambda>_. \<lparr>queue = [], capacity = 10000, connected = True\<rparr>),
       answers = [], clock = 0, timeout_ms = timeout, workers = max 1 threads, jobs = [] \<rparr>"

primrec option_list :: "'a option \<Rightarrow> 'a list" where
  "option_list None = []"
| "option_list (Some x) = [x]"

abbreviation add_jobs :: "job list \<Rightarrow> engine \<Rightarrow> engine" where
  "add_jobs js st \<equiv> st\<lparr>jobs := jobs st @ js\<rparr>"

text \<open>Where a responder is held.\<close>

definition opt_mset :: "'a option \<Rightarrow> 'a multiset" where
  "opt_mset v = mset (option_list v)"

definition guard_held :: "(rstring, active_transaction) dashmap \<Rightarrow> nat multiset" where
  "guard_held g = \<Sum>\<^sub># (image_mset (\<lambda>(k, e). opt_mset (at_responder e)) (mset g))"

definition queue_held :: "transaction_context list \<Rightarrow> nat multiset" where
  "queue_held q = \<Sum>\<^sub># (image_mset (\<lambda>c. opt_mset (ctx_responder c)) (mset q))"

definition held :: "engine \<Rightarrow> nat multiset" where
  "held st = queue_held (ingress_queue st) + guard_held (idempotency_guard st) + mset (map fst (answers st))"

text \<open>Configuration changes that the control plane and the network manager make.\<close>

inductive reconfigure :: "engine \<Rightarrow> engine \<Rightarrow> bool" where
  reload_crdb: "reconfigure st (st\<lparr>memory_state := hot_reload_crdb cards (memory_state st)\<rparr>)"
| reload_stip: "reconfigure st (st\<lparr>memory_state := hot_reload_stip rules (memory_state st)\<rparr>)"
| reload_routes: "reconfigure st (st\<lparr>memory_state := hot_reload_routes rows (memory_state st)\<rparr>)"
| sync_sanctions:
    "reconfigure st (st\<lparr>compliance_cache := sync_compliance rows (compliance_cache st)\<rparr>)"
| probe: "probe_nodes i snaps (memory_state st, channels st) = (g, chans) \<Longrightarrow>
    reconfigure st (st\<lparr>memory_state := g, channels := chans\<rparr>)"

inductive engine_step :: "codec \<Rightarrow> hsm \<Rightarrow> engine \<Rightarrow> engine \<Rightarrow> bool" for cd h where
  arrive: "set (option_list (ctx_responder ctx)) \<inter> set_mset (held st) = {} \<Longrightarrow>
    engine_step cd h st (st\<lparr>ingress_queue := ingress_queue st @ [ctx]\<rparr>)"
| ingest: "0 < workers st \<Longrightarrow> ingress_queue st = ctx # rest \<Longrightarrow>
    admit ctx (st\<lparr>ingress_queue := rest\<rparr>) = Ok (st', j) \<Longrightarrow>
    engine_step cd h st (add_jobs (option_list j) st')"
| crash: "0 < workers st \<Longrightarrow> ingress_queue st = ctx # rest \<Longrightarrow>
    admit ctx (st\<lparr>ingress_queue := rest\<rparr>) = Panic \<Longrightarrow>
    engine_step cd h st (st\<lparr>ingress_queue := rest, workers := workers st - 1\<rparr>)"
| work: "jobs st = js1 @ j # js2 \<Longrightarrow> job_step cd j (st\<lparr>jobs := js1 @ js2\<rparr>) = (st', j') \<Longrightarrow>
    engine_step cd h st (add_jobs (option_list j') st')"
| hsm_task: "hsm_queue st = ctx # rest \<Longrightarrow>
    engine_step cd h st (hsm_process h ctx (st\<lparr>hsm_queue := rest\<rparr>))"
| reaper_wakes: "engine_step cd h st (add_jobs (map Reap (reaper_scan st)) st)"
| reaper_prunes: "engine_step cd h st (add_jobs (map Evict (prune_scan st)) st)"
| bank_sends: "engine_step cd h st (st\<lparr>bank_replies := bank_replies st @ [reply]\<rparr>)"
| reply_taken: "bank_replies st = reply # rest \<Longrightarrow>
    bank_reply_key reply (st\<lparr>bank_replies := rest\<rparr>) = (st', key) \<Longrightarrow>
    engine_step cd h st (add_jobs [Reply key reply] st')"
| egress_takes: "queue (channels st ch) = ctx # rest \<Longrightarrow>
    engine_step cd h st (st\<lparr>channels := (channels st)(ch := (channels st ch)\<lparr>queue := rest\<rparr>)\<rparr>)"
| egress_gone:
    "engine_step cd h st (st\<lparr>channels := (channels st)(ch := (channels st ch)\<lparr>connected := False\<rparr>)\<rparr>)"
| journal_gone: "engine_step cd h st (st\<lparr>journal_open := False\<rparr>)"
| time: "engine_step cd h st (st\<lparr>clock := clock st + d\<rparr>)"
| config: "reconfigure st st' \<Longrightarrow> engine_step cd h st st'"

text \<open>Contexts past the guard carry no responder: it was moved into the guard entry.\<close>

fun quiet_job :: "job \<Rightarrow> bool" where
  "quiet_job (Dispatch k ctx) \<longleftrightarrow> ctx_responder ctx = None"
| "quiet_job (RecordStan k ctx ch es) \<longleftrightarrow> ctx_responder ctx = None"
| "quiet_job (Transmit ctx ch) \<longleftrightarrow> ctx_responder ctx = None"
| "quiet_job (StipLookup ctx) \<longleftrightarrow> ctx_responder ctx = None"
| "quiet_job (StipApply ctx found) \<longleftrightarrow> ctx_responder ctx = None"
| "quiet_job _ \<longleftrightarrow> True"

definition response_mtis :: "bytes set" where
  "response_mtis = {ascii ''0110'', ascii ''0430'', ascii ''0810''}"

definition engine_inv :: "engine \<Rightarrow> bool" where
  "engine_inv st \<longleftrightarrow>
     distinct (map fst (idempotency_guard st)) \<and>
     (\<forall>r. count (held st) r \<le> 1) \<and>
     list_all quiet_job (jobs st) \<and>
     list_all (\<lambda>c. ctx_responder c = None) (hsm_queue st) \<and>
     list_all (\<lambda>(r, e). mti e \<in> response_mtis) (answers st)"

section \<open>Responders in the guard\<close>

lemma opt_mset_simps [simp]: "opt_mset None = {#}" "opt_mset (Some x) = {#x#}"
  by (simp_all add: opt_mset_def)

lemma guard_held_Cons [simp]: "guard_held ((k, e) # g) = opt_mset (at_responder e) + guard_held g"
  by (simp add: guard_held_def)

lemma guard_held_Nil [simp]: "guard_held [] = {#}"
  by (simp add: guard_held_def)

lemma queue_held_simps [simp]:
  "queue_held [] = {#}"
  "queue_held (c # q) = opt_mset (ctx_responder c) + queue_held q"
  "queue_held (q @ q') = queue_held q + queue_held q'"
  by (simp_all add: queue_held_def)

lemma delete_absent: "map_of g k = None \<Longrightarrow> AList.delete k g = g"
  by (simp add: delete_id map_of_eq_None_iff dom_map_of_conv_image_fst)

lemma guard_held_split:
  assumes "distinct (map fst g)" and "map_of g k = Some e"
  shows "guard_held g = opt_mset (at_responder e) + guard_held (AList.delete k g)"
    and "guard_held (AList.update k e' g) = opt_mset (at_responder e') + guard_held (AList.delete k g)"
proof -
  have "guard_held g = opt_mset (at_responder e) + guard_held (AList.delete k g) \<and>
    guard_held (AList.update k e' g) = opt_mset (at_responder e') + guard_held (AList.delete k g)"
    using assms
  proof (induction g)
    case (Cons kv g)
    obtain k1 e1 where kv: "kv = (k1, e1)" by (cases kv)
    show ?case
    proof (cases "k1 = k")
      case True
      then have "map_of g k = None" using Cons.prems kv by (auto simp: map_of_eq_None_iff)
      then show ?thesis using True Cons.prems kv by (simp add: delete_absent)
    next
      case False
      then show ?thesis using Cons kv by simp
    qed
  qed simp
  then show "guard_held g = opt_mset (at_responder e) + guard_held (AList.delete k g)"
    and "guard_held (AList.update k e' g) = opt_mset (at_responder e') + guard_held (AList.delete k g)"
    by simp_all
qed

lemma held_guard_remove:
  assumes "distinct (map fst (idempotency_guard st))"
  shows "held (guard_remove k st) \<subseteq># held st"
proof (cases "entry_of st k")
  case None
  then show ?thesis by (simp add: guard_remove_def delete_absent held_def)
next
  case (Some e)
  then show ?thesis
    using guard_held_split(1) [OF assms Some] by (simp add: guard_remove_def held_def)
qed

lemma held_guard_modify:
  assumes "distinct (map fst (idempotency_guard st))" and "\<And>e. at_responder (f e) = at_responder e"
  shows "held (guard_modify k f st) = held st"
  using guard_held_split [OF assms(1)] assms(2)
  by (auto simp: guard_modify_def held_def split: option.splits)

text \<open>Taking the responder out of an entry and answering it keeps it held exactly once.\<close>

lemma held_take_respond:
  assumes "distinct (map fst (idempotency_guard st))" and "entry_of st k = Some en"
    and "\<And>e. at_responder (f e) = None"
  shows "held (guard_modify k f (respond (at_responder en) reply st)) = held st"
  using guard_held_split [OF assms(1,2)] assms(2,3)
  by (cases "at_responder en") (simp_all add: guard_modify_def held_def respond_def)

section \<open>The pieces preserve the invariant\<close>

abbreviation answers_ok :: "engine \<Rightarrow> bool" where
  "answers_ok st \<equiv> list_all (\<lambda>(r, e). mti e \<in> response_mtis) (answers st)"

abbreviation hsm_quiet :: "engine \<Rightarrow> bool" where
  "hsm_quiet st \<equiv> list_all (\<lambda>c. ctx_responder c = None) (hsm_queue st)"

abbreviation keys_distinct :: "engine \<Rightarrow> bool" where
  "keys_distinct st \<equiv> distinct (map fst (idempotency_guard st))"

text \<open>\<open>evolves extra st st'\<close>: no responder appears that \<open>st\<close> or \<open>extra\<close> did not hold.\<close>

definition evolves :: "nat multiset \<Rightarrow> engine \<Rightarrow> engine \<Rightarrow> bool" where
  "evolves extra st st' \<longleftrightarrow>
     (keys_distinct st \<longrightarrow> keys_distinct st' \<and> held st' \<subseteq># held st + extra) \<and>
     jobs st' = jobs st \<and> (hsm_quiet st \<longrightarrow> hsm_quiet st') \<and> (answers_ok st \<longrightarrow> answers_ok st')"

lemma evolves_trans:
  assumes "evolves m st st'" and "evolves {#} st' st''"
  shows "evolves m st st''" "evolves m st' st'' \<Longrightarrow> evolves {#} st st' \<Longrightarrow> evolves m st st''"
  using assms by (auto simp: evolves_def intro: subset_mset.trans)

lemma evolves_then: "evolves {#} st st' \<Longrightarrow> evolves m st' st'' \<Longrightarrow> evolves m st st''"
  by (auto simp: evolves_def intro: subset_mset.trans subset_mset.add_right_mono)

text \<open>Updates of anything but guard, answers and queues.\<close>

lemma evolves_frame:
  "idempotency_guard st' = idempotency_guard st \<Longrightarrow> answers st' = answers st \<Longrightarrow>
    ingress_queue st' = ingress_queue st \<Longrightarrow> jobs st' = jobs st \<Longrightarrow> hsm_queue st' = hsm_queue st \<Longrightarrow>
    evolves m st st'"
  by (simp add: evolves_def held_def)

lemma evolves_remove: "evolves {#} st (guard_remove k st)"
  using held_guard_remove guard_keys_distinct(2)
  by (auto simp: evolves_def guard_remove_def)

lemma evolves_modify:
  assumes "\<And>e. at_responder (f e) = at_responder e"
  shows "evolves {#} st (guard_modify k f st)"
proof -
  have "jobs (guard_modify k f st) = jobs st" "hsm_queue (guard_modify k f st) = hsm_queue st"
    by (simp_all add: guard_modify_def split: option.splits)
  then show ?thesis
    using held_guard_modify [OF _ assms] guard_keys_distinct(1) by (simp add: evolves_def)
qed

lemma respond_queues [simp]:
  "jobs (respond r e st) = jobs st" "hsm_queue (respond r e st) = hsm_queue st"
  "ingress_queue (respond r e st) = ingress_queue st"
  by (simp_all add: respond_def split: option.splits)

lemma evolves_respond:
  assumes "mti e \<in> response_mtis"
  shows "evolves (opt_mset r) st (respond r e st)"
  using assms by (cases r) (simp_all add: evolves_def held_def)

lemma evolves_take_respond:
  assumes "entry_of st k = Some en" and "\<And>e. at_responder (f e) = None" and "mti reply \<in> response_mtis"
  shows "evolves {#} st (guard_modify k f (respond (at_responder en) reply st))"
proof -
  let ?st = "guard_modify k f (respond (at_responder en) reply st)"
  have "jobs ?st = jobs st" "hsm_queue ?st = hsm_queue st"
    by (simp_all add: guard_modify_def split: option.splits)
  then show ?thesis
    using held_take_respond [OF _ assms(1,2)] assms(3) guard_keys_distinct(1)
    by (auto simp: evolves_def split: option.splits)
qed

lemma response_mti [simp]:
  "ascii ''0110'' \<in> response_mtis" "ascii ''0430'' \<in> response_mtis" "ascii ''0810'' \<in> response_mtis"
  "mti (decline_of tx c) \<in> response_mtis" "mti (timeout_reply d) \<in> response_mtis"
  "mti (approval_of r) \<in> response_mtis"
  by (simp_all add: response_mtis_def decline_of_def timeout_reply_def approval_of_def from_pb_def)

lemma mark_reversed_frame:
  "map fst (fst (mark_reversed tx s g)) = map fst g"
  "guard_held (fst (mark_reversed tx s g)) = guard_held g"
  by (induction tx s g rule: mark_reversed.induct) (auto split: prod.splits)

lemma evolves_reversal:
  assumes "apply_reversal tx st = Ok st'"
  shows "evolves {#} st st'"
proof -
  consider "st' = st" | s where "st' = st\<lparr>
      idempotency_guard := fst (mark_reversed tx s (idempotency_guard st)),
      ledger_queue := ledger_queue st @ snd (mark_reversed tx s (idempotency_guard st))\<rparr>"
    using assms by (auto simp: apply_reversal_def bindo_eq_Ok case_prod_beta split: option.splits)
  then show ?thesis
    by cases (simp_all add: evolves_def held_def mark_reversed_frame)
qed

lemma guard_or_duplicate_evolves:
  assumes "guard_or_duplicate key ctx st = (st', j)"
  shows "evolves (opt_mset (ctx_responder ctx)) st st'" and "list_all quiet_job (option_list j)"
proof -
  show "list_all quiet_job (option_list j)"
    using assms by (auto simp: guard_or_duplicate_def Let_def split: option.splits)
  show "evolves (opt_mset (ctx_responder ctx)) st st'"
  proof (cases "entry_of st key")
    case None
    let ?en = "\<lparr>created_at = clock st, at_state = UpstreamSent, at_responder = ctx_responder ctx,
      transaction_data = to_pb (ctx_transaction ctx), egress_stan = None\<rparr>"
    have "st' = st\<lparr>idempotency_guard := (key, ?en) # idempotency_guard st\<rparr>"
      using None assms by (simp add: guard_or_duplicate_def Let_def)
    moreover have "key \<notin> fst ` set (idempotency_guard st)"
      using None by (simp add: map_of_eq_None_iff)
    ultimately show ?thesis by (simp add: evolves_def held_def)
  next
    case (Some e)
    then have "st' = respond (ctx_responder ctx) (decline_of (ctx_transaction ctx) (ascii ''94'')) st"
      using assms by (simp add: guard_or_duplicate_def Let_def)
    then show ?thesis by (simp add: evolves_respond)
  qed
qed

lemma admit_screened_evolves:
  assumes "admit_screened key ctx st = Ok (st', j)"
  shows "evolves (opt_mset (ctx_responder ctx)) st st' \<and> list_all quiet_job (option_list j)"
proof -
  consider e where "st' = respond (ctx_responder ctx) e st" "mti e \<in> response_mtis" "j = None"
    | st1 e where "apply_reversal (ctx_transaction ctx) st = Ok st1"
      "st' = respond (ctx_responder ctx) e st1" "mti e \<in> response_mtis" "j = None"
    | "guard_or_duplicate key ctx st = (st', j)"
    using assms
    by (auto simp: admit_screened_def Let_def bindo_eq_Ok split: if_splits)
  then show ?thesis
  proof cases
    case 1
    then show ?thesis by (simp add: evolves_respond)
  next
    case 2
    then show ?thesis using evolves_then [OF evolves_reversal evolves_respond] by simp
  next
    case 3
    then show ?thesis using guard_or_duplicate_evolves by blast
  qed
qed

lemma admit_evolves:
  assumes "admit ctx st = Ok (st', j)"
  shows "evolves (opt_mset (ctx_responder ctx)) st st' \<and> list_all quiet_job (option_list j)"
proof -
  consider e where "st' = respond (ctx_responder ctx) e st" "mti e \<in> response_mtis" "j = None"
    | key tx1 where "admit_screened key (ctx\<lparr>ctx_transaction := tx1\<rparr>) st = Ok (st', j)"
    using assms
    by (auto simp: admit_def Let_def bindo_eq_Ok split: if_splits option.splits)
  then show ?thesis
  proof cases
    case 1
    then show ?thesis by (simp add: evolves_respond)
  next
    case 2
    then show ?thesis using admit_screened_evolves by fastforce
  qed
qed

lemma evolves_decline_unrouted: "evolves {#} st (decline_unrouted key tx st)"
  using evolves_take_respond [of st key _ "\<lambda>e. e\<lparr>at_responder := None, at_state := Completed\<rparr>"]
  by (auto simp: decline_unrouted_def evolves_frame split: option.splits)

lemma dispatch_evolves:
  assumes "ctx_responder ctx = None" and "dispatch key ctx st = (st', j)"
  shows "evolves {#} st st' \<and> list_all quiet_job (option_list j)"
proof -
  let ?tx = "ctx_transaction ctx"
  consider "st' = st\<lparr>hsm_queue := hsm_queue st @ [ctx]\<rparr>" "j = None"
    | "st' = st" "j = None"
    | g es ch where "st' = st\<lparr>journal := journal st @ [to_pb ?tx], memory_state := g\<rparr>"
        "j = Some (RecordStan key (ctx\<lparr>ctx_transaction := ?tx\<lparr>stan := es\<rparr>\<rparr>) ch es)"
    | "st' = decline_unrouted key ?tx (st\<lparr>journal := journal st @ [to_pb ?tx]\<rparr>)" "j = Some (Evict key)"
    using assms(2)
    by (auto simp: dispatch_def journal_append_def Let_def split: if_splits option.splits prod.splits)
  then show ?thesis
  proof cases
    case 4
    moreover have "evolves {#} st (st\<lparr>journal := journal st @ [to_pb ?tx]\<rparr>)"
      by (rule evolves_frame) simp_all
    ultimately show ?thesis
      using evolves_then [OF _ evolves_decline_unrouted] by simp
  qed (use assms(1) in \<open>simp_all add: evolves_frame\<close>, simp add: evolves_def held_def)
qed

lemma record_stan_evolves: "evolves {#} st (fst (record_stan key ctx ch es st))"
  by (simp add: record_stan_def evolves_modify)

lemma transmit_evolves:
  assumes "ctx_responder ctx = None" and "transmit ctx ch st = (st', j)"
  shows "evolves {#} st st' \<and> list_all quiet_job (option_list j)"
  using assms
  by (auto simp: transmit_def ledger_send_def Let_def intro!: evolves_frame split: option.splits)

lemma stip_fallback_evolves:
  assumes "ctx_responder ctx = None"
  shows "evolves {#} st (stip_fallback cd ctx found st)"
  using assms
  by (auto simp: stip_fallback_def journal_append_def respond_def Let_def
      intro!: evolves_frame split: option.splits prod.splits if_splits)

lemma evolves_send_reversal: "evolves {#} st (send_reversal d st)"
  by (rule evolves_frame)
     (simp_all add: send_reversal_def Let_def split: option.splits route_destination.splits)

lemma reap_evolves:
  assumes "reap key st = (st', j)"
  shows "evolves {#} st st' \<and> list_all quiet_job (option_list j)"
proof (cases "\<exists>en. entry_of st key = Some en \<and> at_state en = UpstreamSent")
  case True
  then obtain en where en: "entry_of st key = Some en" "at_state en = UpstreamSent" by blast
  let ?f = "\<lambda>e. e\<lparr>at_state := Reversed, egress_stan := None, at_responder := None\<rparr>"
  have "evolves {#} st (guard_modify key ?f (respond (at_responder en) (timeout_reply (transaction_data en)) st))"
    using en(1) by (intro evolves_take_respond) simp_all
  then show ?thesis
    using assms en evolves_then [OF _ evolves_send_reversal] by (auto simp: reap_def)
next
  case False
  then show ?thesis using assms by (auto simp: reap_def evolves_frame split: option.splits if_splits)
qed

lemma evolves_nat_remove: "evolves {#} st (nat_remove es st)"
  by (rule evolves_frame) (simp_all add: nat_remove_def)

lemma reap_finish_evolves: "evolves {#} st (reap_finish key es did st)"
  using evolves_then [OF evolves_nat_remove evolves_remove]
  by (auto simp: reap_finish_def Let_def evolves_remove evolves_nat_remove evolves_frame split: option.splits)

lemma respond_modify: "respond r e (guard_modify k f st) = guard_modify k f (respond r e st)"
  by (simp add: respond_def guard_modify_def split: option.splits)

lemma bank_reply_evolves:
  assumes "bank_reply key reply st = (st', j)"
  shows "evolves {#} st st' \<and> list_all quiet_job (option_list j)"
proof -
  let ?st1 = "guard_modify key (\<lambda>e. e\<lparr>at_state := Completed\<rparr>) st"
  let ?st2 = "?st1\<lparr>journal := journal ?st1 @ [reply]\<rparr>"
  consider "st' = st" "list_all quiet_job (option_list j)" | "st' = ?st1" "j = None"
    | en where "entry_of st key = Some en" "j = Some (Evict key)" "st' = respond (at_responder en)
        (approval_of reply) (guard_modify key (\<lambda>e. e\<lparr>at_responder := None\<rparr>) ?st2)"
    using assms
    by (auto simp: bank_reply_def journal_append_def approval_of_def Let_def split: option.splits if_splits)
  then show ?thesis
  proof cases
    case 1
    then show ?thesis by (simp add: evolves_frame)
  next
    case 2
    then show ?thesis by (simp add: evolves_modify)
  next
    case 3
    have "evolves {#} st ?st1" by (simp add: evolves_modify)
    also have "evolves {#} ?st1 ?st2" by (rule evolves_frame) simp_all
    also (evolves_then) have "evolves {#} ?st2 (guard_modify key (\<lambda>e. e\<lparr>at_responder := None\<rparr>)
        (respond (at_responder (en\<lparr>at_state := Completed\<rparr>)) (approval_of reply) ?st2))"
      using 3(1) by (intro evolves_take_respond) simp_all
    finally (evolves_then) show ?thesis
      using 3(2,3) by (simp add: respond_modify)
  qed
qed

lemma job_step_evolves:
  assumes "quiet_job j" and "job_step cd j st = (st', j')"
  shows "evolves {#} st st' \<and> list_all quiet_job (option_list j')"
proof (cases j)
  case (Dispatch key ctx)
  then show ?thesis using assms dispatch_evolves by simp
next
  case (RecordStan key ctx ch es)
  then show ?thesis
    using assms record_stan_evolves [of st key ctx ch es] by (auto simp: record_stan_def)
next
  case (Transmit ctx ch)
  then show ?thesis using assms transmit_evolves by simp
next
  case (StipLookup ctx)
  then show ?thesis using assms by (auto simp: stip_lookup_def intro!: evolves_frame)
next
  case (StipApply ctx found)
  then show ?thesis using assms stip_fallback_evolves by auto
next
  case (Evict key)
  then show ?thesis using assms evolves_remove by auto
next
  case (Reap key)
  then show ?thesis using assms reap_evolves by simp
next
  case (ReapFinish key es did)
  then show ?thesis using assms reap_finish_evolves by auto
next
  case (Reply key reply)
  then show ?thesis using assms bank_reply_evolves by simp
qed

lemma hsm_process_evolves:
  assumes "ctx_responder ctx = None"
  shows "evolves {#} st (hsm_process h ctx st)"
  using assms
  by (auto simp: hsm_process_def journal_append_def respond_def intro!: evolves_frame
      split: outcome.splits option.splits)

lemma bank_reply_key_evolves: "bank_reply_key reply st = (st', key) \<Longrightarrow> evolves {#} st st'"
  using evolves_nat_remove [of st "pb_stan reply"] by (simp add: bank_reply_key_def Let_def)

lemma reconfigure_evolves: "reconfigure st st' \<Longrightarrow> evolves {#} st st'"
  by (erule reconfigure.cases) (simp_all add: evolves_frame)

section \<open>Reachable states\<close>

lemma inv_evolves:
  assumes "engine_inv st" and "evolves {#} st st'"
  shows "engine_inv st'"
proof -
  have "held st' \<subseteq># held st" using assms by (simp add: engine_inv_def evolves_def)
  then have "count (held st') r \<le> 1" for r
    using assms(1) mset_subset_eq_count order_trans unfolding engine_inv_def by metis
  then show ?thesis using assms by (simp add: engine_inv_def evolves_def)
qed

lemma inv_jobs:
  "engine_inv st \<Longrightarrow> list_all quiet_job js \<Longrightarrow> engine_inv (st\<lparr>jobs := js\<rparr>)"
  by (simp add: engine_inv_def held_def)

lemma inv_add_jobs: "engine_inv st \<Longrightarrow> list_all quiet_job js \<Longrightarrow> engine_inv (add_jobs js st)"
  by (simp add: engine_inv_def held_def)

lemma inv_pop_ingress:
  assumes "engine_inv st" and "ingress_queue st = ctx # rest"
  shows "engine_inv (st\<lparr>ingress_queue := rest\<rparr>)"
    and "count (held (st\<lparr>ingress_queue := rest\<rparr>) + opt_mset (ctx_responder ctx)) r \<le> 1"
proof -
  have split: "held st = held (st\<lparr>ingress_queue := rest\<rparr>) + opt_mset (ctx_responder ctx)"
    using assms(2) by (simp add: held_def)
  then show "count (held (st\<lparr>ingress_queue := rest\<rparr>) + opt_mset (ctx_responder ctx)) r \<le> 1"
    using assms(1) unfolding engine_inv_def by metis
  have "held (st\<lparr>ingress_queue := rest\<rparr>) \<subseteq># held st" using split by simp
  then have "evolves {#} st (st\<lparr>ingress_queue := rest\<rparr>)" by (simp add: evolves_def)
  then show "engine_inv (st\<lparr>ingress_queue := rest\<rparr>)" by (rule inv_evolves [OF assms(1)])
qed

lemma engine_step_inv:
  assumes "engine_step cd h st st'" and "engine_inv st"
  shows "engine_inv st'"
  using assms
proof cases
  case (arrive ctx)
  then have "held st' = held st + opt_mset (ctx_responder ctx)" by (simp add: held_def)
  moreover have "count (held st) r = 0" if "ctx_responder ctx = Some r" for r
    using arrive(2) that by (simp add: not_in_iff)
  ultimately have "count (held st') r \<le> 1" for r
    using assms(2) by (cases "ctx_responder ctx") (auto simp: engine_inv_def)
  then show ?thesis using assms(2) arrive(1) by (simp add: engine_inv_def)
next
  case (ingest ctx rest st1 j)
  let ?st = "st\<lparr>ingress_queue := rest\<rparr>"
  have ev: "evolves (opt_mset (ctx_responder ctx)) ?st st1" and q: "list_all quiet_job (option_list j)"
    using admit_evolves [OF ingest(4)] by simp_all
  note pop = inv_pop_ingress [OF assms(2) ingest(3)]
  have "held st1 \<subseteq># held ?st + opt_mset (ctx_responder ctx)"
    using ev pop(1) by (simp add: engine_inv_def evolves_def)
  then have "count (held st1) r \<le> 1" for r
    using pop(2) [of r] mset_subset_eq_count order_trans by metis
  then have "engine_inv st1"
    using ev pop(1) by (simp add: engine_inv_def evolves_def)
  then show ?thesis using q ingest(1) by (simp add: inv_add_jobs)
next
  case (crash ctx rest)
  then show ?thesis
    using inv_pop_ingress(1) [OF assms(2) crash(3)] by (simp add: engine_inv_def held_def)
next
  case (work js1 j js2 st1 j')
  have "engine_inv (st\<lparr>jobs := js1 @ js2\<rparr>)" and "quiet_job j"
    using assms(2) work(2) by (auto simp: engine_inv_def held_def)
  then show ?thesis
    using job_step_evolves [OF _ work(3)] inv_evolves work(1) by (simp add: inv_add_jobs)
next
  case (hsm_task ctx rest)
  then have "engine_inv (st\<lparr>hsm_queue := rest\<rparr>)" and "ctx_responder ctx = None"
    using assms(2) by (auto simp: engine_inv_def held_def)
  then show ?thesis using hsm_process_evolves inv_evolves hsm_task(1) by blast
next
  case (reply_taken reply rest st1 key)
  have "engine_inv (st\<lparr>bank_replies := rest\<rparr>)"
    using assms(2) by (simp add: engine_inv_def held_def)
  then show ?thesis
    using bank_reply_key_evolves [OF reply_taken(3)] inv_evolves reply_taken(1)
    by (simp add: inv_add_jobs)
next
  case config
  then show ?thesis using reconfigure_evolves inv_evolves assms(2) by blast
qed (auto simp: engine_inv_def held_def list_all_iff)

lemma engine_start_inv: "engine_inv (engine_start db timeout threads)"
  by (simp add: engine_inv_def engine_start_def held_def)

lemma reachable_inv:
  "(engine_step cd h)\<^sup>*\<^sup>* (engine_start db timeout threads) st \<Longrightarrow> engine_inv st"
  by (induction rule: rtranclp_induct) (auto intro: engine_start_inv engine_step_inv)

lemma inv_answers_distinct: "engine_inv st \<Longrightarrow> distinct (map fst (answers st))"
proof -
  assume "engine_inv st"
  moreover have "count (mset (map fst (answers st))) r \<le> count (held st) r" for r
    by (simp add: held_def)
  ultimately have "count (mset (map fst (answers st))) r \<le> 1" for r
    unfolding engine_inv_def using order_trans by blast
  then show ?thesis
    unfolding distinct_count_atmost_1
    by (metis count_mset_0_iff le_antisym less_one not_less)
qed

end
