(* ===== verification/Engine_Properties.thy ===== *)
theory Engine_Properties
  imports Engine_Steps
begin

text \<open>
  What the switch engine guarantees, stated over the whole handlers of \<open>Engine\<close> and the
  reachable states of \<open>Engine_Steps\<close>, with concrete instances: a sample engine that routes
  card numbers starting with 4 to the Visa channel, and a sample authorization.
\<close>

section \<open>Sample state\<close>

definition sample_event :: event where
  "sample_event = (blank_event Authorization (ascii ''0100'') False False)
     \<lparr> fpan := ascii ''4111'', amount := 500, stan := ascii ''123456'',
       rrn := ascii ''000000000001'', acquirer_id := ascii ''ACQ'' \<rparr>"

definition sample_engine :: engine where
  "sample_engine = (let st = engine_start Map.empty 1500 4 in st\<lparr>memory_state :=
     hot_reload_routes [\<lparr>bin_prefix = ascii ''4'', destination_type = ascii ''ExternalNode'',
       target_node = Some (ascii ''MockVisaNode''), row_failover_node = None\<rparr>] (memory_state st)\<rparr>)"

definition sample_context :: transaction_context where
  "sample_context = \<lparr>ctx_transaction = sample_event, ctx_responder = Some 7\<rparr>"

definition sample_reply :: transaction where
  "sample_reply = (to_pb sample_event)\<lparr>pb_mti := ascii ''0110'', pb_stan := ascii ''000000'',
     pb_response_code := ascii ''00''\<rparr>"

definition sample_entry :: active_transaction where
  "sample_entry = \<lparr> created_at = 0, at_state = UpstreamSent, at_responder = Some 7,
     transaction_data = to_pb sample_event, egress_stan = Some (ascii ''000000'') \<rparr>"

definition guarded_engine :: "nat \<Rightarrow> engine" where
  "guarded_engine now = sample_engine\<lparr>clock := now,
     idempotency_guard := [(context_key sample_context, sample_entry)]\<rparr>"

definition sample_codec :: codec where
  "sample_codec =
     \<lparr> serialize = (\<lambda>p. (if profile_is_blocked p then 1 else 0) # to_be_bytes 8 (unat (profile_balance p))),
       deserialize = (\<lambda>bs. case bs of [] \<Rightarrow> None
         | b # r \<Rightarrow> Some \<lparr>profile_balance = of_nat (from_be_bytes r), profile_is_blocked = (b = 1)\<rparr>) \<rparr>"

lemmas sample_defs = sample_engine_def sample_context_def sample_event_def engine_start_def
  global_state_new_def hot_reload_routes_def blank_event_def Let_def

lemma sample_clears: "clears_screening sample_engine sample_context sample_event"
  by (simp add: clears_screening_def sample_defs compliance_evaluate_def ascii_def valid_utf8_ascii
      tsp_intercept_def risk_declined_def)

lemma sample_route: "select_egress (memory_state sample_engine) sample_event = Some 0"
  by (simp add: sample_defs select_egress_def trie_find_compiled rows_map_def row_route_def
      row_destination_def ascii_def select_node_def is_online_def)

lemma sample_forwardable:
  "entry_of sample_engine (context_key sample_context) = None"
  "pin_block sample_event = []" "mac_data sample_event = None" "journal_open sample_engine"
  "answers sample_engine = []" "journal sample_engine = []" "ledger_queue sample_engine = []"
  "idempotency_guard sample_engine = []" "ctx_responder sample_context = Some 7"
  "ctx_transaction sample_context = sample_event"
  by (simp_all add: sample_defs)

lemma sample_room:
  "try_send (outbound sample_engine sample_event) (channels sample_engine 0)
    = Some ((channels sample_engine 0)\<lparr>queue := [outbound sample_engine sample_event]\<rparr>)"
  by (simp add: try_send_def sample_engine_def engine_start_def Let_def)

lemma format_zero: "format_padded 6 0 = ascii ''000000''"
  by code_simp

lemma sample_stan: "next_egress_stan (memory_state sample_engine) = ascii ''000000''"
proof -
  have "stan_counter (memory_state sample_engine) = 0" by (simp add: sample_defs)
  then show ?thesis by (simp add: next_egress_stan_def format_zero)
qed

lemma sample_codec_roundtrip: "deserialize sample_codec (serialize sample_codec p) = Some p"
proof -
  have "unat (profile_balance p) < 2 ^ 64"
    using unsigned_less [of "profile_balance p", where 'a = nat] by simp
  then have "from_be_bytes (to_be_bytes 8 (unat (profile_balance p))) = unat (profile_balance p)"
    by (simp add: from_be_to_be_bytes)
  then show ?thesis by (simp add: sample_codec_def)
qed

section \<open>Forwarding and replies\<close>

text \<open>
  C6. Forwarding and the reply form a round trip through the STAN translation. A transaction that
  passes the screens and has a route and room in its channel is forwarded under the next egress
  STAN; when the bank's reply echoes that STAN, the RRN and the acquirer, the terminal that sent
  the transaction, and nobody else, receives the bank's reply, both messages are in the journal,
  the guard is as it was before the transaction and the translation entry is gone.
\<close>

theorem forward_reply_roundtrip:
  assumes "clears_screening st ctx tx" and "entry_of st (context_key ctx) = None"
    and "pin_block tx = []" and "mac_data tx = None" and "journal_open st"
    and "select_egress (memory_state st) tx = Some ch"
    and "try_send (outbound st tx) (channels st ch) = Some c"
    and "ctx_responder ctx = Some r"
    and "pb_stan reply = next_egress_stan (memory_state st)"
    and "pb_rrn reply = rrn tx" and "pb_acquirer_id reply = from_utf8_lossy (acquirer_id tx)"
  shows "let st' = process_bank_reply cd reply (process_transaction cd ctx st) in
    answers st' = answers st @ [(r, approval_of reply)] \<and>
    journal st' = journal st @ [to_pb tx, reply] \<and>
    entry_of st' = entry_of st \<and>
    stan_nat (memory_state st') = (stan_nat (memory_state st))(next_egress_stan (memory_state st) := None) \<and>
    channels (process_transaction cd ctx st) ch = c"
  using assms by (rule forward_then_reply)

theorem forward_reply_roundtrip_witness:
  "answers (process_bank_reply sample_codec sample_reply
      (process_transaction sample_codec sample_context sample_engine))
    = [(7, approval_of sample_reply)]"
proof -
  have room: "try_send (outbound sample_engine sample_event) (channels sample_engine 0)
      = Some ((channels sample_engine 0)\<lparr>queue := [outbound sample_engine sample_event]\<rparr>)"
    by (simp add: try_send_def sample_engine_def engine_start_def Let_def)
  have "answers sample_engine = []" by (simp add: sample_defs)
  moreover have "pb_stan sample_reply = next_egress_stan (memory_state sample_engine)"
    by (simp only: sample_stan) (simp add: sample_reply_def)
  ultimately show ?thesis
    using forward_reply_roundtrip [OF sample_clears _ _ _ _ sample_route room, of 7 sample_reply]
    by (simp add: sample_reply_def to_pb_def) (simp add: sample_defs)
qed

section \<open>Timeouts\<close>

text \<open>
  C8. A reaper pass settles exactly the transactions that are due. Every entry that has waited for
  the bank longer than the timeout is gone and its terminal has received response code 68; entries
  that are neither expired nor stale are untouched; and the answers added are those of the
  expired entries, one each.
\<close>

theorem reaper_pass_settles_expired:
  assumes "keys_distinct st"
  shows "(\<forall>k en. entry_of st k = Some en \<and> expired st en \<longrightarrow>
      entry_of (reaper_pass cd st) k = None \<and>
      (\<forall>r. at_responder en = Some r \<longrightarrow>
        (r, timeout_reply (transaction_data en)) \<in> set (answers (reaper_pass cd st)))) \<and>
    (\<forall>k en. entry_of st k = Some en \<and> \<not> expired st en \<and> \<not> stale st en \<longrightarrow>
      entry_of (reaper_pass cd st) k = Some en) \<and>
    (\<forall>k. entry_of st k = None \<longrightarrow> entry_of (reaper_pass cd st) k = None) \<and>
    answers (reaper_pass cd st) = answers st @ concat (map (timeout_answers st) (reaper_scan st)) \<and>
    (\<forall>d. response_code (timeout_reply d) = ascii ''68'')"
proof (intro conjI allI impI)
  note pass = reaper_pass_entries [OF assms, of cd]
  show "answers (reaper_pass cd st) = answers st @ concat (map (timeout_answers st) (reaper_scan st))"
    by (rule pass(2))
  show "response_code (timeout_reply d) = ascii ''68''" for d
    by (simp add: timeout_reply_def from_pb_def)
  show "entry_of st k = None \<Longrightarrow> entry_of (reaper_pass cd st) k = None" for k
    by (simp add: pass(1))
  show "entry_of (reaper_pass cd st) k = Some en"
    if "entry_of st k = Some en \<and> \<not> expired st en \<and> \<not> stale st en" for k en
    using that by (simp add: pass(1))
  fix k en
  assume due: "entry_of st k = Some en \<and> expired st en"
  then show "entry_of (reaper_pass cd st) k = None" by (simp add: pass(1))
  fix r
  assume "at_responder en = Some r"
  then have "(r, timeout_reply (transaction_data en)) \<in> set (timeout_answers st k)"
    using due by (simp add: timeout_answers_def)
  moreover have "k \<in> set (reaper_scan st)"
    using due reaper_scan_entries(3) [OF assms] by blast
  ultimately show "(r, timeout_reply (transaction_data en)) \<in> set (answers (reaper_pass cd st))"
    by (auto simp: pass(2))
qed

theorem reaper_pass_settles_expired_witness:
  "entry_of (reaper_pass sample_codec (guarded_engine 1501)) (context_key sample_context) = None
    \<and> entry_of (reaper_pass sample_codec (guarded_engine 1500)) (context_key sample_context) = Some sample_entry"
proof -
  have dist: "keys_distinct (guarded_engine n)" for n by (simp add: guarded_engine_def)
  have entry: "entry_of (guarded_engine n) (context_key sample_context) = Some sample_entry" for n
    by (simp add: guarded_engine_def)
  have "expired (guarded_engine 1501) sample_entry" "\<not> expired (guarded_engine 1500) sample_entry"
    "\<not> stale (guarded_engine 1500) sample_entry"
    by (simp_all add: expired_def stale_def guarded_engine_def sample_engine_def engine_start_def
        sample_entry_def Let_def)
  then show ?thesis
    using reaper_pass_settles_expired [OF dist, of 1501 sample_codec]
      reaper_pass_settles_expired [OF dist, of 1500 sample_codec] entry by blast
qed

text \<open>
  A reversed transaction is not settled by the reaper. The reaper leaves an entry that a
  reversal has marked \<open>ReversedPending\<close> in the guard at any age, and a bank reply that arrives
  for it afterwards is still delivered to the terminal as the bank's approval.
\<close>

theorem reversed_pending_outlives_reaper:
  assumes "keys_distinct st" and "entry_of st k = Some en" and "at_state en = ReversedPending"
    and "k = guard_key (pb_rrn reply) (pb_stan reply) (pb_acquirer_id reply)"
    and "stan_nat (memory_state st) (pb_stan reply) = None"
    and "at_responder en = Some r" and "journal_open st"
  shows "entry_of (reaper_pass cd st) k = Some en
    \<and> (r, approval_of reply) \<in> set (answers (process_bank_reply cd reply st))"
proof
  show "entry_of (reaper_pass cd st) k = Some en"
    using assms(2,3) by (simp add: reaper_pass_entries [OF assms(1)] expired_def stale_def)
  let ?st = "nat_remove (pb_stan reply) st"
  have "process_bank_reply cd reply st = run_job cd (Reply k reply) ?st"
    using assms(4,5) by (simp add: process_bank_reply_def bank_reply_key_def Let_def)
  moreover have "entry_of ?st k = Some en" "at_state en \<noteq> Reversed" "journal_open ?st"
    using assms(2,3,7) by simp_all
  ultimately show "(r, approval_of reply) \<in> set (answers (process_bank_reply cd reply st))"
    using run_reply(1) [of ?st k en cd reply] assms(6) by simp
qed

theorem reversed_pending_outlives_reaper_witness:
  "entry_of (reaper_pass sample_codec ((guarded_engine 999999)\<lparr>idempotency_guard :=
      [(context_key sample_context, sample_entry\<lparr>at_state := ReversedPending\<rparr>)]\<rparr>))
    (context_key sample_context) = Some (sample_entry\<lparr>at_state := ReversedPending\<rparr>)"
proof -
  let ?en = "sample_entry\<lparr>at_state := ReversedPending\<rparr>"
  let ?st = "(guarded_engine 999999)\<lparr>idempotency_guard := [(context_key sample_context, ?en)]\<rparr>"
  have "stan_nat (memory_state ?st) = Map.empty" and "journal_open ?st"
    by (simp_all add: guarded_engine_def sample_engine_def engine_start_def global_state_new_def
        hot_reload_routes_def Let_def)
  moreover have "context_key sample_context = guard_key (pb_rrn (to_pb sample_event))
      (pb_stan (to_pb sample_event)) (pb_acquirer_id (to_pb sample_event))"
    by (simp add: context_key_def sample_context_def to_pb_def Let_def)
  ultimately show ?thesis
    using reversed_pending_outlives_reaper [of ?st "context_key sample_context" ?en "to_pb sample_event" 7]
    by (simp add: sample_entry_def)
qed

section \<open>Screening, duplicates and missing routes\<close>

text \<open>
  C22. A repeated transaction is declined once and has no other effect: while an entry with the
  same RRN, STAN and acquirer is guarded, a transaction that passes the screens is answered with
  code 94 and guard, journal, channels, ledger and shared state stay as they are.
\<close>

theorem duplicate_declined:
  assumes "clears_screening st ctx tx" and "entry_of st (context_key ctx) \<noteq> None"
    and "ctx_responder ctx = Some r"
  shows "process_transaction cd ctx st = st\<lparr>answers := answers st @ [(r, decline_of tx (ascii ''94''))]\<rparr>"
  using assms
  by (auto simp: process_transaction_def admit_clear guard_or_duplicate_def respond_def Let_def)

theorem duplicate_declined_witness:
  "answers (process_transaction sample_codec sample_context (guarded_engine 10))
    = [(7, decline_of sample_event (ascii ''94''))]"
proof -
  have "clears_screening (guarded_engine 10) sample_context sample_event"
    using sample_clears by (simp add: clears_screening_def guarded_engine_def)
  moreover have "answers (guarded_engine 10) = []" and "ctx_responder sample_context = Some 7"
    and "entry_of (guarded_engine 10) (context_key sample_context) \<noteq> None"
    by (simp_all add: guarded_engine_def sample_engine_def engine_start_def sample_context_def Let_def)
  ultimately show ?thesis
    using duplicate_declined [of "guarded_engine 10" sample_context sample_event 7 sample_codec] by simp
qed

text \<open>
  C32. The screens before the guard, in their order: a sanctioned BIN is answered with 93 whatever
  else holds; an unknown token with 56; a risk score above the network's threshold with 59. None
  of them touches guard, journal or channels.
\<close>

theorem screening_declines:
  "(compliance_evaluate (compliance_cache st) ctx = Ok True \<longrightarrow>
      process_transaction cd ctx st
        = respond (ctx_responder ctx) (decline_of (ctx_transaction ctx) (ascii ''93'')) st) \<and>
   (compliance_evaluate (compliance_cache st) ctx = Ok False \<and> is_tokenized (ctx_transaction ctx) \<and>
      token_map (memory_state st) (from_utf8_lossy (fpan (ctx_transaction ctx))) = None \<longrightarrow>
      process_transaction cd ctx st
        = respond (ctx_responder ctx) (decline_of (ctx_transaction ctx) (ascii ''56'')) st) \<and>
   (compliance_evaluate (compliance_cache st) ctx = Ok False \<and>
      tsp_intercept (memory_state st) (ctx_transaction ctx) = Ok (Some tx) \<and>
      risk_score tx > risk_threshold (stip (memory_state st)) tx \<longrightarrow>
      process_transaction cd ctx st = respond (ctx_responder ctx) (decline_of tx (ascii ''59'')) st)"
proof -
  have "risk_score tx > risk_threshold rules tx \<Longrightarrow> risk_declined rules tx" for rules
    by (auto simp: risk_declined_def intro: le_less_trans [of 0])
  then show ?thesis
    by (auto simp: process_transaction_def admit_def tsp_intercept_def detokenize_def Let_def)
qed

theorem screening_declines_witness:
  "answers (process_transaction sample_codec
      (sample_context\<lparr>ctx_transaction := sample_event\<lparr>risk_score := 101\<rparr>\<rparr>) sample_engine)
    = [(7, decline_of (sample_event\<lparr>risk_score := 101\<rparr>) (ascii ''59''))]"
proof -
  let ?tx = "sample_event\<lparr>risk_score := 101\<rparr>"
  let ?ctx = "sample_context\<lparr>ctx_transaction := ?tx\<rparr>"
  have "compliance_evaluate (compliance_cache sample_engine) ?ctx = Ok False"
    and "tsp_intercept (memory_state sample_engine) (ctx_transaction ?ctx) = Ok (Some ?tx)"
    using sample_clears
    by (simp_all add: clears_screening_def compliance_evaluate_def tsp_intercept_def sample_context_def
        sample_event_def blank_event_def)
  moreover have "risk_threshold (stip (memory_state sample_engine)) ?tx < risk_score ?tx"
    by (simp add: risk_threshold_def sample_engine_def engine_start_def global_state_new_def
        hot_reload_routes_def Let_def)
  moreover have "answers sample_engine = []" by (simp add: sample_defs)
  ultimately show ?thesis
    using screening_declines [of sample_engine ?ctx sample_codec ?tx]
    by (simp add: sample_context_def)
qed

text \<open>
  A transaction without an egress channel is journaled, declined with code 05 and leaves the
  guard as it was.
\<close>

theorem unrouted_declined:
  assumes "clears_screening st ctx tx" and "entry_of st (context_key ctx) = None"
    and "pin_block tx = []" and "mac_data tx = None" and "journal_open st"
    and "select_egress (memory_state st) tx = None" and "ctx_responder ctx = Some r"
  shows "process_transaction cd ctx st = st\<lparr>journal := journal st @ [to_pb tx],
    answers := answers st @ [(r, decline_of tx (ascii ''05''))]\<rparr>"
proof -
  have "AList.delete (context_key ctx) (idempotency_guard st) = idempotency_guard st"
    using assms(2) by (rule delete_absent)
  then show ?thesis
    using assms
    by (simp add: process_transaction_def admit_clear guard_or_duplicate_def run_job_simps
        dispatch_def journal_append_def decline_unrouted_def guard_modify_def guard_remove_def
        respond_def Let_def)
qed

theorem unrouted_declined_witness:
  "answers (process_transaction sample_codec sample_context
      (sample_engine\<lparr>memory_state := (memory_state sample_engine)\<lparr>router := bin_trie_new\<rparr>\<rparr>))
    = [(7, decline_of sample_event (ascii ''05''))]"
proof -
  let ?st = "sample_engine\<lparr>memory_state := (memory_state sample_engine)\<lparr>router := bin_trie_new\<rparr>\<rparr>"
  have "clears_screening ?st sample_context sample_event"
    using sample_clears
    by (simp add: clears_screening_def tsp_intercept_def sample_context_def sample_event_def blank_event_def)
  moreover have "select_egress (memory_state ?st) sample_event = None"
    by (simp add: select_egress_def trie_find_lpm trie_table_new lpm_None)
  moreover have "entry_of ?st (context_key sample_context) = None" "pin_block sample_event = []"
    "mac_data sample_event = None" "journal_open ?st" "ctx_responder sample_context = Some 7"
    "answers ?st = []"
    by (simp_all add: sample_defs)
  ultimately show ?thesis
    using unrouted_declined [of ?st sample_context sample_event 7 sample_codec] by simp
qed

section \<open>Stand-in processing\<close>

lemma sint_sub_in_range:
  assumes "0 \<le> sint b" and "sint b \<le> sint (a :: 64 word)"
  shows "sint (a - b) = sint a - sint b"
proof -
  have "sint a < 2 ^ 63" using sint_lt [of a] by simp
  then have "signed_take_bit 63 (sint a - sint b) = sint a - sint b"
    using assms by (intro signed_take_bit_int_eq_self) simp_all
  then show ?thesis by (simp add: sint_word_ariths)
qed

text \<open>
  C23. Stand-in authorization is exact. For a card with a stored profile and a non-negative amount,
  the transaction is approved iff the card is not blocked and its balance covers the amount; an
  approval lowers the stored balance by exactly that amount and never below zero, a decline
  (41 for a blocked card, 51 for insufficient funds) changes no profile, and no other card's
  profile ever changes. This is the decision of a worker that no other worker interrupts between
  its read of the profile and its store; \<open>Stand_In\<close> has what two workers can do.
\<close>

theorem stip_decision_exact:
  assumes codec: "\<And>p. deserialize cd (serialize cd p) = Some p"
    and stored: "db (fpan tx) = Some cached" and profile: "deserialize cd cached = Some p"
    and nonneg: "0 \<le> sint (amount tx)"
  shows "case stip_decision cd tx db of (tx', db') \<Rightarrow>
    (response_code tx' = ascii ''00'' \<longleftrightarrow>
       \<not> profile_is_blocked p \<and> sint (amount tx) \<le> sint (profile_balance p)) \<and>
    (response_code tx' = ascii ''00'' \<longrightarrow>
       (\<exists>p'. map_option (deserialize cd) (db' (fpan tx)) = Some (Some p') \<and>
          sint (profile_balance p') = sint (profile_balance p) - sint (amount tx) \<and>
          0 \<le> sint (profile_balance p') \<and> \<not> profile_is_blocked p')) \<and>
    (response_code tx' \<noteq> ascii ''00'' \<longrightarrow> db' = db \<and>
       response_code tx' = (if profile_is_blocked p then ascii ''41'' else ascii ''51'')) \<and>
    (\<forall>pan. pan \<noteq> fpan tx \<longrightarrow> db' pan = db pan)"
proof -
  have codes: "ascii ''41'' \<noteq> ascii ''00''" "ascii ''51'' \<noteq> ascii ''00''"
    by (simp_all add: ascii_def)
  show ?thesis
  proof (cases "\<not> profile_is_blocked p \<and> sint (amount tx) \<le> sint (profile_balance p)")
    case True
    then have "sint (profile_balance p - amount tx) = sint (profile_balance p) - sint (amount tx)"
      using nonneg by (intro sint_sub_in_range) simp_all
    then show ?thesis
      using True stored profile by (simp add: stip_decision_def stip_decide_def stip_insert_def decline_of_def codec Let_def)
  next
    case False
    then show ?thesis
      using stored profile codes by (auto simp: stip_decision_def stip_decide_def stip_insert_def decline_of_def Let_def)
  qed
qed

theorem stip_decision_exact_witness:
  "response_code (fst (stip_decision sample_codec sample_event
      [fpan sample_event \<mapsto> serialize sample_codec \<lparr>profile_balance = 500, profile_is_blocked = False\<rparr>]))
    = ascii ''00''"
proof -
  let ?p = "\<lparr>profile_balance = 500, profile_is_blocked = False\<rparr>"
  have "amount sample_event = 500" by (simp add: sample_event_def blank_event_def)
  then show ?thesis
    using stip_decision_exact [OF sample_codec_roundtrip,
        of "[fpan sample_event \<mapsto> serialize sample_codec ?p]" sample_event "serialize sample_codec ?p" ?p]
    by (simp add: sample_codec_roundtrip case_prod_beta)
qed

text \<open>
  C37. The stand-in answer does not reach the terminal. When the egress channel refuses a guarded
  transaction, the stand-in decision is applied to the card's profile and journaled, but nothing
  is sent: the responder went into the guard entry, which keeps waiting for the bank.
\<close>

theorem stip_fallback_sends_nothing:
  assumes "clears_screening st ctx tx" and "entry_of st (context_key ctx) = None"
    and "pin_block tx = []" and "mac_data tx = None" and "journal_open st"
    and "select_egress (memory_state st) tx = Some ch"
    and "try_send (outbound st tx) (channels st ch) = None"
  shows "let st' = process_transaction cd ctx st;
      (tx', db') = stip_decision cd (ctx_transaction (outbound st tx)) (stip_db st) in
    answers st' = answers st \<and> stip_db st' = db' \<and> journal st' = journal st @ [to_pb tx, to_pb tx'] \<and>
    (\<exists>en. entry_of st' (context_key ctx) = Some en \<and> at_state en = UpstreamSent
      \<and> at_responder en = ctx_responder ctx)"
proof -
  obtain tx' db' where d: "stip_decision cd (ctx_transaction (outbound st tx)) (stip_db st) = (tx', db')"
    by fastforce
  have "process_transaction cd ctx st = run_job cd (Transmit (outbound st tx) ch) (translated ctx tx st)"
    using assms(1-6) by (rule process_transmits)
  moreover have "run_job cd (Transmit (outbound st tx) ch) (translated ctx tx st) = (translated ctx tx st)\<lparr>
      ledger_queue := ledger_queue st @ [ctx_transaction (outbound st tx)], stip_db := db',
      journal := journal st @ [to_pb tx, to_pb tx']\<rparr>"
    using assms(5,7) d
    by (simp add: run_transmit ledger_send_def journal_append_def respond_def
        translated_def Let_def) (simp add: outbound_def)
  ultimately show ?thesis by (simp add: d translated_def Let_def)
qed

theorem stip_fallback_sends_nothing_witness:
  "answers (process_transaction sample_codec sample_context
      (sample_engine\<lparr>channels := (\<lambda>_. \<lparr>queue = [], capacity = 10000, connected = False\<rparr>)\<rparr>)) = []"
proof -
  let ?st = "sample_engine\<lparr>channels := (\<lambda>_. \<lparr>queue = [], capacity = 10000, connected = False\<rparr>)\<rparr>"
  have "clears_screening ?st sample_context sample_event"
    using sample_clears by (simp add: clears_screening_def)
  moreover have "select_egress (memory_state ?st) sample_event = Some 0" using sample_route by simp
  moreover have "try_send (outbound ?st sample_event) (channels ?st 0) = None" by (simp add: try_send_def)
  moreover have "entry_of ?st (context_key sample_context) = None" "pin_block sample_event = []"
    "mac_data sample_event = None" "journal_open ?st" "answers ?st = []"
    by (simp_all add: sample_defs)
  ultimately show ?thesis
    using stip_fallback_sends_nothing [of ?st sample_context sample_event 0 sample_codec]
    by (simp add: Let_def case_prod_beta)
qed

section \<open>STAN translation\<close>

text \<open>Translating one transaction after the other, none of them answered in between.\<close>

primrec translate_all :: "rstring list \<Rightarrow> global_state \<Rightarrow> global_state \<times> rstring list" where
  "translate_all [] g = (g, [])"
| "translate_all (s # ss) g = (case nat_outbound s g of (g1, es) \<Rightarrow>
     case translate_all ss g1 of (g2, ess) \<Rightarrow> (g2, es # ess))"

definition nth_egress_stan :: "global_state \<Rightarrow> nat \<Rightarrow> rstring" where
  "nth_egress_stan g i = format_padded 6 ((unat (stan_counter g) + i) mod 1000000)"

lemma unat_add_small:
  fixes c :: u64
  assumes "unat c + n < 2 ^ 64"
  shows "unat (c + of_nat n) = unat c + n"
  using assms by (simp add: unat_word_ariths unat_of_nat)

lemma nat_outbound_counts:
  assumes "nat_outbound s g = (g1, es)" and "unat (stan_counter g) + 1 < 2 ^ 64"
  shows "es = nth_egress_stan g 0" and "nth_egress_stan g1 i = nth_egress_stan g (Suc i)"
    and "unat (stan_counter g1) = unat (stan_counter g) + 1"
  using assms unat_add_small [of "stan_counter g" 1]
  by (auto simp: nat_outbound_def nth_egress_stan_def next_egress_stan_def Let_def)

lemma translate_all_stans:
  assumes "unat (stan_counter g) + length ss < 2 ^ 64"
  shows "snd (translate_all ss g) = map (nth_egress_stan g) [0..<length ss]"
    and "next_egress_stan (fst (translate_all ss g)) = nth_egress_stan g (length ss)"
proof -
  have "snd (translate_all ss g) = map (nth_egress_stan g) [0..<length ss] \<and>
    next_egress_stan (fst (translate_all ss g)) = nth_egress_stan g (length ss)"
    using assms
  proof (induction ss arbitrary: g)
    case Nil
    show ?case by (simp add: nth_egress_stan_def next_egress_stan_def)
  next
    case (Cons s ss)
    obtain g1 es where nat: "nat_outbound s g = (g1, es)" by fastforce
    have small: "unat (stan_counter g) + 1 < 2 ^ 64" using Cons.prems by simp
    note counts = nat_outbound_counts [OF nat small]
    have "unat (stan_counter g1) + length ss < 2 ^ 64" using Cons.prems counts(3) by simp
    from Cons.IH [OF this] show ?case
      using nat counts(1,2)
      by (auto simp: upt_conv_Cons map_Suc_upt [symmetric] comp_def simp del: upt_Suc split: prod.splits)
  qed
  then show "snd (translate_all ss g) = map (nth_egress_stan g) [0..<length ss]"
    and "next_egress_stan (fst (translate_all ss g)) = nth_egress_stan g (length ss)" by simp_all
qed

lemma nth_egress_stan_eq:
  assumes "i < j" and "j \<le> 1000000"
  shows "nth_egress_stan g i = nth_egress_stan g j \<longleftrightarrow> i = 0 \<and> j = 1000000"
proof -
  let ?c = "unat (stan_counter g)"
  have "(?c + i) mod 1000000 = (?c + j) mod 1000000 \<longleftrightarrow> i = 0 \<and> j = 1000000"
  proof
    assume "(?c + i) mod 1000000 = (?c + j) mod 1000000"
    then have "1000000 dvd j - i" using assms(1) mod_eq_dvd_iff_nat [of "?c + i" "?c + j" 1000000] by simp
    then have "1000000 \<le> j - i" using assms(1) by (intro dvd_imp_le) simp_all
    then show "i = 0 \<and> j = 1000000" using assms by arith
  qed simp
  then show ?thesis by (simp add: nth_egress_stan_def) (metis format_padded_inj)
qed

lemma nth_egress_stans_distinct: "n \<le> 1000000 \<Longrightarrow> distinct (map (nth_egress_stan g) [0..<n])"
proof -
  assume n: "n \<le> 1000000"
  have "nth_egress_stan g i \<noteq> nth_egress_stan g j" if "i < j" "j < n" for i j
    using nth_egress_stan_eq [of i j g] that n by simp
  then have "inj_on (nth_egress_stan g) {0..<n}" by (intro linorder_inj_onI') auto
  then show ?thesis by (simp add: distinct_map)
qed

lemma translate_all_nat:
  assumes "distinct (snd (translate_all ss g))"
  shows "stan_nat (fst (translate_all ss g)) = stan_nat g ++ map_of (zip (snd (translate_all ss g)) ss)"
  using assms
proof (induction ss arbitrary: g)
  case (Cons s ss)
  obtain g1 es where nat: "nat_outbound s g = (g1, es)" by fastforce
  obtain g2 ess where rest: "translate_all ss g1 = (g2, ess)" by fastforce
  have "es \<notin> set ess" "distinct ess" using Cons.prems by (simp_all add: nat rest)
  moreover have "map_of (zip ess ss) es = None" using calculation(1)
    by (auto simp: map_of_eq_None_iff dest: set_zip_leftD)
  moreover have "stan_nat g1 = (stan_nat g)(es \<mapsto> s)" using nat by (auto simp: nat_outbound_def Let_def)
  ultimately show ?case
    using Cons.IH [of g1] by (auto simp: nat rest fun_eq_iff map_add_def split: option.splits)
qed simp

lemma length_translate_all: "length (snd (translate_all ss g)) = length ss"
  by (induction ss arbitrary: g) (auto simp: case_prod_beta)

text \<open>
  C33. Egress STANs do not repeat within a million translations. Translating any list of at most a
  million ingress STANs, one \<open>nat_outbound\<close> after the other, gives distinct egress STANs of six
  digits, after which the table takes each of them back to its own ingress STAN and is otherwise
  unchanged; after exactly a million the next call gives out the first one again, whose entry it
  overwrites. The 64-bit counter must not wrap on the way.
\<close>

theorem egress_stans_distinct:
  assumes "length ss \<le> 1000000" and "unat (stan_counter g) + length ss < 2 ^ 64"
  shows "case translate_all ss g of (g', ess) \<Rightarrow>
    length ess = length ss \<and> distinct ess \<and> (\<forall>es \<in> set ess. length es = 6) \<and>
    (\<forall>i < length ss. stan_nat g' (ess ! i) = Some (ss ! i)) \<and>
    (\<forall>es. es \<notin> set ess \<longrightarrow> stan_nat g' es = stan_nat g es) \<and>
    (length ss = 1000000 \<longrightarrow> snd (nat_outbound s g') = ess ! 0)"
proof -
  obtain g' ess where t: "translate_all ss g = (g', ess)" by fastforce
  have ess: "ess = map (nth_egress_stan g) [0..<length ss]" and nxt: "next_egress_stan g' = nth_egress_stan g (length ss)"
    using translate_all_stans [OF assms(2)] t by simp_all
  have dist: "distinct ess" unfolding ess by (rule nth_egress_stans_distinct) (rule assms(1))
  have len: "length ess = length ss" using length_translate_all [of ss g] t by simp
  have nat: "stan_nat g' = stan_nat g ++ map_of (zip ess ss)" using translate_all_nat [of ss g] t dist by simp
  have "stan_nat g' (ess ! i) = Some (ss ! i)" if "i < length ss" for i
    using that len map_of_zip_nth [of ess ss i] dist by (simp add: nat map_add_Some_iff)
  moreover have "stan_nat g' es = stan_nat g es" if "es \<notin> set ess" for es
  proof -
    have "map_of (zip ess ss) es = None" using that by (auto simp: map_of_eq_None_iff dest: set_zip_leftD)
    then show ?thesis by (simp add: nat map_add_def)
  qed
  moreover have "length es = 6" if "es \<in> set ess" for es
    using that by (auto simp: ess nth_egress_stan_def length_format_padded)
  moreover have "snd (nat_outbound s g') = ess ! 0" if "length ss = 1000000"
    using that nth_egress_stan_eq [of 0 "length ss" g] by (simp add: nat_outbound_def nxt ess Let_def del: upt_Suc)
  ultimately show ?thesis using t dist len by auto
qed

theorem egress_stans_distinct_witness:
  "case translate_all [ascii ''000777'', ascii ''000777''] global_state_new of (g', ess) \<Rightarrow>
    distinct ess \<and> stan_nat g' (ess ! 1) = Some (ascii ''000777'')"
  using egress_stans_distinct [of "[ascii ''000777'', ascii ''000777'']" global_state_new "ascii ''000777''"]
  by (auto simp: global_state_new_def)

section \<open>Interleavings\<close>

text \<open>
  C3. No terminal is answered twice, and every answer is a response message. This holds in every
  reachable state of the engine, for any interleaving of ingress workers, HSM tasks, the reaper,
  bank-reply workers, reloads, crashes and the environment; guard keys stay unique.
\<close>

theorem answered_at_most_once:
  assumes "(engine_step cd h)\<^sup>*\<^sup>* (engine_start db timeout threads) st"
  shows "distinct (map fst (answers st)) \<and> keys_distinct st \<and>
    (\<forall>(r, e) \<in> set (answers st). mti e \<in> {ascii ''0110'', ascii ''0430'', ascii ''0810''})"
  using reachable_inv [OF assms] inv_answers_distinct
  by (auto simp: engine_inv_def list_all_iff response_mtis_def)

text \<open>A short run: an echo test arrives and is answered.\<close>

definition echo_context :: transaction_context where
  "echo_context = \<lparr>ctx_transaction = blank_event NetworkManagement (ascii ''0800'') False False,
     ctx_responder = Some 3\<rparr>"

definition echo_reply :: event where
  "echo_reply = (blank_event NetworkManagement (ascii ''0800'') False False)
     \<lparr>mti := ascii ''0810'', response_code := ascii ''00'', message_class := NetworkManagementResponse\<rparr>"

lemma echo_run:
  "(engine_step cd h)\<^sup>*\<^sup>* (engine_start Map.empty 1500 4) ((engine_start Map.empty 1500 4)\<lparr>answers := [(3, echo_reply)]\<rparr>)"
proof -
  let ?s0 = "engine_start Map.empty 1500 4"
  let ?s1 = "?s0\<lparr>ingress_queue := [echo_context]\<rparr>"
  have start: "ingress_queue ?s0 = []" "answers ?s0 = []" "0 < workers ?s0" "jobs ?s0 = []"
    "?s0\<lparr>ingress_queue := []\<rparr> = ?s0"
    by (simp_all add: engine_start_def)
  have "held ?s0 = {#}" by (simp add: held_def engine_start_def)
  then have "engine_step cd h ?s0 ?s1"
    using engine_step.arrive [of echo_context ?s0 cd h] start by simp
  moreover have "admit echo_context ?s0 = Ok (?s0\<lparr>answers := [(3, echo_reply)]\<rparr>, None)"
    using start(2)
    by (simp add: admit_def admit_screened_def echo_context_def echo_reply_def blank_event_def
        compliance_evaluate_def tsp_intercept_def risk_declined_def for_switch_def starts_with_def
        ascii_def respond_def)
  then have "admit echo_context (?s1\<lparr>ingress_queue := []\<rparr>) = Ok (?s0\<lparr>answers := [(3, echo_reply)]\<rparr>, None)"
    using start(5) by simp
  then have "engine_step cd h ?s1 (add_jobs (option_list None) (?s0\<lparr>answers := [(3, echo_reply)]\<rparr>))"
    using start(3) by (intro engine_step.ingest) simp_all
  then have "engine_step cd h ?s1 (?s0\<lparr>answers := [(3, echo_reply)]\<rparr>)"
    by simp
  ultimately show ?thesis by (meson converse_rtranclp_into_rtranclp r_into_rtranclp)
qed

theorem answered_at_most_once_witness:
  "distinct (map fst (answers ((engine_start Map.empty 1500 4)\<lparr>answers := [(3, echo_reply)]\<rparr>)))
    \<and> mti echo_reply \<in> {ascii ''0110'', ascii ''0430'', ascii ''0810''}"
  using answered_at_most_once [OF echo_run] by simp

text \<open>
  A PIN or MAC decline never reaches the terminal. In every reachable state, processing a
  queued HSM context, whatever the HSM answers, sends nothing: the context has no responder, so
  the code-55 decline goes nowhere and the guard entry is left to the reaper.
\<close>

theorem hsm_verdict_sends_nothing:
  assumes "(engine_step cd h)\<^sup>*\<^sup>* (engine_start db timeout threads) st" and "ctx \<in> set (hsm_queue st)"
  shows "answers (hsm_process h' ctx st) = answers st
    \<and> idempotency_guard (hsm_process h' ctx st) = idempotency_guard st"
proof -
  have "ctx_responder ctx = None"
    using reachable_inv [OF assms(1)] assms(2) by (simp add: engine_inv_def list_all_iff)
  then show ?thesis
    by (simp add: hsm_process_def journal_append_def respond_def split: outcome.splits option.splits)
qed

text \<open>A run that hands a transaction with a PIN to the HSM worker.\<close>

definition pin_context :: transaction_context where
  "pin_context = \<lparr>ctx_transaction = (blank_event Authorization (ascii ''0100'') False False)\<lparr>pin_block := [0x31]\<rparr>,
     ctx_responder = Some 3\<rparr>"

definition pin_entry :: active_transaction where
  "pin_entry = \<lparr>created_at = 0, at_state = UpstreamSent, at_responder = Some 3,
     transaction_data = to_pb (ctx_transaction pin_context), egress_stan = None\<rparr>"

lemma pin_run:
  "(engine_step cd h)\<^sup>*\<^sup>* (engine_start Map.empty 1500 4)
    ((engine_start Map.empty 1500 4)\<lparr>idempotency_guard := [(context_key pin_context, pin_entry)],
       hsm_queue := [pin_context\<lparr>ctx_responder := None\<rparr>]\<rparr>)"
proof -
  let ?s0 = "engine_start Map.empty 1500 4" and ?ctx = "pin_context\<lparr>ctx_responder := None\<rparr>"
  let ?job = "Dispatch (context_key pin_context) ?ctx"
  let ?s1 = "?s0\<lparr>ingress_queue := [pin_context]\<rparr>"
  let ?g = "?s0\<lparr>idempotency_guard := [(context_key pin_context, pin_entry)]\<rparr>"
  have start: "ingress_queue ?s0 = []" "0 < workers ?s0" "jobs ?s0 = []" "?s0\<lparr>ingress_queue := []\<rparr> = ?s0"
    "idempotency_guard ?s0 = []" "hsm_queue ?s0 = []" "clock ?s0 = 0" "?s0\<lparr>jobs := []\<rparr> = ?s0"
    by (simp_all add: engine_start_def)
  have "held ?s0 = {#}" by (simp add: held_def engine_start_def)
  then have "engine_step cd h ?s0 ?s1"
    using engine_step.arrive [of pin_context ?s0 cd h] start(1) by simp
  moreover have "clears_screening ?s0 pin_context (ctx_transaction pin_context)"
    by (simp add: clears_screening_def pin_context_def blank_event_def compliance_evaluate_def
        tsp_intercept_def risk_declined_def)
  then have "admit pin_context ?s0 = Ok (?g, Some ?job)"
    using start(5,7) by (simp add: admit_clear guard_or_duplicate_def pin_entry_def pin_context_def Let_def)
  then have "admit pin_context (?s1\<lparr>ingress_queue := []\<rparr>) = Ok (?g, Some ?job)"
    using start(4) by simp
  then have "engine_step cd h ?s1 (add_jobs (option_list (Some ?job)) ?g)"
    using start(2) by (intro engine_step.ingest) simp_all
  then have "engine_step cd h ?s1 (?g\<lparr>jobs := [?job]\<rparr>)" using start(3) by simp
  moreover have "job_step cd ?job ((?g\<lparr>jobs := [?job]\<rparr>)\<lparr>jobs := [] @ []\<rparr>)
      = (?g\<lparr>jobs := [], hsm_queue := [?ctx]\<rparr>, None)"
    using start(6) by (simp add: dispatch_def pin_context_def Let_def)
  then have "engine_step cd h (?g\<lparr>jobs := [?job]\<rparr>)
      (add_jobs (option_list None) (?g\<lparr>jobs := [], hsm_queue := [?ctx]\<rparr>))"
    by (intro engine_step.work [of _ "[]" ?job "[]"]) simp_all
  then have "engine_step cd h (?g\<lparr>jobs := [?job]\<rparr>) (?g\<lparr>hsm_queue := [?ctx]\<rparr>)"
    by (simp add: engine_start_def)
  ultimately show ?thesis by (meson converse_rtranclp_into_rtranclp r_into_rtranclp)
qed

theorem hsm_verdict_sends_nothing_witness:
  "answers (hsm_process \<lparr>verify_mac = (\<lambda>_ _. Ok False), verify_pin = (\<lambda>_ _ _. Ok False),
        translate_pin = (\<lambda>_ _. Err ())\<rparr> (pin_context\<lparr>ctx_responder := None\<rparr>)
      ((engine_start Map.empty 1500 4)\<lparr>idempotency_guard := [(context_key pin_context, pin_entry)],
         hsm_queue := [pin_context\<lparr>ctx_responder := None\<rparr>]\<rparr>)) = []"
  using hsm_verdict_sends_nothing [OF pin_run, of "pin_context\<lparr>ctx_responder := None\<rparr>"]
  by (simp add: engine_start_def)

section \<open>Worker failure\<close>

text \<open>
  C36. A malformed card number stops an ingress worker. For any state of the switch, a transaction
  whose PAN field holds the bytes 34 FF FF ends the thread that takes it, without an answer: the
  PAN is replaced by seven bytes of text, and the BIN slice ends inside a character.
\<close>

theorem malformed_pan_kills_worker:
  assumes "fpan (ctx_transaction ctx) = [0x34, 0xFF, 0xFF]"
  shows "process_transaction cd ctx st = st\<lparr>workers := workers st - 1\<rparr>"
proof -
  have "from_utf8_lossy [0x34, 0xFF, 0xFF] = [0x34, 0xEF, 0xBF, 0xBD, 0xEF, 0xBF, 0xBD]"
    by (simp add: utf8_chunk_def utf8_width_def Let_def)
  moreover have "str_slice [0x34, 0xEF, 0xBF, 0xBD, 0xEF, 0xBF, 0xBD] 0 6 = None"
    by (simp add: str_slice_def is_char_boundary_def is_cont_def)
  ultimately have "compliance_evaluate (compliance_cache st) ctx = Panic"
    using assms by (simp add: compliance_evaluate_def)
  then show ?thesis by (simp add: process_transaction_def admit_def)
qed

theorem malformed_pan_kills_worker_witness:
  "workers (process_transaction sample_codec
      (sample_context\<lparr>ctx_transaction := sample_event\<lparr>fpan := [0x34, 0xFF, 0xFF]\<rparr>\<rparr>) sample_engine) = 3"
  using malformed_pan_kills_worker
    [of "sample_context\<lparr>ctx_transaction := sample_event\<lparr>fpan := [0x34, 0xFF, 0xFF]\<rparr>\<rparr>" sample_codec sample_engine]
  by (simp add: sample_context_def sample_engine_def engine_start_def Let_def)

end
