(* ===== verification/Hsm_Client.thy ===== *)
theory Hsm_Client
  imports Framing
begin

text \<open>
  The multiplexing HSM client of \<open>switch-core/src/hsm_client.rs\<close> and the mock Thales HSM of
  \<open>ISO8583PaymentSimulator/src/bin/mock_hsm.rs\<close> it talks to. A request takes a four-digit
  header from a wrapping counter, registers its one-shot receiver under it and queues the
  command; the reader task hands a response to the receiver registered under its header. How a
  wait ends (a response, a dropped sender, the two-second timeout) is an argument.
\<close>

section \<open>Definitions\<close>

datatype hsm_error =
    DispatchChannelClosed
  | InvalidResponse
  | ReceiverDropped
  | HsmTimeout
  | TranslateFailed
  | TimeoutOrFail

record hsm_client =
  correlation_map :: "rstring \<rightharpoonup> nat"
  counter :: u32
  outbox :: "thales_message list"
  outbox_open :: bool
  delivered :: "(nat \<times> thales_message) list"

definition hsm_connect :: hsm_client where
  "hsm_connect = \<lparr>correlation_map = Map.empty, counter = 0, outbox = [], outbox_open = True, delivered = []\<rparr>"

definition next_header :: "hsm_client \<Rightarrow> rstring \<times> hsm_client" where
  "next_header c = (format_padded 4 (unat (counter c) mod 10000), c\<lparr>counter := counter c + 1\<rparr>)"

text \<open>The twelve digits before the check digit. A 12-byte PAN underflows: a panic.\<close>

definition formatted_pan :: "rstring \<Rightarrow> (hsm_error, rstring) outcome" where
  "formatted_pan pan =
     (if length pan \<ge> 12 then
        if length pan < 13 then Panic
        else (case str_slice pan (length pan - 13) (length pan - 1) of
                None \<Rightarrow> Panic | Some s \<Rightarrow> Ok s)
      else Ok pan)"

definition verify_pin_payload :: "rstring \<Rightarrow> rstring \<Rightarrow> rstring \<Rightarrow> rstring" where
  "verify_pin_payload pin_block fp pvv =
     ascii ''AWK1234567890123'' @ pin_block @ ascii ''01'' @ fp @ ascii ''PVK1234567890123'' @ pvv"

definition translate_pin_payload :: "rstring \<Rightarrow> rstring \<Rightarrow> rstring" where
  "translate_pin_payload pin_block fp =
     ascii ''AWK1234567890123'' @ ascii ''ZWK1234567890123'' @ ascii ''12'' @ pin_block @ ascii ''01'' @ fp"

definition verify_mac_payload :: "rstring \<Rightarrow> rstring \<Rightarrow> rstring" where
  "verify_mac_payload mac fp = ascii ''MAK1234567890123'' @ mac @ fp"

text \<open>
  The dispatch half of a request for receiver \<open>r\<close>: register, format the PAN, queue the
  command. A panic in the formatting leaves the registration behind.
\<close>

definition dispatch_request ::
  "nat \<Rightarrow> rstring \<Rightarrow> rstring \<Rightarrow> (rstring \<Rightarrow> rstring) \<Rightarrow> hsm_client
    \<Rightarrow> (hsm_error, rstring) outcome \<times> hsm_client" where
  "dispatch_request r cmd pan build c =
     (case next_header c of (hdr, c1) \<Rightarrow>
        let c2 = c1\<lparr>correlation_map := (correlation_map c1)(hdr \<mapsto> r)\<rparr> in
        (case formatted_pan pan of
           Ok fp \<Rightarrow>
             if outbox_open c2
             then (Ok hdr, c2\<lparr>outbox := outbox c2 @ [\<lparr>header = hdr, command = cmd, payload = build fp\<rparr>]\<rparr>)
             else (Err DispatchChannelClosed,
                   c2\<lparr>correlation_map := (correlation_map c2)(hdr := None)\<rparr>)
         | Err e \<Rightarrow> (Err e, c2)
         | Panic \<Rightarrow> (Panic, c2)))"

definition send_verify_pin ::
  "nat \<Rightarrow> rstring \<Rightarrow> rstring \<Rightarrow> rstring \<Rightarrow> hsm_client \<Rightarrow> (hsm_error, rstring) outcome \<times> hsm_client" where
  "send_verify_pin r pin_block pan pvv =
     dispatch_request r (ascii ''DA'') pan (\<lambda>fp. verify_pin_payload pin_block fp pvv)"

definition send_translate_pin ::
  "nat \<Rightarrow> rstring \<Rightarrow> rstring \<Rightarrow> hsm_client \<Rightarrow> (hsm_error, rstring) outcome \<times> hsm_client" where
  "send_translate_pin r pin_block pan =
     dispatch_request r (ascii ''CA'') pan (translate_pin_payload pin_block)"

definition send_verify_mac ::
  "nat \<Rightarrow> rstring \<Rightarrow> rstring \<Rightarrow> hsm_client \<Rightarrow> (hsm_error, rstring) outcome \<times> hsm_client" where
  "send_verify_mac r mac pan = dispatch_request r (ascii ''M0'') pan (verify_mac_payload mac)"

text \<open>The reader task: a response goes to the receiver registered under its header.\<close>

definition read_response :: "thales_message \<Rightarrow> hsm_client \<Rightarrow> hsm_client" where
  "read_response msg c =
     (case correlation_map c (header msg) of
        Some r \<Rightarrow> c\<lparr>correlation_map := (correlation_map c)(header msg := None),
                    delivered := delivered c @ [(r, msg)]\<rparr>
      | None \<Rightarrow> c)"

datatype wait_result = Response thales_message | SenderDropped | TimedOut

definition forget :: "rstring \<Rightarrow> hsm_client \<Rightarrow> hsm_client" where
  "forget hdr c = c\<lparr>correlation_map := (correlation_map c)(hdr := None)\<rparr>"

text \<open>The completion half of the three requests.\<close>

definition verdict :: "rstring \<Rightarrow> thales_message \<Rightarrow> (hsm_error, bool) outcome" where
  "verdict cmd resp =
     (if command resp = cmd \<and> starts_with (payload resp) (ascii ''00'') then Ok True
      else if command resp = cmd \<and> starts_with (payload resp) (ascii ''05'') then Ok False
      else Err InvalidResponse)"

definition finish_verify ::
  "rstring \<Rightarrow> rstring \<Rightarrow> wait_result \<Rightarrow> hsm_client \<Rightarrow> (hsm_error, bool) outcome \<times> hsm_client" where
  "finish_verify cmd hdr w c =
     (case w of
        Response resp \<Rightarrow> (verdict cmd resp, c)
      | SenderDropped \<Rightarrow> (Err ReceiverDropped, c)
      | TimedOut \<Rightarrow> (Err HsmTimeout, forget hdr c))"

definition finish_verify_pin ::
  "rstring \<Rightarrow> wait_result \<Rightarrow> hsm_client \<Rightarrow> (hsm_error, bool) outcome \<times> hsm_client" where
  "finish_verify_pin = finish_verify (ascii ''DB'')"

definition finish_verify_mac ::
  "rstring \<Rightarrow> wait_result \<Rightarrow> hsm_client \<Rightarrow> (hsm_error, bool) outcome \<times> hsm_client" where
  "finish_verify_mac = finish_verify (ascii ''M1'')"

definition finish_translate_pin ::
  "rstring \<Rightarrow> wait_result \<Rightarrow> hsm_client \<Rightarrow> (hsm_error, rstring) outcome \<times> hsm_client" where
  "finish_translate_pin hdr w c =
     (case w of
        Response resp \<Rightarrow>
          (if command resp = ascii ''CB'' \<and> starts_with (payload resp) (ascii ''00'')
           then (case str_slice (payload resp) 2 (length (payload resp)) of
                   None \<Rightarrow> Panic | Some s \<Rightarrow> Ok s)
           else Err TranslateFailed, c)
      | _ \<Rightarrow> (Err TimeoutOrFail, forget hdr c))"

section \<open>The mock HSM\<close>

text \<open>The characters of a string, as their byte strings.\<close>

fun utf8_chars :: "rstring \<Rightarrow> rstring list" where
  "utf8_chars [] = []"
| "utf8_chars (b # xs) = (case utf8_chunk b xs of (n, _) \<Rightarrow> (b # take n xs) # utf8_chars (drop n xs))"

definition reverse_chars :: "rstring \<Rightarrow> rstring" where
  "reverse_chars s = concat (rev (utf8_chars s))"

definition process_hsm_command :: "thales_message \<Rightarrow> (unit, thales_message) outcome" where
  "process_hsm_command msg =
     (if command msg = ascii ''CA'' then
        let p = payload msg; pin_block_start = 16 + 16 + 2 in
        if length p \<ge> pin_block_start + 16 then
          (case str_slice p pin_block_start (pin_block_start + 16) of
             None \<Rightarrow> Panic
           | Some pin_block \<Rightarrow>
               Ok (msg\<lparr>command := ascii ''CB'', payload := ascii ''00'' @ reverse_chars pin_block\<rparr>))
        else Ok (msg\<lparr>command := ascii ''CB'', payload := ascii ''01''\<rparr>)
      else if command msg = ascii ''DA'' then
        if length (payload msg) \<ge> 16 + 16 + 2 + 12 + 16 + 4 then
          (case str_slice (payload msg) (length (payload msg) - 4) (length (payload msg)) of
             None \<Rightarrow> Panic
           | Some pvv \<Rightarrow>
               Ok (msg\<lparr>command := ascii ''DB'',
                       payload := (if pvv = ascii ''9999'' then ascii ''05'' else ascii ''00'')\<rparr>))
        else Ok (msg\<lparr>command := ascii ''DB'', payload := ascii ''01''\<rparr>)
      else if command msg = ascii ''M0'' then
        Ok (msg\<lparr>command := ascii ''M1'', payload := ascii ''00''\<rparr>)
      else case utf8_chars (command msg) of
        [] \<Rightarrow> Panic
      | ch # _ \<Rightarrow> Ok (msg\<lparr>command := ch @ ascii ''B'', payload := ascii ''15''\<rparr>))"

section \<open>The stand-alone Thales client\<close>

text \<open>
  \<open>hsm-client/src/client.rs\<close>: one connection per request, without headers. The bytes
  \<open>translate_pin\<close> writes (with the length cast to 16 bits), what it makes of the bytes it can
  read back, and the bytes the simulator answers a connection's bytes with.
\<close>

text \<open>Two \<open>read_exact\<close>s on the bytes that arrive before the peer closes.\<close>

definition read_prefixed :: "bytes \<Rightarrow> bytes option" where
  "read_prefixed input =
     (if length input < 2 then None
      else let len = from_be_bytes (take 2 input); rest = drop 2 input in
        if length rest < len then None else Some (take len rest))"

definition thales_request :: "rstring \<Rightarrow> rstring \<Rightarrow> rstring \<Rightarrow> rstring \<Rightarrow> (hsm_error, bytes) outcome" where
  "thales_request src_key dst_key pan pin_block =
     bindo (formatted_pan pan) (\<lambda>fp.
       Ok (length_prefixed (ascii ''CA'' @ src_key @ dst_key @ ascii ''12'' @ fp @ pin_block)))"

definition thales_reply :: "bytes \<Rightarrow> (unit, rstring) outcome" where
  "thales_reply input =
     (case read_prefixed input of
        None \<Rightarrow> Err ()
      | Some resp_buf \<Rightarrow>
          let response = from_utf8_lossy resp_buf in
          if starts_with response (ascii ''CB'') then
            (case str_slice response 2 (length response) of None \<Rightarrow> Panic | Some t \<Rightarrow> Ok t)
          else Err ())"

definition run_simulator :: "bytes \<Rightarrow> bytes" where
  "run_simulator input =
     (case read_prefixed input of
        None \<Rightarrow> []
      | Some buf \<Rightarrow>
          if starts_with (from_utf8_lossy buf) (ascii ''CA'')
          then length_prefixed (ascii ''CB9999999999AABBCC'') else [])"

section \<open>Lemmas\<close>

abbreviation is_ascii :: "rstring \<Rightarrow> bool" where
  "is_ascii s \<equiv> list_all (\<lambda>b. b < 0x80) s"

lemma formatted_pan_ascii:
  assumes "is_ascii pan" and "13 \<le> length pan"
  shows "\<exists>fp. formatted_pan pan = Ok fp \<and> length fp = 12 \<and> is_ascii fp"
proof -
  let ?fp = "take 12 (drop (length pan - 13) pan)"
  have "str_slice pan (length pan - 13) (length pan - 1) = Some (take (length pan - 1 - (length pan - 13)) (drop (length pan - 13) pan))"
    using assms by (intro str_slice_ascii) simp_all
  moreover have "length pan - 1 - (length pan - 13) = 12" using assms(2) by simp
  ultimately have "formatted_pan pan = Ok ?fp" using assms(2) by (simp add: formatted_pan_def)
  moreover have "is_ascii ?fp" using assms(1) by (auto simp: list_all_iff dest: in_set_takeD in_set_dropD)
  ultimately show ?thesis using assms(2) by auto
qed

lemma utf8_chars_ascii: "is_ascii s \<Longrightarrow> utf8_chars s = map (\<lambda>b. [b]) s"
  by (induction s) simp_all

lemma reverse_chars_ascii: "is_ascii s \<Longrightarrow> reverse_chars s = rev s"
  by (simp add: reverse_chars_def utf8_chars_ascii rev_map concat_map_singleton)

lemma ascii_lengths:
  "length (ascii s) = length s"
  by (simp add: ascii_def)

lemma verify_command_answer:
  assumes "is_ascii pin" and "length pin = 16" and "length fp = 12" and "is_ascii fp"
    and "is_ascii pvv" and "length pvv = 4"
  shows "process_hsm_command \<lparr>header = hdr, command = ascii ''DA'', payload = verify_pin_payload pin fp pvv\<rparr>
    = Ok \<lparr>header = hdr, command = ascii ''DB'',
          payload = (if pvv = ascii ''9999'' then ascii ''05'' else ascii ''00'')\<rparr>"
proof -
  let ?p = "verify_pin_payload pin fp pvv"
  let ?s = "ascii ''AWK1234567890123'' @ pin @ ascii ''01'' @ fp @ ascii ''PVK1234567890123''"
  have len: "length ?p = 66" using assms by (simp add: verify_pin_payload_def ascii_lengths)
  have "valid_utf8 pvv" using assms(5) by (rule valid_utf8_ascii)
  then have "str_slice (?s @ pvv @ []) (length ?s) (length ?s + length pvv) = Some pvv"
    by (intro str_slice_parts) simp_all
  then have "str_slice ?p 62 66 = Some pvv"
    using assms(2,3,6) by (simp add: verify_pin_payload_def ascii_lengths)
  moreover have "ascii ''DA'' \<noteq> ascii ''CA''" by (simp add: ascii_def)
  ultimately show ?thesis using len by (simp add: process_hsm_command_def)
qed

lemma translate_command_answer:
  assumes "is_ascii pin" and "length pin = 16" and "is_ascii fp"
  shows "process_hsm_command \<lparr>header = hdr, command = ascii ''CA'', payload = translate_pin_payload pin fp\<rparr>
    = Ok \<lparr>header = hdr, command = ascii ''CB'', payload = ascii ''00'' @ rev pin\<rparr>"
proof -
  let ?p = "translate_pin_payload pin fp"
  let ?s = "ascii ''AWK1234567890123'' @ ascii ''ZWK1234567890123'' @ ascii ''12''"
  have "valid_utf8 pin" "valid_utf8 (ascii ''01'' @ fp)"
    using assms by (simp_all add: valid_utf8_ascii ascii_def)
  then have "str_slice (?s @ pin @ (ascii ''01'' @ fp)) (length ?s) (length ?s + length pin) = Some pin"
    by (rule str_slice_parts)
  moreover have "length ?s = 34" by (simp add: ascii_lengths)
  ultimately have "str_slice (?s @ pin @ (ascii ''01'' @ fp)) 34 50 = Some pin"
    using assms(2) by (simp only:) simp
  then have "str_slice ?p 34 50 = Some pin" by (simp add: translate_pin_payload_def)
  moreover have "50 \<le> length ?p" using assms(2) by (simp add: translate_pin_payload_def ascii_lengths)
  ultimately show ?thesis
    using assms(1) by (simp add: process_hsm_command_def reverse_chars_ascii Let_def)
qed

lemma translated_payload:
  assumes "is_ascii pin"
  shows "starts_with (ascii ''00'' @ rev pin) (ascii ''00'')"
    and "str_slice (ascii ''00'' @ rev pin) 2 (Suc (Suc (length pin))) = Some (rev pin)"
proof -
  have "valid_utf8 (rev pin)" using assms by (intro valid_utf8_ascii) (simp add: list_all_iff)
  then have "str_slice (ascii ''00'' @ rev pin @ []) (length (ascii ''00'')) (length (ascii ''00'') + length (rev pin))
      = Some (rev pin)"
    by (intro str_slice_parts) simp_all
  then show "str_slice (ascii ''00'' @ rev pin) 2 (Suc (Suc (length pin))) = Some (rev pin)"
    by (simp add: ascii_lengths numeral_2_eq_2)
qed (simp add: starts_with_def)

text \<open>A dispatched request and the response to it.\<close>

lemma dispatched:
  assumes "formatted_pan pan = Ok fp" and "outbox_open c"
  shows "dispatch_request r cmd pan build c =
    (let hdr = format_padded 4 (unat (counter c) mod 10000) in
     (Ok hdr, c\<lparr>counter := counter c + 1, correlation_map := (correlation_map c)(hdr \<mapsto> r),
        outbox := outbox c @ [\<lparr>header = hdr, command = cmd, payload = build fp\<rparr>]\<rparr>))"
  using assms by (simp add: dispatch_request_def next_header_def Let_def)

text \<open>Through the simulator, a translation request always yields the simulator's PIN block.\<close>

lemma read_length_prefixed: "length p < 65536 \<Longrightarrow> read_prefixed (length_prefixed p) = Some p"
  by (simp add: read_prefixed_def length_prefixed_value Let_def)

lemma stand_alone_translation:
  assumes "is_ascii pan" and "13 \<le> length pan"
    and "is_ascii src_key" and "is_ascii dst_key" and "is_ascii pin_block"
    and "length src_key + length dst_key + length pin_block < 65000"
  shows "\<exists>req. thales_request src_key dst_key pan pin_block = Ok req \<and>
    thales_reply (run_simulator req) = Ok (ascii ''9999999999AABBCC'')"
proof -
  obtain fp where fp: "formatted_pan pan = Ok fp" "is_ascii fp" "length fp = 12"
    using formatted_pan_ascii [OF assms(1,2)] by blast
  let ?cmd = "ascii ''CA'' @ src_key @ dst_key @ ascii ''12'' @ fp @ pin_block"
  let ?answer = "ascii ''CB9999999999AABBCC''"
  have "is_ascii (ascii ''CA'')" "is_ascii (ascii ''12'')" by (simp_all add: ascii_def)
  then have "from_utf8_lossy ?cmd = ?cmd" using assms fp by (intro lossy_valid valid_utf8_ascii) simp
  moreover have "read_prefixed (length_prefixed ?cmd) = Some ?cmd"
    using assms(6) fp(3) by (intro read_length_prefixed) (simp add: ascii_def)
  ultimately have "run_simulator (length_prefixed ?cmd) = length_prefixed ?answer"
    by (simp add: run_simulator_def)
  moreover have "read_prefixed (length_prefixed ?answer) = Some ?answer"
    by (rule read_length_prefixed) (simp add: ascii_def)
  then have "thales_reply (length_prefixed ?answer) = Ok (ascii ''9999999999AABBCC'')"
    by (simp add: thales_reply_def ascii_def valid_utf8_ascii starts_with_def str_slice_def
        is_char_boundary_def is_cont_def)
  ultimately show ?thesis using fp(1) by (simp add: thales_request_def)
qed

section \<open>Properties\<close>

text \<open>
  PIN verification through the HSM: with a 16-byte PIN block, a PAN of at least 13 digits and a
  four-digit PVV, the command the client queues is answered by the HSM with a response that the
  client's reader hands to the requester, and the request ends with the HSM's verdict: false iff
  the PVV is 9999.
\<close>

theorem pin_verification_exchange:
  assumes "is_ascii pin" "length pin = 16" "is_ascii pan" "13 \<le> length pan" "is_ascii pvv'" "length pvv' = 4"
    and "outbox_open c"
  shows "\<exists>hdr c1 request response. send_verify_pin r pin pan pvv' c = (Ok hdr, c1) \<and>
    outbox c1 = outbox c @ [request] \<and> process_hsm_command request = Ok response \<and>
    delivered (read_response response c1) = delivered c @ [(r, response)] \<and>
    fst (finish_verify_pin hdr (Response response) (read_response response c1)) = Ok (pvv' \<noteq> ascii ''9999'')"
proof -
  obtain fp where fp: "formatted_pan pan = Ok fp" "length fp = 12" "is_ascii fp"
    using formatted_pan_ascii [OF assms(3,4)] by blast
  let ?hdr = "format_padded 4 (unat (counter c) mod 10000)"
  let ?resp = "\<lparr>header = ?hdr, command = ascii ''DB'',
    payload = (if pvv' = ascii ''9999'' then ascii ''05'' else ascii ''00'')\<rparr>"
  have "verdict (ascii ''DB'') ?resp = Ok (pvv' \<noteq> ascii ''9999'')"
    by (simp add: verdict_def starts_with_def ascii_def)
  then show ?thesis
    using verify_command_answer [OF assms(1,2) fp(2,3) assms(5,6), of ?hdr]
    by (simp add: send_verify_pin_def dispatched [OF fp(1) assms(7)] read_response_def
        finish_verify_pin_def finish_verify_def Let_def)
qed

theorem pin_verification_exchange_witness:
  "\<exists>hdr c1 response. send_verify_pin 1 (ascii ''1234567890ABCDEF'') (ascii ''4111111111111111'')
      (ascii ''9999'') hsm_connect = (Ok hdr, c1) \<and>
    fst (finish_verify_pin hdr (Response response) (read_response response c1)) = Ok False"
proof -
  have "is_ascii (ascii ''1234567890ABCDEF'')" "is_ascii (ascii ''4111111111111111'')" "is_ascii (ascii ''9999'')"
    by (simp_all add: ascii_def)
  moreover have "outbox_open hsm_connect" by (simp add: hsm_connect_def)
  ultimately show ?thesis
    using pin_verification_exchange [of "ascii ''1234567890ABCDEF''" "ascii ''4111111111111111''"
        "ascii ''9999''" hsm_connect 1]
    by (simp add: ascii_lengths) blast
qed

text \<open>PIN translation through the HSM returns the translated block that the HSM computed.\<close>

theorem pin_translation_exchange:
  assumes "is_ascii pin" "length pin = 16" "is_ascii pan" "13 \<le> length pan" and "outbox_open c"
  shows "\<exists>hdr c1 request response. send_translate_pin r pin pan c = (Ok hdr, c1) \<and>
    outbox c1 = outbox c @ [request] \<and> process_hsm_command request = Ok response \<and>
    delivered (read_response response c1) = delivered c @ [(r, response)] \<and>
    fst (finish_translate_pin hdr (Response response) (read_response response c1)) = Ok (rev pin)"
proof -
  obtain fp where fp: "formatted_pan pan = Ok fp" "length fp = 12" "is_ascii fp"
    using formatted_pan_ascii [OF assms(3,4)] by blast
  let ?hdr = "format_padded 4 (unat (counter c) mod 10000)"
  show ?thesis
    using translate_command_answer [OF assms(1,2) fp(3), of ?hdr] translated_payload [OF assms(1)]
    by (simp add: send_translate_pin_def dispatched [OF fp(1) assms(5)] read_response_def
        finish_translate_pin_def ascii_lengths Let_def)
qed

theorem pin_translation_exchange_witness:
  "\<exists>hdr c1 response. send_translate_pin 1 (ascii ''1234567890ABCDEF'') (ascii ''4111111111111111'') hsm_connect
      = (Ok hdr, c1) \<and>
    fst (finish_translate_pin hdr (Response response) (read_response response c1)) = Ok (ascii ''FEDCBA0987654321'')"
proof -
  have "is_ascii (ascii ''1234567890ABCDEF'')" "is_ascii (ascii ''4111111111111111'')"
    by (simp_all add: ascii_def)
  moreover have "outbox_open hsm_connect" by (simp add: hsm_connect_def)
  moreover have "rev (ascii ''1234567890ABCDEF'') = ascii ''FEDCBA0987654321''" by (simp add: ascii_def)
  ultimately show ?thesis
    using pin_translation_exchange [of "ascii ''1234567890ABCDEF''" "ascii ''4111111111111111''" hsm_connect 1]
    by (simp add: ascii_lengths) blast
qed

text \<open>
  A PAN of twelve bytes panics every HSM request, and the request's receiver stays registered:
  nothing is sent, and the entry is only removed when a later request reuses the header.
\<close>

theorem twelve_digit_pan_panics:
  assumes "length pan = 12"
  shows "\<exists>c1. send_verify_pin r pin pan pvv' c = (Panic, c1) \<and> outbox c1 = outbox c \<and>
    correlation_map c1 (format_padded 4 (unat (counter c) mod 10000)) = Some r"
  using assms
  by (simp add: send_verify_pin_def dispatch_request_def next_header_def formatted_pan_def Let_def)

theorem twelve_digit_pan_panics_witness:
  "fst (send_verify_pin 1 [] (ascii ''411111111111'') [] hsm_connect) = Panic"
  using twelve_digit_pan_panics [of "ascii ''411111111111''" 1 "[]" "[]" hsm_connect]
  by (auto simp: ascii_lengths)

end
