(* ===== verification/Journal.thy ===== *)
theory Journal
  imports Canonical
begin

text \<open>
  The write-ahead journal: the writer thread of \<open>switch-core/src/journal.rs\<close>, the reader of
  \<open>payment-daemon/src/main.rs\<close> (\<open>get_journal\<close>), and the settlement sweep and cut-off of
  \<open>switch-core/src/bin/settle.rs\<close>. The journal is a memory-mapped file of fixed size; an entry is
  a four-byte big-endian length and the protobuf encoding of a transaction. The encoder and the
  decoder (prost) are parameters. The tally database (sled) is an association list.
\<close>

section \<open>The writer\<close>

record wal =
  mmap :: bytes
  wal_offset :: nat

definition wal_new :: "nat \<Rightarrow> wal" where
  "wal_new sz = \<lparr>mmap = replicate sz 0, wal_offset = 0\<rparr>"

definition copy_at :: "nat \<Rightarrow> bytes \<Rightarrow> bytes \<Rightarrow> bytes" where
  "copy_at i new xs = take i xs @ new @ drop (i + length new) xs"

text \<open>
  One round of the writer: an entry that does not fit is skipped; otherwise its length is stored,
  then its encoding. Encoding into a slice of exactly the encoded length succeeds. The file is
  mapped, so that a reader in another process can see it between the two stores.
\<close>

definition wal_put_length :: "(transaction \<Rightarrow> bytes) \<Rightarrow> wal \<Rightarrow> transaction \<Rightarrow> wal" where
  "wal_put_length enc w tx =
     \<lparr>mmap = copy_at (wal_offset w) (to_be_bytes 4 (length (enc tx))) (mmap w), wal_offset = wal_offset w + 4\<rparr>"

definition wal_put_payload :: "(transaction \<Rightarrow> bytes) \<Rightarrow> wal \<Rightarrow> transaction \<Rightarrow> wal" where
  "wal_put_payload enc w tx =
     \<lparr>mmap = copy_at (wal_offset w) (enc tx) (mmap w), wal_offset = wal_offset w + length (enc tx)\<rparr>"

definition wal_write :: "(transaction \<Rightarrow> bytes) \<Rightarrow> wal \<Rightarrow> transaction \<Rightarrow> wal" where
  "wal_write enc w tx =
     (let encoded_len = length (enc tx); required_space = 4 + encoded_len in
      if wal_offset w + required_space > length (mmap w) then w
      else wal_put_payload enc (wal_put_length enc w tx) tx)"

section \<open>The readers\<close>

text \<open>\<open>get_journal\<close>: decode entry after entry, then the last hundred, newest first.\<close>

function journal_events :: "(bytes \<Rightarrow> transaction option) \<Rightarrow> bytes \<Rightarrow> nat \<Rightarrow> transaction list" where
  "journal_events dec m offset =
     (if offset + 4 \<le> length m then
        let len = from_be_bytes (take 4 (drop offset m)); offset = offset + 4 in
        if len = 0 \<or> offset + len > length m then []
        else
          (case dec (take len (drop offset m)) of Some tx \<Rightarrow> [tx] | None \<Rightarrow> [])
          @ journal_events dec m (offset + len)
      else [])"
  by pat_completeness auto
termination by (relation "measure (\<lambda>(_, m, offset). length m - offset)") auto

declare journal_events.simps [simp del]

definition get_journal :: "(bytes \<Rightarrow> transaction option) \<Rightarrow> bytes \<Rightarrow> transaction list" where
  "get_journal dec m = take 100 (rev (journal_events dec m 0))"

type_synonym tally = "(bytes, bytes) dashmap"

text \<open>A stored \<open>u64\<close>; \<open>copy_from_slice\<close> panics on any other width.\<close>

definition get_u64 :: "tally \<Rightarrow> bytes \<Rightarrow> (unit, u64) outcome" where
  "get_u64 db k =
     (case map_of db k of
        Some v \<Rightarrow> if length v = 8 then Ok (of_nat (from_be_bytes v)) else Panic
      | None \<Rightarrow> Ok 0)"

definition put_u64 :: "bytes \<Rightarrow> u64 \<Rightarrow> tally \<Rightarrow> tally" where
  "put_u64 k n db = AList.update k (to_be_bytes 8 (unat n)) db"

definition count_key :: "rstring \<Rightarrow> bytes" where
  "count_key acq = acq @ ascii ''_count''"

definition cursor_key :: bytes where
  "cursor_key = ascii ''cursor_offset''"

definition settle_tx :: "transaction \<Rightarrow> tally \<Rightarrow> (unit, tally) outcome" where
  "settle_tx tx db =
     (if pb_mti tx = ascii ''0100'' \<and> pb_response_code tx = ascii ''00'' then
        bindo (get_u64 db (pb_acquirer_id tx)) (\<lambda>current_total.
          bindo (get_u64 db (count_key (pb_acquirer_id tx))) (\<lambda>current_count.
            Ok (put_u64 (count_key (pb_acquirer_id tx)) (current_count + 1)
                 (put_u64 (pb_acquirer_id tx) (current_total + pb_amount tx) db))))
      else Ok db)"

function sweep_loop ::
  "(bytes \<Rightarrow> transaction option) \<Rightarrow> bytes \<Rightarrow> nat \<Rightarrow> tally \<Rightarrow> (unit, nat \<times> tally) outcome" where
  "sweep_loop dec m cursor db =
     (if cursor + 4 \<le> length m then
        let len = from_be_bytes (take 4 (drop cursor m)) in
        if len = 0 then Ok (cursor, db)
        else if cursor + 4 + len > length m then Ok (cursor, db)
        else
          bindo (case dec (take len (drop (cursor + 4) m)) of
                   Some tx \<Rightarrow> settle_tx tx db | None \<Rightarrow> Ok db)
            (\<lambda>db1. sweep_loop dec m (cursor + (4 + len)) db1)
      else Ok (cursor, db))"
  by pat_completeness auto
termination by (relation "measure (\<lambda>(_, m, cursor, _). length m - cursor)") auto

declare sweep_loop.simps [simp del]

text \<open>One tick of the settlement loop over the mapped journal.\<close>

definition sweep :: "(bytes \<Rightarrow> transaction option) \<Rightarrow> bytes \<Rightarrow> tally \<Rightarrow> (unit, tally) outcome" where
  "sweep dec m db =
     (if length m < 4 then Ok db
      else bindo (get_u64 db cursor_key) (\<lambda>c.
        let cursor = unat c in
        if cursor \<ge> length m then Ok db
        else bindo (sweep_loop dec m cursor db) (\<lambda>(cursor1, db1).
          Ok (put_u64 cursor_key (of_nat cursor1) db1))))"

text \<open>
  The cut-off over the database entries in key order: a report row per acquirer, whose two keys
  are then removed.
\<close>

definition system_key :: "bytes \<Rightarrow> bool" where
  "system_key k \<longleftrightarrow> k = cursor_key \<or> ends_with k (ascii ''_count'')"

fun cutoff_rows ::
  "tally \<Rightarrow> (bytes \<times> bytes) list \<Rightarrow> (unit, (rstring \<times> u64 \<times> u64) list \<times> bytes list) outcome" where
  "cutoff_rows db [] = Ok ([], [])"
| "cutoff_rows db ((key, v) # rows) =
     (let k_str = from_utf8_lossy key in
      if system_key k_str then cutoff_rows db rows
      else if length v \<noteq> 8 then Panic
      else bindo (get_u64 db (count_key k_str)) (\<lambda>count_val.
        bindo (cutoff_rows db rows) (\<lambda>(out, reset).
          Ok ((k_str, count_val, of_nat (from_be_bytes v)) # out, k_str # count_key k_str # reset))))"

definition execute_cutoff :: "tally \<Rightarrow> (unit, (rstring \<times> u64 \<times> u64) list \<times> tally) outcome" where
  "execute_cutoff db =
     bindo (cutoff_rows db db) (\<lambda>(out, reset). Ok (out, foldl (\<lambda>d k. AList.delete k d) db reset))"

section \<open>What is in the journal\<close>

definition frame :: "bytes \<Rightarrow> bytes" where
  "frame e = to_be_bytes 4 (length e) @ e"

text \<open>The entries the writer keeps: each that fits in the space left when its turn comes.\<close>

fun accepted :: "(transaction \<Rightarrow> bytes) \<Rightarrow> nat \<Rightarrow> transaction list \<Rightarrow> transaction list" where
  "accepted enc space [] = []"
| "accepted enc space (tx # txs) =
     (if 4 + length (enc tx) \<le> space
      then tx # accepted enc (space - (4 + length (enc tx))) txs
      else accepted enc space txs)"

text \<open>What the codec must do on an entry: a non-empty encoding that decodes to it.\<close>

definition codec_ok :: "(transaction \<Rightarrow> bytes) \<Rightarrow> (bytes \<Rightarrow> transaction option) \<Rightarrow> transaction \<Rightarrow> bool" where
  "codec_ok enc dec tx \<longleftrightarrow> enc tx \<noteq> [] \<and> length (enc tx) < 2 ^ 32 \<and> dec (enc tx) = Some tx"

definition journal_bytes :: "(transaction \<Rightarrow> bytes) \<Rightarrow> transaction list \<Rightarrow> bytes" where
  "journal_bytes enc txs = concat (map (\<lambda>tx. frame (enc tx)) txs)"

lemma length_frame [simp]: "length (frame e) = 4 + length e"
  by (simp add: frame_def)

lemma wal_write_accepts:
  assumes "mmap w = pre @ replicate n 0" and "wal_offset w = length pre" and "4 + length (enc tx) \<le> n"
  shows "wal_write enc w tx = \<lparr>mmap = (pre @ frame (enc tx)) @ replicate (n - (4 + length (enc tx))) 0,
    wal_offset = length (pre @ frame (enc tx))\<rparr>"
proof -
  have "drop (length (to_be_bytes 4 k)) (replicate n 0) = replicate (n - 4) (0 :: u8)" for k by simp
  then show ?thesis
    using assms by (simp add: wal_write_def wal_put_length_def wal_put_payload_def copy_at_def frame_def Let_def diff_diff_add add.commute)
qed

lemma wal_writes:
  assumes "mmap w = pre @ replicate n 0" and "wal_offset w = length pre"
  shows "\<exists>k. mmap (foldl (wal_write enc) w txs) = pre @ journal_bytes enc (accepted enc n txs) @ replicate k 0"
  using assms
proof (induction txs arbitrary: w pre n)
  case Nil
  then show ?case by (auto simp: journal_bytes_def)
next
  case (Cons tx txs)
  show ?case
  proof (cases "4 + length (enc tx) \<le> n")
    case True
    then show ?thesis
      using Cons.IH [of "wal_write enc w tx" "pre @ frame (enc tx)" "n - (4 + length (enc tx))"]
        wal_write_accepts [of w pre n enc tx, OF Cons.prems True]
      by (simp add: journal_bytes_def)
  next
    case False
    then have "wal_write enc w tx = w" using Cons.prems by (simp add: wal_write_def Let_def)
    then show ?thesis using Cons.IH [OF Cons.prems] False by simp
  qed
qed

lemma zeros_value [simp]: "from_be_bytes (replicate k 0) = 0"
  by (induction k rule: nat.induct) (simp_all add: from_be_bytes_def)

lemma entry_at:
  assumes "length e < 2 ^ 32"
  shows "from_be_bytes (take 4 (drop (length pre) (pre @ frame e @ post))) = length e"
    and "take (length e) (drop (length pre + 4) (pre @ frame e @ post)) = e"
  using assms by (simp_all add: frame_def from_be_to_be_bytes)

lemma journal_events_entry:
  assumes "codec_ok enc dec tx"
  shows "journal_events dec (pre @ frame (enc tx) @ post) (length pre)
    = tx # journal_events dec ((pre @ frame (enc tx)) @ post) (length (pre @ frame (enc tx)))"
  using assms entry_at [of "enc tx" pre post]
  by (subst journal_events.simps) (simp add: codec_ok_def Let_def add.assoc)

lemma journal_events_zeros: "journal_events dec (pre @ replicate k 0) (length pre) = []"
  by (subst journal_events.simps) simp

lemma journal_events_bytes:
  assumes "\<forall>tx \<in> set txs. codec_ok enc dec tx"
  shows "journal_events dec (pre @ journal_bytes enc txs @ replicate k 0) (length pre) = txs"
  using assms
proof (induction txs arbitrary: pre)
  case Nil
  show ?case by (simp add: journal_bytes_def journal_events_zeros)
next
  case (Cons tx txs)
  then show ?case
    using journal_events_entry [of enc dec tx pre "journal_bytes enc txs @ replicate k 0"]
      Cons.IH [of "pre @ frame (enc tx)"]
    by (simp add: journal_bytes_def)
qed

lemma accepted_subset: "set (accepted enc n txs) \<subseteq> set txs"
  by (induction enc n txs rule: accepted.induct) auto

lemma accepted_all: "(\<Sum>tx\<leftarrow>txs. 4 + length (enc tx)) \<le> n \<Longrightarrow> accepted enc n txs = txs"
  by (induction txs arbitrary: n) auto

section \<open>The sweep\<close>

text \<open>Settling a list of transactions, and the tally it should give.\<close>

fun settle_all :: "transaction list \<Rightarrow> tally \<Rightarrow> (unit, tally) outcome" where
  "settle_all [] db = Ok db"
| "settle_all (tx # txs) db = bindo (settle_tx tx db) (settle_all txs)"

definition approved_for :: "rstring \<Rightarrow> transaction list \<Rightarrow> transaction list" where
  "approved_for acq txs = filter (\<lambda>tx. pb_mti tx = ascii ''0100'' \<and> pb_response_code tx = ascii ''00''
     \<and> pb_acquirer_id tx = acq) txs"

lemma sweep_loop_entry:
  assumes "codec_ok enc dec tx"
  shows "sweep_loop dec (pre @ frame (enc tx) @ post) (length pre) db
    = bindo (settle_tx tx db)
        (sweep_loop dec ((pre @ frame (enc tx)) @ post) (length (pre @ frame (enc tx))))"
  using assms entry_at [of "enc tx" pre post]
  by (subst sweep_loop.simps) (simp add: codec_ok_def Let_def)

lemma sweep_loop_zeros: "sweep_loop dec (pre @ replicate k 0) (length pre) db = Ok (length pre, db)"
  by (subst sweep_loop.simps) simp

lemma sweep_loop_bytes:
  assumes "\<forall>tx \<in> set txs. codec_ok enc dec tx"
  shows "sweep_loop dec (pre @ journal_bytes enc txs @ replicate k 0) (length pre) db
    = bindo (settle_all txs db) (\<lambda>db1. Ok (length (pre @ journal_bytes enc txs), db1))"
  using assms
proof (induction txs arbitrary: pre db)
  case Nil
  show ?case by (simp add: journal_bytes_def sweep_loop_zeros)
next
  case (Cons tx txs)
  have ih: "sweep_loop dec ((pre @ frame (enc tx)) @ journal_bytes enc txs @ replicate k 0)
      (length (pre @ frame (enc tx))) db1
    = bindo (settle_all txs db1) (\<lambda>db2. Ok (length ((pre @ frame (enc tx)) @ journal_bytes enc txs), db2))" for db1
    using Cons.prems by (intro Cons.IH) simp
  have "sweep_loop dec (pre @ frame (enc tx) @ (journal_bytes enc txs @ replicate k 0)) (length pre) db
      = bindo (settle_tx tx db) (\<lambda>db1. bindo (settle_all txs db1)
          (\<lambda>db2. Ok (length ((pre @ frame (enc tx)) @ journal_bytes enc txs), db2)))"
    using Cons.prems sweep_loop_entry [of enc dec tx pre "journal_bytes enc txs @ replicate k 0" db] ih
    by (cases "settle_tx tx db") simp_all
  then show ?case by (simp add: journal_bytes_def bindo_assoc)
qed

subsection \<open>Tallies\<close>

lemma get_put_u64 [simp]: "get_u64 (put_u64 k n db) k' = (if k' = k then Ok n else get_u64 db k')"
proof -
  have "unat n < 2 ^ 64" using unsigned_less [of n, where 'a = nat] by simp
  then have "from_be_bytes (to_be_bytes 8 (unat n)) = unat n" by (simp add: from_be_to_be_bytes)
  then show ?thesis by (simp add: get_u64_def put_u64_def update_conv')
qed

text \<open>Acquirer ids that cannot be mistaken for the sweep's own keys.\<close>

definition plain_acquirer :: "rstring \<Rightarrow> bool" where
  "plain_acquirer acq \<longleftrightarrow> \<not> system_key acq"

lemma count_key_system: "ends_with (count_key a) (ascii ''_count'')"
  by (simp add: count_key_def ends_with_def)

lemma count_key_inj [simp]: "count_key a = count_key b \<longleftrightarrow> a = b"
  by (simp add: count_key_def)

lemma plain_keys:
  assumes "plain_acquirer a"
  shows "a \<noteq> count_key b" "count_key b \<noteq> a" "a \<noteq> cursor_key" "cursor_key \<noteq> a"
  using assms count_key_system [of b] by (auto simp: plain_acquirer_def system_key_def)

lemma cursor_not_count [simp]: "count_key a \<noteq> cursor_key" "cursor_key \<noteq> count_key a"
proof -
  have "\<not> ends_with cursor_key (ascii ''_count'')" by (simp add: ends_with_def cursor_key_def ascii_def)
  then show "count_key a \<noteq> cursor_key" "cursor_key \<noteq> count_key a" using count_key_system [of a] by auto
qed

lemma settle_all_tallies:
  assumes "\<forall>tx \<in> set txs. plain_acquirer (pb_acquirer_id tx)" and "plain_acquirer acq"
    and "\<And>a. plain_acquirer a \<Longrightarrow> \<exists>t c. get_u64 db a = Ok t \<and> get_u64 db (count_key a) = Ok c"
    and "get_u64 db acq = Ok t" and "get_u64 db (count_key acq) = Ok c"
  shows "\<exists>db1. settle_all txs db = Ok db1 \<and>
    get_u64 db1 acq = Ok (t + sum_list (map pb_amount (approved_for acq txs))) \<and>
    get_u64 db1 (count_key acq) = Ok (c + of_nat (length (approved_for acq txs))) \<and>
    get_u64 db1 cursor_key = get_u64 db cursor_key"
  using assms
proof (induction txs arbitrary: db t c)
  case Nil
  then show ?case by (simp add: approved_for_def)
next
  case (Cons tx txs)
  let ?a = "pb_acquirer_id tx"
  have plain: "plain_acquirer ?a" using Cons.prems(1) by simp
  show ?case
  proof (cases "pb_mti tx = ascii ''0100'' \<and> pb_response_code tx = ascii ''00''")
    case False
    then show ?thesis
      using Cons.IH [OF _ Cons.prems(2-5)] Cons.prems(1) by (auto simp: settle_tx_def approved_for_def)
  next
    case True
    obtain ta ca where a: "get_u64 db ?a = Ok ta" "get_u64 db (count_key ?a) = Ok ca"
      using Cons.prems(3) [OF plain] by blast
    let ?db = "put_u64 (count_key ?a) (ca + 1) (put_u64 ?a (ta + pb_amount tx) db)"
    have step: "settle_tx tx db = Ok ?db" using True a by (simp add: settle_tx_def)
    note keys = plain_keys [OF plain] plain_keys [OF Cons.prems(2)]
    have all: "\<exists>t c. get_u64 ?db b = Ok t \<and> get_u64 ?db (count_key b) = Ok c" if "plain_acquirer b" for b
      using Cons.prems(3) [OF that] plain_keys [OF that] keys by auto
    let ?t = "if acq = ?a then t + pb_amount tx else t" and ?c = "if acq = ?a then c + 1 else c"
    have "get_u64 ?db acq = Ok ?t" and "get_u64 ?db (count_key acq) = Ok ?c"
      using keys a Cons.prems(4,5) by auto
    from Cons.IH [OF _ Cons.prems(2) all this] obtain db1 where db1: "settle_all txs ?db = Ok db1"
      "get_u64 db1 acq = Ok (?t + sum_list (map pb_amount (approved_for acq txs)))"
      "get_u64 db1 (count_key acq) = Ok (?c + of_nat (length (approved_for acq txs)))"
      "get_u64 db1 cursor_key = get_u64 ?db cursor_key"
      using Cons.prems(1) by auto
    moreover have "get_u64 ?db cursor_key = get_u64 db cursor_key" using keys by simp
    ultimately show ?thesis
      using True step by (auto simp: approved_for_def add.assoc)
  qed
qed

lemma journal_bytes_empty: "journal_bytes enc txs = [] \<longleftrightarrow> txs = []"
proof -
  have "frame e \<noteq> []" for e using length_frame [of e] by (metis add_is_0 length_0_conv zero_neq_numeral)
  then show ?thesis by (cases txs) (simp_all add: journal_bytes_def)
qed

text \<open>A sweep that starts where the last one stopped settles exactly the new entries.\<close>

lemma sweep_continues:
  assumes "\<forall>tx \<in> set txs. codec_ok enc dec tx"
    and m: "m = pre @ journal_bytes enc txs @ replicate k 0" and size: "4 \<le> length m" "length m < 2 ^ 64"
    and cursor: "get_u64 db cursor_key = Ok (of_nat (length pre))" and settled: "settle_all txs db = Ok db1"
  shows "\<exists>db2. sweep dec m db = Ok db2 \<and>
    get_u64 db2 cursor_key = Ok (of_nat (length (pre @ journal_bytes enc txs))) \<and>
    (\<forall>k'. k' \<noteq> cursor_key \<longrightarrow> get_u64 db2 k' = get_u64 db1 k')"
proof (cases "length pre < length m")
  case True
  have "length pre < 2 ^ 64" using m size(2) by simp
  then have val: "unat (of_nat (length pre) :: u64) = length pre" by (simp add: unat_of_nat)
  have "sweep dec m db = Ok (put_u64 cursor_key (of_nat (length (pre @ journal_bytes enc txs))) db1)"
    using True size cursor settled val sweep_loop_bytes [OF assms(1), of pre k db]
    by (auto simp add: sweep_def m Let_def)
  then show ?thesis by simp
next
  case False
  then have "txs = []" using m by (simp add: journal_bytes_empty)
  moreover have "unat (of_nat (length pre) :: u64) = length pre"
    using m size(2) by (simp add: unat_of_nat)
  ultimately show ?thesis
    using False size(1) cursor settled by (simp add: sweep_def journal_bytes_def Let_def)
qed

lemma wal_write_length: "length (mmap (wal_write enc w tx)) = length (mmap w)"
  by (auto simp: wal_write_def wal_put_length_def wal_put_payload_def copy_at_def Let_def)

lemma wal_bytes:
  "\<exists>k. mmap (foldl (wal_write enc) (wal_new n) txs) = journal_bytes enc (accepted enc n txs) @ replicate k 0"
  "length (mmap (foldl (wal_write enc) (wal_new n) txs)) = n"
proof -
  show "\<exists>k. mmap (foldl (wal_write enc) (wal_new n) txs) = journal_bytes enc (accepted enc n txs) @ replicate k 0"
    using wal_writes [of "wal_new n" "[]" n enc txs] by (simp add: wal_new_def)
  have "length (mmap (foldl (wal_write enc) w txs)) = length (mmap w)" for w
    by (induction txs arbitrary: w) (simp_all add: wal_write_length)
  then show "length (mmap (foldl (wal_write enc) (wal_new n) txs)) = n" by (simp add: wal_new_def)
qed

lemma accepted_append: "\<exists>n'. accepted enc n (txs @ later) = accepted enc n txs @ accepted enc n' later"
  by (induction enc n txs rule: accepted.induct) auto

lemma journal_bytes_append: "journal_bytes enc (xs @ ys) = journal_bytes enc xs @ journal_bytes enc ys"
  by (simp add: journal_bytes_def)

lemma approved_append: "approved_for acq (xs @ ys) = approved_for acq xs @ approved_for acq ys"
  by (simp add: approved_for_def)

text \<open>Every acquirer's tally can be read, and reads as the given total and count.\<close>

definition tallied :: "tally \<Rightarrow> (rstring \<Rightarrow> u64) \<Rightarrow> (rstring \<Rightarrow> u64) \<Rightarrow> bool" where
  "tallied db t c \<longleftrightarrow>
     (\<forall>a. plain_acquirer a \<longrightarrow> get_u64 db a = Ok (t a) \<and> get_u64 db (count_key a) = Ok (c a))"

lemma sweep_tallies:
  assumes ok: "\<forall>tx \<in> set txs. codec_ok enc dec tx \<and> plain_acquirer (pb_acquirer_id tx)"
    and m: "m = pre @ journal_bytes enc txs @ replicate k 0" and size: "4 \<le> length m" "length m < 2 ^ 64"
    and cursor: "get_u64 db cursor_key = Ok (of_nat (length pre))" and db: "tallied db t c"
  shows "\<exists>db2. sweep dec m db = Ok db2 \<and>
    get_u64 db2 cursor_key = Ok (of_nat (length (pre @ journal_bytes enc txs))) \<and>
    tallied db2 (\<lambda>a. t a + sum_list (map pb_amount (approved_for a txs)))
      (\<lambda>a. c a + of_nat (length (approved_for a txs)))"
proof -
  have readable: "plain_acquirer a \<Longrightarrow> \<exists>t c. get_u64 db a = Ok t \<and> get_u64 db (count_key a) = Ok c" for a
    using db by (auto simp: tallied_def)
  have stage: "\<exists>db1. settle_all txs db = Ok db1 \<and>
      get_u64 db1 a = Ok (t a + sum_list (map pb_amount (approved_for a txs))) \<and>
      get_u64 db1 (count_key a) = Ok (c a + of_nat (length (approved_for a txs))) \<and>
      get_u64 db1 cursor_key = get_u64 db cursor_key" if "plain_acquirer a" for a
    using ok db that by (intro settle_all_tallies readable) (auto simp: tallied_def)
  have "plain_acquirer []" by (simp add: plain_acquirer_def system_key_def ends_with_def cursor_key_def ascii_def)
  then obtain db1 where db1: "settle_all txs db = Ok db1" using stage by blast
  have "\<forall>tx \<in> set txs. codec_ok enc dec tx" using ok by blast
  from sweep_continues [OF this m size cursor db1] obtain db2 where db2: "sweep dec m db = Ok db2"
    "get_u64 db2 cursor_key = Ok (of_nat (length (pre @ journal_bytes enc txs)))"
    "\<forall>k'. k' \<noteq> cursor_key \<longrightarrow> get_u64 db2 k' = get_u64 db1 k'" by blast
  have "tallied db2 (\<lambda>a. t a + sum_list (map pb_amount (approved_for a txs)))
      (\<lambda>a. c a + of_nat (length (approved_for a txs)))"
    using stage db1 db2(3) plain_keys by (simp add: tallied_def)
  with db2 show ?thesis by blast
qed

section \<open>The cut-off\<close>

definition readable :: "tally \<Rightarrow> bool" where
  "readable db \<longleftrightarrow> distinct (map fst db) \<and> list_all (\<lambda>(k, v). valid_utf8 k \<and> length v = 8) db"

definition tally_value :: "tally \<Rightarrow> bytes \<Rightarrow> u64" where
  "tally_value db k = (case map_of db k of None \<Rightarrow> 0 | Some v \<Rightarrow> of_nat (from_be_bytes v))"

lemma readable_get: "readable db \<Longrightarrow> get_u64 db k = Ok (tally_value db k)"
  by (auto simp: readable_def get_u64_def tally_value_def list_all_iff split: option.splits dest!: map_of_SomeD)

lemma cutoff_rows_eq:
  assumes "readable db" and "list_all (\<lambda>(k, v). valid_utf8 k \<and> length v = 8) rows"
  shows "cutoff_rows db rows =
    (let own = filter (\<lambda>(k, v). \<not> system_key k) rows in
     Ok (map (\<lambda>(k, v). (k, tally_value db (count_key k), of_nat (from_be_bytes v))) own,
         concat (map (\<lambda>(k, v). [k, count_key k]) own)))"
  using assms(2) by (induction rows) (auto simp: readable_get [OF assms(1)] Let_def)

section \<open>Properties\<close>

text \<open>
  C17. The journal view shows what was written: \<open>get_journal\<close> returns the newest hundred, newest
  first, of the transactions whose entry fitted when it was written, which are all that were
  appended if the file is large enough. An entry that does not fit is dropped and damages no other.
\<close>

theorem journal_roundtrip:
  assumes "\<forall>tx \<in> set txs. codec_ok enc dec tx"
  shows "get_journal dec (mmap (foldl (wal_write enc) (wal_new n) txs)) = take 100 (rev (accepted enc n txs)) \<and>
    ((\<Sum>tx\<leftarrow>txs. 4 + length (enc tx)) \<le> n \<longrightarrow>
      get_journal dec (mmap (foldl (wal_write enc) (wal_new n) txs)) = take 100 (rev txs))"
proof -
  obtain k where "mmap (foldl (wal_write enc) (wal_new n) txs) = journal_bytes enc (accepted enc n txs) @ replicate k 0"
    using wal_bytes(1) by blast
  moreover have "\<forall>tx \<in> set (accepted enc n txs). codec_ok enc dec tx"
    using assms accepted_subset by blast
  ultimately show ?thesis
    using journal_events_bytes [of "accepted enc n txs" enc dec "[]" k] accepted_all
    by (auto simp: get_journal_def)
qed

text \<open>A protobuf codec that keeps the acquirer only, for the instances below.\<close>

definition sample_tx :: "rstring \<Rightarrow> transaction" where
  "sample_tx acq = \<lparr>pb_mti = ascii ''0100'', pb_pan = [], pb_processing_code = [], pb_amount = 7, pb_stan = [],
     pb_rrn = [], pb_response_code = ascii ''00'', pb_acquirer_id = acq, pb_pin_block = [],
     pb_local_time = [], pb_local_date = []\<rparr>"

definition sample_enc :: "transaction \<Rightarrow> bytes" where
  "sample_enc tx = pb_acquirer_id tx"

definition sample_dec :: "bytes \<Rightarrow> transaction option" where
  "sample_dec bs = Some (sample_tx bs)"

lemma sample_codec_ok: "codec_ok sample_enc sample_dec (sample_tx [b])"
  by (simp add: codec_ok_def sample_enc_def sample_dec_def sample_tx_def)

theorem journal_roundtrip_witness:
  "get_journal sample_dec (mmap (foldl (wal_write sample_enc) (wal_new 64)
      [sample_tx [0x41], sample_tx [0x42]])) = [sample_tx [0x42], sample_tx [0x41]]"
proof -
  have "\<forall>tx \<in> set [sample_tx [0x41], sample_tx [0x42]]. codec_ok sample_enc sample_dec tx"
    using sample_codec_ok by simp
  from journal_roundtrip [OF this, of 64] show ?thesis
    by (simp add: sample_enc_def sample_tx_def)
qed

text \<open>
  The settlement loop beside the writer: in each tick a batch of transactions is written to the
  journal, then the journal is swept.
\<close>

definition settlement_tick ::
  "(transaction \<Rightarrow> bytes) \<Rightarrow> (bytes \<Rightarrow> transaction option) \<Rightarrow> wal \<times> (unit, tally) outcome
    \<Rightarrow> transaction list \<Rightarrow> wal \<times> (unit, tally) outcome" where
  "settlement_tick enc dec st batch = (case st of (w, db) \<Rightarrow>
     let w1 = foldl (wal_write enc) w batch in (w1, bindo db (sweep dec (mmap w1))))"

definition settlement_ticks ::
  "(transaction \<Rightarrow> bytes) \<Rightarrow> (bytes \<Rightarrow> transaction option) \<Rightarrow> nat \<Rightarrow> transaction list list
    \<Rightarrow> (unit, tally) outcome" where
  "settlement_ticks enc dec n batches =
     snd (foldl (settlement_tick enc dec) (wal_new n, Ok []) batches)"

lemma settlement_ticks_wal:
  "fst (foldl (settlement_tick enc dec) (wal_new n, Ok []) batches) = foldl (wal_write enc) (wal_new n) (concat batches)"
  by (induction batches rule: rev_induct) (simp_all add: settlement_tick_def case_prod_beta Let_def)

lemma settlement_ticks_snoc:
  "settlement_ticks enc dec n (batches @ [b]) = bindo (settlement_ticks enc dec n batches)
     (sweep dec (mmap (foldl (wal_write enc) (wal_new n) (concat batches @ b))))"
  using settlement_ticks_wal [of enc dec n batches]
  by (simp add: settlement_ticks_def settlement_tick_def case_prod_beta Let_def)

lemma settlement_ticks_tally:
  assumes "\<forall>tx \<in> set (concat batches). codec_ok enc dec tx \<and> plain_acquirer (pb_acquirer_id tx)"
    and size: "4 \<le> n" "n < 2 ^ 64"
  shows "\<exists>db. settlement_ticks enc dec n batches = Ok db \<and>
    get_u64 db cursor_key = Ok (of_nat (length (journal_bytes enc (accepted enc n (concat batches))))) \<and>
    tallied db (\<lambda>a. sum_list (map pb_amount (approved_for a (accepted enc n (concat batches)))))
      (\<lambda>a. of_nat (length (approved_for a (accepted enc n (concat batches)))))"
  using assms(1)
proof (induction batches rule: rev_induct)
  case Nil
  show ?case by (simp add: settlement_ticks_def get_u64_def tallied_def journal_bytes_def approved_for_def)
next
  case (snoc b bs)
  let ?m = "mmap (foldl (wal_write enc) (wal_new n) (concat bs @ b))" and ?as = "accepted enc n (concat bs)"
  obtain n' where all: "accepted enc n (concat bs @ b) = ?as @ accepted enc n' b"
    using accepted_append by blast
  let ?new = "accepted enc n' b"
  obtain k where m: "?m = journal_bytes enc ?as @ journal_bytes enc ?new @ replicate k 0"
    using wal_bytes(1) [of enc n "concat bs @ b"] by (auto simp: all journal_bytes_append)
  have ok: "\<forall>tx \<in> set ?new. codec_ok enc dec tx \<and> plain_acquirer (pb_acquirer_id tx)"
    using snoc.prems accepted_subset [of enc n' b] by auto
  obtain db where db: "settlement_ticks enc dec n bs = Ok db"
    "get_u64 db cursor_key = Ok (of_nat (length (journal_bytes enc ?as)))"
    "tallied db (\<lambda>a. sum_list (map pb_amount (approved_for a ?as))) (\<lambda>a. of_nat (length (approved_for a ?as)))"
    using snoc.IH snoc.prems by auto
  have len: "4 \<le> length ?m" "length ?m < 2 ^ 64" using size wal_bytes(2) [of enc n "concat bs @ b"] by simp_all
  from sweep_tallies [OF ok m len db(2,3)] show ?case
    by (simp add: settlement_ticks_snoc db(1) all approved_append journal_bytes_append)
qed

text \<open>
  C16. Settlement counts each approved transaction once, however the writes fall between the ticks.
  For any batches of transactions, written one batch per tick and swept after each, every sweep
  succeeds, and at the end the total and the count of an acquirer are the sum and the number of its
  approved 0100 entries in the journal, and the stored cursor is the end of the written entries.
  (Totals are 64-bit; acquirer ids must not look like the sweep's own keys; a sweep does not run
  inside the write of an entry.)
\<close>

theorem settlement_exactly_once:
  assumes "\<forall>tx \<in> set (concat batches). codec_ok enc dec tx \<and> plain_acquirer (pb_acquirer_id tx)"
    and "4 \<le> n" and "n < 2 ^ 64" and "plain_acquirer acq"
  shows "\<exists>db. settlement_ticks enc dec n batches = Ok db \<and>
    get_u64 db acq = Ok (sum_list (map pb_amount (approved_for acq (accepted enc n (concat batches))))) \<and>
    get_u64 db (count_key acq) = Ok (of_nat (length (approved_for acq (accepted enc n (concat batches))))) \<and>
    get_u64 db cursor_key = Ok (of_nat (\<Sum>tx\<leftarrow>accepted enc n (concat batches). 4 + length (enc tx)))"
proof -
  have "length (journal_bytes enc txs) = (\<Sum>tx\<leftarrow>txs. 4 + length (enc tx))" for txs
    by (induction txs) (simp_all add: journal_bytes_def)
  then show ?thesis using settlement_ticks_tally [OF assms(1-3)] assms(4) by (auto simp: tallied_def)
qed

theorem settlement_exactly_once_witness:
  "\<exists>db. settlement_ticks sample_enc sample_dec 64 [[sample_tx [0x41]], [sample_tx [0x41]], [sample_tx [0x41]]] = Ok db \<and>
    get_u64 db [0x41] = Ok 21 \<and> get_u64 db (count_key [0x41]) = Ok 3 \<and> get_u64 db cursor_key = Ok 15"
proof -
  have plain: "plain_acquirer [0x41]"
    by (simp add: plain_acquirer_def system_key_def cursor_key_def ends_with_def ascii_def)
  have "plain_acquirer (pb_acquirer_id (sample_tx [0x41]))" using plain by (simp add: sample_tx_def)
  then have "\<forall>tx \<in> set (concat [[sample_tx [0x41]], [sample_tx [0x41]], [sample_tx [0x41]]]).
      codec_ok sample_enc sample_dec tx \<and> plain_acquirer (pb_acquirer_id tx)"
    using sample_codec_ok by simp
  from settlement_exactly_once [OF this _ _ plain, of 64] show ?thesis
    by (simp add: approved_for_def sample_enc_def sample_tx_def)
qed

text \<open>
  A sweep inside the write of an entry loses it. When the settlement process sweeps after the
  length of an entry is stored and before its encoding is, it reads zeros, which protobuf rejects,
  and moves its cursor past the entry: the next sweep, with the entry complete, leaves every tally
  as it was before.
\<close>

theorem torn_entry_never_settled:
  assumes "mmap w = journal_bytes enc txs @ replicate k 0" and "wal_offset w = length (journal_bytes enc txs)"
    and "codec_ok enc dec tx" and "4 + length (enc tx) \<le> k" and "length (mmap w) < 2 ^ 64"
    and "dec (replicate (length (enc tx)) 0) = None"
    and "get_u64 db cursor_key = Ok (of_nat (length (journal_bytes enc txs)))"
  shows "\<exists>db1 db2. sweep dec (mmap (wal_put_length enc w tx)) db = Ok db1 \<and>
    sweep dec (mmap (wal_write enc w tx)) db1 = Ok db2 \<and>
    (\<forall>k'. k' \<noteq> cursor_key \<longrightarrow> get_u64 db2 k' = get_u64 db k')"
proof -
  let ?pre = "journal_bytes enc txs" and ?len = "length (enc tx)"
  let ?rest = "replicate (k - (4 + ?len)) (0 :: u8)" and ?zeros = "replicate ?len (0 :: u8)"
  let ?stop = "length ?pre + 4 + ?len"
  have len: "0 < ?len" "?len < 2 ^ 32" using assms(3) by (auto simp: codec_ok_def)
  have "replicate (k - 4) (0 :: u8) = ?zeros @ ?rest"
    using assms(4) by (simp flip: replicate_add)
  then have torn: "mmap (wal_put_length enc w tx) = ?pre @ frame_head @ ?zeros @ ?rest"
    if "frame_head = to_be_bytes 4 ?len" for frame_head
    using assms(1,2,4) that by (simp add: wal_put_length_def copy_at_def)
  define head where "head = to_be_bytes 4 ?len"
  note torn = torn [OF head_def]
  have full: "mmap (wal_write enc w tx) = (?pre @ frame (enc tx)) @ ?rest"
    using wal_write_accepts [of w ?pre k enc tx] assms(1,2,4) by simp
  have "unat (of_nat m :: u64) = m" if "m \<le> ?stop" for m
  proof -
    have "m < 2 ^ 64" using that assms(1,4,5) by simp
    then show ?thesis by (simp add: unat_of_nat)
  qed
  then have small: "unat (of_nat (length ?pre) :: u64) = length ?pre" "unat (of_nat ?stop :: u64) = ?stop"
    by (simp_all del: of_nat_add)
  have "sweep_loop dec (?pre @ head @ ?zeros @ ?rest) (length ?pre) db = Ok (?stop, db)"
  proof -
    have "from_be_bytes head = ?len" using len(2) by (simp add: head_def from_be_to_be_bytes)
    moreover have "sweep_loop dec ((?pre @ head @ ?zeros) @ ?rest) (length (?pre @ head @ ?zeros)) db
        = Ok (length (?pre @ head @ ?zeros), db)" by (rule sweep_loop_zeros)
    ultimately show ?thesis
      using len(1) assms(6) by (subst sweep_loop.simps) (simp add: head_def add.assoc)
  qed
  then have "sweep dec (mmap (wal_put_length enc w tx)) db = Ok (put_u64 cursor_key (of_nat ?stop) db)"
    using assms(3,7) small(1)
    by (simp add: sweep_def torn del: of_nat_add) (simp add: head_def codec_ok_def del: of_nat_add)
  moreover have "\<exists>db2. sweep dec (mmap (wal_write enc w tx)) (put_u64 cursor_key (of_nat ?stop) db) = Ok db2 \<and>
      (\<forall>k'. k' \<noteq> cursor_key \<longrightarrow> get_u64 db2 k' = get_u64 db k')"
  proof (cases "?rest = []")
    case True
    then show ?thesis using small(2) by (simp add: sweep_def full del: of_nat_add)
  next
    case False
    have "sweep_loop dec ((?pre @ frame (enc tx)) @ ?rest) ?stop d = Ok (?stop, d)" for d
      using sweep_loop_zeros [of dec "?pre @ frame (enc tx)" "k - (4 + ?len)" d] by (simp add: add.assoc)
    then show ?thesis using False small(2) by (simp add: sweep_def full Let_def del: of_nat_add)
  qed
  ultimately show ?thesis by blast
qed

text \<open>
  The cut-off reports every acquirer once and starts the next day at zero. The report has one
  row per acquirer with a tally, with its count and total; afterwards every acquirer's total and
  the reported ones' counts read zero, while the journal cursor stays, so that later sweeps count
  new entries only.
\<close>

theorem cutoff_reports_and_resets:
  assumes "distinct (map fst db)" and "list_all (\<lambda>(k, v). valid_utf8 k \<and> length v = 8) db"
  shows "\<exists>out db'. execute_cutoff db = Ok (out, db') \<and> distinct (map fst out) \<and>
    (\<forall>acq cnt total. (acq, cnt, total) \<in> set out \<longleftrightarrow> plain_acquirer acq \<and> acq \<in> fst ` set db \<and>
      get_u64 db (count_key acq) = Ok cnt \<and> get_u64 db acq = Ok total) \<and>
    (\<forall>acq. plain_acquirer acq \<longrightarrow> get_u64 db' acq = Ok 0) \<and>
    (\<forall>acq \<in> fst ` set out. get_u64 db' (count_key acq) = Ok 0) \<and>
    get_u64 db' cursor_key = get_u64 db cursor_key"
proof -
  have ok: "readable db" using assms by (simp add: readable_def)
  let ?own = "filter (\<lambda>(k, v). \<not> system_key k) db"
  let ?row = "\<lambda>(k, v). (k, tally_value db (count_key k), of_nat (from_be_bytes v) :: u64)"
  define out where "out = map ?row ?own"
  define reset where "reset = concat (map (\<lambda>(k, v). [k, count_key k]) ?own)"
  define db' where "db' = foldl (\<lambda>d k. AList.delete k d) db reset"
  have run: "execute_cutoff db = Ok (out, db')"
    using cutoff_rows_eq [OF ok assms(2)] by (simp add: execute_cutoff_def out_def db'_def reset_def Let_def)
  have names: "map fst out = map fst ?own" by (simp add: out_def case_prod_beta comp_def)
  have "distinct (map fst out)" unfolding names using assms(1) by (rule distinct_map_filter)
  moreover have row: "(acq, cnt, total) \<in> set out \<longleftrightarrow> plain_acquirer acq \<and> acq \<in> fst ` set db \<and>
      get_u64 db (count_key acq) = Ok cnt \<and> get_u64 db acq = Ok total" for acq cnt total
  proof -
    have "tally_value db k = of_nat (from_be_bytes v)" if "(k, v) \<in> set db" for k v
      using that assms(1) by (simp add: tally_value_def)
    then have "(acq, cnt, total) \<in> set out \<longleftrightarrow> \<not> system_key acq \<and> (\<exists>v. (acq, v) \<in> set db) \<and>
        cnt = tally_value db (count_key acq) \<and> total = tally_value db acq"
      by (auto simp: out_def)
    then show ?thesis by (force simp: plain_acquirer_def readable_get [OF ok])
  qed
  moreover have keys: "k \<in> set reset \<longleftrightarrow> (\<exists>a. plain_acquirer a \<and> a \<in> fst ` set db \<and> (k = a \<or> k = count_key a))" for k
    by (force simp: reset_def plain_acquirer_def)
  have after: "get_u64 db' k = (if k \<in> set reset then Ok 0 else get_u64 db k)" for k
    by (simp add: db'_def get_u64_def map_of_deletes)
  have fresh: "get_u64 db acq = Ok 0" if "acq \<notin> fst ` set db" for acq
    using that by (simp add: get_u64_def map_of_eq_None_iff [THEN iffD2])
  have "get_u64 db' acq = Ok 0" if "plain_acquirer acq" for acq
    using that keys [of acq] fresh by (auto simp: after)
  moreover have "get_u64 db' (count_key acq) = Ok 0" if "acq \<in> fst ` set out" for acq
  proof -
    obtain cnt total where "(acq, cnt, total) \<in> set out" using \<open>acq \<in> fst ` set out\<close> by auto
    then have "count_key acq \<in> set reset" using row keys by blast
    then show ?thesis by (simp add: after)
  qed
  moreover have "get_u64 db' cursor_key = get_u64 db cursor_key"
    using keys [of cursor_key] by (auto simp: after dest: plain_keys(4))
  ultimately show ?thesis using run by blast
qed

theorem cutoff_reports_and_resets_witness:
  "\<exists>out db'. execute_cutoff (put_u64 [0x41] 300 (put_u64 (count_key [0x41]) 3 [])) = Ok (out, db') \<and>
    ([0x41], 3, 300) \<in> set out \<and> get_u64 db' [0x41] = Ok 0"
proof -
  let ?db = "put_u64 [0x41] 300 (put_u64 (count_key [0x41]) 3 [])"
  have plain: "plain_acquirer [0x41]"
    by (simp add: plain_acquirer_def system_key_def cursor_key_def ends_with_def ascii_def)
  have "valid_utf8 (count_key [0x41])" by (rule valid_utf8_ascii) (simp add: count_key_def ascii_def)
  then have db: "distinct (map fst ?db)" "list_all (\<lambda>(k, v). valid_utf8 k \<and> length v = 8) ?db"
    "[0x41] \<in> fst ` set ?db"
    using plain_keys [OF plain] by (simp_all add: put_u64_def)
  have "get_u64 ?db (count_key [0x41]) = Ok 3" "get_u64 ?db [0x41] = Ok 300"
    using plain_keys [OF plain] by simp_all
  then show ?thesis using cutoff_reports_and_resets [OF db(1,2)] plain db(3) by blast
qed

end
