(* ===== verification/Edge.thy ===== *)
theory Edge
  imports Iso_Dialect Framing Switch_State
begin

text \<open>
  The edges of the switch. Inbound: the per-message task of \<open>edge-ingress/src/server.rs\<close>.
  Outbound: the upstream client of \<open>edge-egress/src/client.rs\<close> with its store-and-forward queue,
  and the mock bank of \<open>ISO8583PaymentSimulator/mock-bank-node/src/main.rs\<close> at the other end,
  as well as the mock ATM that sends a tokenised payment. Sockets are reduced to whether a write succeeds; the protobuf codec (prost) is a parameter. The
  store-and-forward database (sled) is an association list.
\<close>

section \<open>Ingress server\<close>

text \<open>
  A framed payload becomes a context with a fresh responder; a payload that does not parse is
  dropped; a panic of the parser ends the connection's task.
\<close>

definition server_receive ::
  "(bytes \<Rightarrow> (parse_error, event) outcome) \<Rightarrow> bytes \<Rightarrow> nat \<Rightarrow> (unit, transaction_context option) outcome" where
  "server_receive parse msg r =
     (case parse msg of
        Ok tx \<Rightarrow> Ok (Some \<lparr>ctx_transaction = tx, ctx_responder = Some r\<rparr>)
      | Err _ \<Rightarrow> Ok None
      | Panic \<Rightarrow> Panic)"

text \<open>The two ends of the wait: the engine answers, or the terminal's socket drops.\<close>

definition server_reply :: "(event \<Rightarrow> bytes) \<Rightarrow> event \<Rightarrow> bytes io" where
  "server_reply build_response response = iso8583_encode (build_response response) []"

definition server_disconnect :: "event \<Rightarrow> transaction_context" where
  "server_disconnect tx = \<lparr>ctx_transaction = tx\<lparr>mti := ascii ''0420''\<rparr>, ctx_responder = None\<rparr>"

section \<open>Egress client\<close>

definition egress_encode :: "event \<Rightarrow> bytes" where
  "egress_encode tx = (case router_encode Connex tx of Ok b \<Rightarrow> b | _ \<Rightarrow> [])"

definition saf_key :: "event \<Rightarrow> bytes" where
  "saf_key tx = stan tx @ ascii ''-'' @ rrn tx"

definition saf_worthy :: "event \<Rightarrow> bool" where
  "saf_worthy tx \<longleftrightarrow> from_utf8_lossy (mti tx) = ascii ''0420'' \<or> from_utf8_lossy (mti tx) = ascii ''0220''"

definition saf_store ::
  "(transaction \<Rightarrow> bytes) \<Rightarrow> event \<Rightarrow> (bytes, bytes) dashmap \<Rightarrow> (bytes, bytes) dashmap" where
  "saf_store enc tx db = (if saf_worthy tx then AList.update (saf_key tx) (enc (to_pb tx)) db else db)"

text \<open>A context taken while connected: sent through the sink, or stored when that is gone.\<close>

definition egress_send ::
  "(transaction \<Rightarrow> bytes) \<Rightarrow> bool \<Rightarrow> event \<Rightarrow> bytes list \<times> (bytes, bytes) dashmap
    \<Rightarrow> bytes list \<times> (bytes, bytes) dashmap" where
  "egress_send enc sink_ok tx st =
     (case st of (sink, db) \<Rightarrow>
        if sink_ok then (sink @ [egress_encode tx], db) else (sink, saf_store enc tx db))"

text \<open>A context taken while the bank cannot be reached: stored, or dropped.\<close>

definition egress_offline ::
  "(transaction \<Rightarrow> bytes) \<Rightarrow> event \<Rightarrow> (bytes, bytes) dashmap \<Rightarrow> (bytes, bytes) dashmap" where
  "egress_offline enc tx db = saf_store enc tx db"

text \<open>
  One pass of the store-and-forward task over a fresh connection: what it writes to the socket
  and the keys whose write succeeded, which are then removed.
\<close>

fun saf_rows ::
  "(bytes \<Rightarrow> transaction option) \<Rightarrow> (bytes \<Rightarrow> bool) \<Rightarrow> (bytes \<times> bytes) list \<Rightarrow> bytes \<times> bytes list" where
  "saf_rows dec write_ok [] = ([], [])"
| "saf_rows dec write_ok ((key, v) # rows) =
     (case saf_rows dec write_ok rows of (out, keys) \<Rightarrow>
        (case dec v of
           None \<Rightarrow> (out, keys)
         | Some pb \<Rightarrow>
             (case upstream_encode (egress_encode (from_pb pb)) [] of
                Ok frm \<Rightarrow> if write_ok frm then (frm @ out, key # keys) else (out, keys)
              | _ \<Rightarrow> (out, keys))))"

definition saf_drain ::
  "(bytes \<Rightarrow> transaction option) \<Rightarrow> (bytes \<Rightarrow> bool) \<Rightarrow> (bytes, bytes) dashmap
    \<Rightarrow> bytes \<times> (bytes, bytes) dashmap" where
  "saf_drain dec write_ok db =
     (case saf_rows dec write_ok db of (out, keys) \<Rightarrow>
        (out, foldl (\<lambda>d k. AList.delete k d) db keys))"

text \<open>The reader task: a decoded reply goes to the bank-reply channel.\<close>

definition egress_read :: "bytes \<Rightarrow> (unit, transaction option) outcome" where
  "egress_read msg =
     (case router_decode Connex msg of
        Ok tx \<Rightarrow> Ok (Some (to_pb tx))
      | Err _ \<Rightarrow> Ok None
      | Panic \<Rightarrow> Panic)"

section \<open>The mock bank\<close>

definition bank_response :: "event \<Rightarrow> event option" where
  "bank_response tx =
     (case message_class tx of
        NetworkManagement \<Rightarrow> Some (tx\<lparr>mti := ascii ''0810'', response_code := ascii ''00'',
          message_class := NetworkManagementResponse\<rparr>)
      | ReversalAdvice \<Rightarrow> Some (tx\<lparr>mti := ascii ''0430'', response_code := ascii ''00'',
          message_class := ReversalResponse\<rparr>)
      | Authorization \<Rightarrow> Some (tx\<lparr>mti := ascii ''0110'', response_code :=
          (if amount tx > 50000 then ascii ''51''
           else if ends_with (fpan tx) (ascii ''9999'') then ascii ''59'' else ascii ''00'')\<rparr>)
      | Financial \<Rightarrow> Some (tx\<lparr>mti := ascii ''0210'', response_code :=
          (if amount tx > 50000 then ascii ''51''
           else if ends_with (fpan tx) (ascii ''9999'') then ascii ''59'' else ascii ''00'')\<rparr>)
      | _ \<Rightarrow> None)"

definition process_bank_rules :: "event \<Rightarrow> dialect_router \<Rightarrow> bytes option" where
  "process_bank_rules tx dialect =
     (case bank_response tx of
        None \<Rightarrow> None
      | Some response \<Rightarrow> (case router_encode dialect response of Ok b \<Rightarrow> Some b | _ \<Rightarrow> None))"

definition bank_receive :: "dialect_router \<Rightarrow> bytes \<Rightarrow> (unit, bytes option) outcome" where
  "bank_receive dialect msg =
     (case router_decode dialect msg of
        Ok tx \<Rightarrow> Ok (process_bank_rules tx dialect)
      | Err _ \<Rightarrow> Ok None
      | Panic \<Rightarrow> Panic)"

section \<open>The mock ATM\<close>

text \<open>
  \<open>ISO8583PaymentSimulator/src/bin/mock_atm.rs\<close>: a contactless payment with a device token in
  place of the card number. Whether the connection and the write succeed are inputs; the result is
  the answer to the HTTP caller and the bytes written in full.
\<close>

definition apple_pay_event :: event where
  "apple_pay_event =
     \<lparr> message_class = Authorization, transaction_type = Purchase, mti = ascii ''0100'',
       fpan = ascii ''4000000000009999'', dpan = None, is_tokenized = True,
       tavv_cryptogram = Some (ascii ''AABBCCDDEEFF0011''), processing_code = ascii ''000000'',
       amount = 8500, stan = ascii ''654321'', local_time = ascii ''140230'',
       local_date = ascii ''0414'', rrn = ascii ''000123456789'', response_code = [],
       acquirer_id = ascii ''999999'', pin_block = [], risk_score = 0,
       requires_instant_clearing = False, domestic_settlement_data = None, source_account = None,
       destination_account = None, original_data_elements = None, mac_data = None,
       is_reversal = False \<rparr>"

definition trigger_apple_pay :: "bool \<Rightarrow> bool \<Rightarrow> (unit, rstring \<times> bytes option) outcome" where
  "trigger_apple_pay connects written =
     (case router_encode Base24 apple_pay_event of
        Ok encoded \<Rightarrow>
          (if connects \<and> written
           then Ok (ascii ''Successfully Trigerred Apple Pay Token Flow'', Some (length_prefixed encoded))
           else Ok (ascii ''Failed to send Apple Pay Token'', None))
      | Err _ \<Rightarrow> Ok (ascii ''Failed to send Apple Pay Token'', None)
      | Panic \<Rightarrow> Panic)"

section \<open>Exchange with the bank\<close>

lemma router_simps: "router_encode d = universal_encode" "router_decode d = universal_decode"
  by (cases d; auto)+

lemma egress_encode_ok: "universal_encode tx = Ok (egress_encode tx)"
  by (simp add: egress_encode_def universal_encode_def split: prod.splits)

text \<open>Every message the switch, the bank or the ATM encodes is short enough for its frame.\<close>

lemma egress_encode_fits: "length (egress_encode tx) \<le> 1300"
proof -
  have cryp: "length (case c of None \<Rightarrow> [] | Some v \<Rightarrow> write_lllvar v) \<le> 1002" for c
    by (simp add: length_write_lllvar split: option.splits)
  have "length (payload_of (universal_segments tx)) \<le> 1273"
    using length_payload_of [of "universal_segments tx"] length_write_llvar [of "fpan tx"]
      length_write_llvar [of "acquirer_id tx"] cryp [of "tavv_cryptogram tx"]
    by (simp add: universal_segments_def)
  moreover obtain bm pl where put: "put_fields (universal_segments tx) = (bm, pl)" by fastforce
  moreover have "length bm = 8" "pl = payload_of (universal_segments tx)"
    using put length_put_fields [of "universal_segments tx"] put_fields_payload [of "universal_segments tx"] by simp_all
  ultimately show ?thesis by (simp add: egress_encode_def universal_encode_def)
qed

text \<open>What the bank's decoder makes of an event the wire carries in full.\<close>

lemma universal_exact:
  assumes "wire_exact tx" and "off_wire_blank tx"
    and "message_class tx = class_of_mti (mti tx)" and "is_reversal tx = reversal_mti (mti tx)"
  shows "universal_decode (egress_encode tx) = Ok tx"
proof -
  have "wire_wf tx" using assms(1) by (simp add: wire_exact_def)
  from universal_roundtrip_view [OF this] universal_view_exact [OF assms] show ?thesis
    by (simp add: egress_encode_ok)
qed

definition exact_event :: "event \<Rightarrow> bool" where
  "exact_event tx \<longleftrightarrow> wire_exact tx \<and> off_wire_blank tx \<and>
     message_class tx = class_of_mti (mti tx) \<and> is_reversal tx = reversal_mti (mti tx)"

lemma wire_exact_response:
  "wire_exact tx \<Longrightarrow> length m = 4 \<Longrightarrow> fits code 2 \<Longrightarrow> wire_exact (tx\<lparr>mti := m, response_code := code\<rparr>)"
  by (simp add: wire_exact_def wire_wf_def lengths_wf_def split: option.splits)

lemma exact_response:
  assumes "exact_event tx" and "length m = 4" and "fits code 2"
    and "class_of_mti m = message_class tx" and "reversal_mti m = is_reversal tx"
  shows "exact_event (tx\<lparr>mti := m, response_code := code\<rparr>)"
proof -
  have "wire_exact tx" "off_wire_blank tx" using assms(1) by (simp_all add: exact_event_def)
  then have "wire_exact (tx\<lparr>mti := m, response_code := code\<rparr>)"
    and "off_wire_blank (tx\<lparr>mti := m, response_code := code\<rparr>)"
    using assms(2,3) by (auto intro: wire_exact_response simp: off_wire_blank_def)
  then show ?thesis using assms(4,5) by (simp add: exact_event_def)
qed

lemma exact_stan:
  assumes "exact_event tx" and "fits s 6"
  shows "exact_event (tx\<lparr>stan := s\<rparr>)"
proof -
  have "wire_exact tx" "off_wire_blank tx" using assms(1) by (simp_all add: exact_event_def)
  then have "wire_exact (tx\<lparr>stan := s\<rparr>)" and "off_wire_blank (tx\<lparr>stan := s\<rparr>)"
    using assms(2)
    by (simp_all add: wire_exact_def wire_wf_def lengths_wf_def off_wire_blank_def split: option.splits)
  then show ?thesis using assms(1) by (simp add: exact_event_def)
qed

definition bank_verdict :: "event \<Rightarrow> rstring" where
  "bank_verdict tx = (if amount tx > 50000 then ascii ''51''
     else if ends_with (fpan tx) (ascii ''9999'') then ascii ''59'' else ascii ''00'')"

lemma bank_response_authorization:
  assumes "exact_event tx" and "mti tx = ascii ''0100''"
  shows "bank_response tx = Some (tx\<lparr>mti := ascii ''0110'', response_code := bank_verdict tx\<rparr>)"
  using assms by (simp add: exact_event_def class_of_mti_def bank_response_def bank_verdict_def)

lemma bank_response_exact:
  assumes "exact_event tx" and "mti tx = ascii ''0100''"
  shows "exact_event (tx\<lparr>mti := ascii ''0110'', response_code := bank_verdict tx\<rparr>)"
proof (rule exact_response [OF assms(1)])
  show "fits (bank_verdict tx) 2"
    by (simp add: bank_verdict_def fits_def ascii_def valid_utf8_ascii)
  show "class_of_mti (ascii ''0110'') = message_class tx" "reversal_mti (ascii ''0110'') = is_reversal tx"
    using assms by (simp_all add: exact_event_def class_of_mti_def reversal_mti_def ascii_def)
qed (simp add: ascii_def)

lemma bank_exchange:
  assumes "exact_event tx" and "mti tx = ascii ''0100''"
  shows "\<exists>msg. bank_receive Connex (egress_encode tx) = Ok (Some msg)
    \<and> egress_read msg = Ok (Some (to_pb (tx\<lparr>mti := ascii ''0110'', response_code := bank_verdict tx\<rparr>)))"
proof -
  have sent: "universal_decode (egress_encode t) = Ok t" if "exact_event t" for t
    using that by (intro universal_exact) (simp_all add: exact_event_def)
  show ?thesis
    using sent [OF assms(1)] sent [OF bank_response_exact [OF assms]] bank_response_authorization [OF assms]
    by (simp add: bank_receive_def process_bank_rules_def egress_read_def router_simps egress_encode_ok)
qed

section \<open>Store and forward\<close>

text \<open>Every row that decodes and whose frame is accepted is sent and marked for removal.\<close>

lemma saf_rows_sends:
  assumes "saf_rows dec write_ok rows = (out, keys)" and "(k, v) \<in> set rows"
    and "dec v = Some pb" and "upstream_encode (egress_encode (from_pb pb)) [] = Ok frm" and "write_ok frm"
  shows "k \<in> set keys \<and> (\<exists>before after. out = before @ frm @ after)"
  using assms
proof (induction dec write_ok rows arbitrary: out keys rule: saf_rows.induct)
  case (2 dec write_ok key w rows)
  obtain out1 keys1 where rest: "saf_rows dec write_ok rows = (out1, keys1)" by fastforce
  then have grown: "\<exists>pre. out = pre @ out1" "set keys1 \<subseteq> set keys"
    using "2.prems"(1) by (auto split: option.splits outcome.splits if_splits)
  show ?case
  proof (cases "(k, v) \<in> set rows")
    case True
    obtain before after where "k \<in> set keys1" "out1 = before @ frm @ after"
      using "2.IH" [OF rest True] "2.prems" by blast
    moreover obtain pre where "out = pre @ out1" using grown(1) by blast
    ultimately have "out = (pre @ before) @ frm @ after" "k \<in> set keys" using grown(2) by auto
    then show ?thesis by blast
  next
    case False
    then have "k = key" "v = w" using "2.prems"(2) by auto
    then have "out = [] @ frm @ out1" "keys = key # keys1" using "2.prems" rest by auto
    then show ?thesis using \<open>k = key\<close> by (metis list.set_intros(1))
  qed
qed simp

text \<open>Nothing leaves the queue unless its frame was written.\<close>

lemma saf_keys_written:
  assumes "saf_rows dec write_ok rows = (out, keys)" and "k \<in> set keys"
  shows "\<exists>v pb frm. (k, v) \<in> set rows \<and> dec v = Some pb
    \<and> upstream_encode (egress_encode (from_pb pb)) [] = Ok frm \<and> write_ok frm"
  using assms
proof (induction dec write_ok rows arbitrary: out keys rule: saf_rows.induct)
  case (2 dec write_ok key v rows)
  obtain out1 keys1 where rest: "saf_rows dec write_ok rows = (out1, keys1)" by fastforce
  show ?case
  proof (cases "k \<in> set keys1")
    case True
    then show ?thesis using "2.IH" [OF rest] by auto
  next
    case False
    then show ?thesis
      using "2.prems" rest
      by (auto split: option.splits outcome.splits if_splits)
  qed
qed simp

lemma saf_worthy_mti: "saf_worthy tx \<longleftrightarrow> mti tx = ascii ''0420'' \<or> mti tx = ascii ''0220''"
  by (simp add: saf_worthy_def lossy_eq_plain ascii_def valid_utf8_ascii)

section \<open>Properties\<close>

text \<open>
  The bank's answer to a forwarded authorization comes back under the identifiers of the
  request: whatever exact 0100 event the switch sends, the reply it reads is a 0110 with the same
  RRN, STAN, acquirer and amount, and its code is 51 above 500.00, 59 for a PAN ending in 9999 and
  00 otherwise.
\<close>

theorem bank_reply_identifies_request:
  assumes "exact_event tx" and "mti tx = ascii ''0100''"
  shows "\<exists>msg reply. bank_receive Connex (egress_encode tx) = Ok (Some msg) \<and>
    egress_read msg = Ok (Some reply) \<and> pb_mti reply = ascii ''0110'' \<and>
    pb_rrn reply = rrn tx \<and> pb_stan reply = stan tx \<and> pb_amount reply = amount tx \<and>
    pb_acquirer_id reply = from_utf8_lossy (acquirer_id tx) \<and>
    pb_response_code reply = (if amount tx > 50000 then ascii ''51''
      else if ends_with (fpan tx) (ascii ''9999'') then ascii ''59'' else ascii ''00'')"
proof -
  have "from_utf8_lossy (ascii ''0110'') = ascii ''0110''"
    by (intro lossy_valid valid_utf8_ascii) (simp add: ascii_def)
  then show ?thesis
    using bank_exchange [OF assms] by (auto simp: bank_verdict_def to_pb_def)
qed

definition sample_authorization :: event where
  "sample_authorization = (blank_event Authorization (ascii ''0100'') False False)
     \<lparr> fpan := ascii ''4111222233334444'', amount := 60000, stan := ascii ''000042'',
       rrn := ascii ''000000000001'', acquirer_id := ascii ''ACQ'' \<rparr>"

lemma sample_exact: "exact_event sample_authorization"
  by (simp add: exact_event_def wire_exact_def wire_wf_def lengths_wf_def off_wire_blank_def fits_def
      sample_authorization_def blank_event_def class_of_mti_def reversal_mti_def ascii_def valid_utf8_ascii)

theorem bank_reply_identifies_request_witness:
  "\<exists>msg reply. bank_receive Connex (egress_encode sample_authorization) = Ok (Some msg) \<and>
    egress_read msg = Ok (Some reply) \<and> pb_response_code reply = ascii ''51''"
  using bank_reply_identifies_request [OF sample_exact]
  by (auto simp: sample_authorization_def blank_event_def)

text \<open>
  A reversal is not lost while the bank is away. Taken offline it is in the queue under its
  STAN and RRN; a drain pass whose write of its frame fails leaves it there, and a pass whose write
  succeeds has put its frame on the wire and removes it. Messages other than reversals and
  completion advices are dropped: the queue does not change.
\<close>

theorem stored_reversal_forwarded:
  assumes "distinct (map fst db)" and "dec (enc (to_pb tx)) = Some (to_pb tx)"
    and "upstream_encode (egress_encode (from_pb (to_pb tx))) [] = Ok frm"
    and "saf_drain dec write_ok (egress_offline enc tx db) = (out, db')"
  shows "if mti tx = ascii ''0420'' \<or> mti tx = ascii ''0220''
    then map_of (egress_offline enc tx db) (stan tx @ ascii ''-'' @ rrn tx) = Some (enc (to_pb tx)) \<and>
      (if write_ok frm
       then (\<exists>before after. out = before @ frm @ after) \<and> map_of db' (stan tx @ ascii ''-'' @ rrn tx) = None
       else map_of db' (stan tx @ ascii ''-'' @ rrn tx) = Some (enc (to_pb tx)))
    else egress_offline enc tx db = db"
proof (cases "saf_worthy tx")
  case True
  define q where "q = egress_offline enc tx db"
  have q: "q = AList.update (saf_key tx) (enc (to_pb tx)) db"
    using True by (simp add: q_def egress_offline_def saf_store_def)
  have distinct: "distinct (map fst q)" using assms(1) by (simp add: q distinct_update)
  have stored: "map_of q (saf_key tx) = Some (enc (to_pb tx))" by (simp add: q update_conv')
  obtain keys where rows: "saf_rows dec write_ok q = (out, keys)"
    and db': "db' = foldl (\<lambda>d k. AList.delete k d) q keys"
    using assms(4) by (auto simp: saf_drain_def q_def split: prod.splits)
  have sent: "saf_key tx \<in> set keys \<and> (\<exists>before after. out = before @ frm @ after)" if "write_ok frm"
    using saf_rows_sends [OF rows map_of_SomeD [OF stored] assms(2,3) that] .
  have only: "v = enc (to_pb tx)" if "(saf_key tx, v) \<in> set q" for v
    using that stored distinct by (simp add: map_of_eq_Some_iff eq_key_imp_eq_value)
  have "saf_key tx \<notin> set keys" if "\<not> write_ok frm"
    using saf_keys_written [OF rows, of "saf_key tx"] that only assms(2,3) by auto
  then show ?thesis
    using True sent stored
    by (simp add: db' map_of_deletes saf_key_def saf_worthy_mti flip: q_def)
next
  case False
  then show ?thesis by (simp add: egress_offline_def saf_store_def saf_worthy_mti)
qed

text \<open>A concrete pair of codec functions, inverse to each other on the sample message.\<close>

definition sample_advice :: event where
  "sample_advice = sample_authorization\<lparr>mti := ascii ''0420''\<rparr>"

definition saf_sample_enc :: "transaction \<Rightarrow> bytes" where
  "saf_sample_enc p = pb_stan p"

definition saf_sample_dec :: "bytes \<Rightarrow> transaction option" where
  "saf_sample_dec v = (if v = stan sample_advice then Some (to_pb sample_advice) else None)"

theorem stored_reversal_forwarded_witness:
  "\<exists>out db'. saf_drain saf_sample_dec (\<lambda>frm. False) (egress_offline saf_sample_enc sample_advice []) = (out, db') \<and>
    map_of db' (ascii ''000042-000000000001'') = Some (ascii ''000042'')"
proof -
  have codec: "saf_sample_dec (saf_sample_enc (to_pb sample_advice)) = Some (to_pb sample_advice)"
    by (simp add: saf_sample_dec_def saf_sample_enc_def to_pb_def)
  obtain frm where frm: "upstream_encode (egress_encode (from_pb (to_pb sample_advice))) [] = Ok frm"
    by (simp add: upstream_encode_def Let_def)
  obtain out db' where drained:
    "saf_drain saf_sample_dec (\<lambda>frm. False) (egress_offline saf_sample_enc sample_advice []) = (out, db')"
    by fastforce
  have key: "stan sample_advice @ ascii ''-'' @ rrn sample_advice = ascii ''000042-000000000001''"
    "mti sample_advice = ascii ''0420''" "saf_sample_enc (to_pb sample_advice) = ascii ''000042''"
    by (simp_all add: sample_advice_def sample_authorization_def blank_event_def saf_sample_enc_def to_pb_def ascii_def)
  show ?thesis
    using stored_reversal_forwarded [OF _ codec frm drained] drained by (auto simp: key)
qed

end
