(* ===== verification/Ledger.thy ===== *)
theory Ledger
  imports Canonical
begin

text \<open>
  The ledger worker of \<open>switch-core/src/ledger_worker.rs\<close> and the settlement sweeps over the
  general ledger (\<open>switch-core/src/settlement_cron.rs\<close>,
  \<open>ops-control-plane/src/main.rs\<close>). SQLite is reduced to whether each call succeeds and,
  for the cron sweep, to the booking clock. The floating-point product
  \<open>(amount as f64 * base_pct) as i64\<close> is a parameter, with the type of the percentages;
  the integer arithmetic around it is kept at 64 bits and wraps.
\<close>

section \<open>Caches\<close>

record 'f fee_rule =
  base_pct :: 'f
  flat_fee_cents :: "32 word"
  fx_markup_pct :: 'f

record account_mapping =
  vostro_account_id :: rstring
  nostro_account_id :: rstring

record 'f fee_row =
  fee_mcc :: "rstring option"
  fee_bin_prefix :: "rstring option"
  fee_rule :: "'f fee_rule"

record coa_row =
  coa_institution_id :: rstring
  coa_accounts :: account_mapping

definition fee_key :: "'f fee_row \<Rightarrow> rstring" where
  "fee_key row =
     (case fee_mcc row of
        Some m \<Rightarrow> m
      | None \<Rightarrow> (case fee_bin_prefix row of Some b \<Rightarrow> b | None \<Rightarrow> ascii ''DEFAULT''))"

definition poll_fees :: "'f fee_row list \<Rightarrow> (rstring \<rightharpoonup> 'f fee_rule) \<Rightarrow> (rstring \<rightharpoonup> 'f fee_rule)" where
  "poll_fees rows cache = foldl (\<lambda>c row. c(fee_key row \<mapsto> fee_rule row)) cache rows"

definition poll_accounts ::
  "coa_row list \<Rightarrow> (rstring \<rightharpoonup> account_mapping) \<Rightarrow> (rstring \<rightharpoonup> account_mapping)" where
  "poll_accounts rows cache = foldl (\<lambda>c row. c(coa_institution_id row \<mapsto> coa_accounts row)) cache rows"

section \<open>Postings\<close>

record ledger_row =
  trace_stan :: rstring
  trace_rrn :: rstring
  masked_pan :: rstring
  routing_bin :: rstring
  source_account_id :: rstring
  target_account_id :: rstring
  principal_amount :: i64
  fee_amount :: i64
  gl_status :: rstring
  institution_id :: rstring

text \<open>The fee rule of a card: its BIN's, else the default. \<open>Panic\<close> is the BIN slice.\<close>

definition fee_rule_for :: "(rstring \<rightharpoonup> 'f fee_rule) \<Rightarrow> rstring \<Rightarrow> (unit, 'f fee_rule option) outcome" where
  "fee_rule_for fees pan_str =
     (if length pan_str \<ge> 6 then
        (case str_slice pan_str 0 6 of
           None \<Rightarrow> Panic
         | Some bin \<Rightarrow>
             (case fees bin of Some rule \<Rightarrow> Ok (Some rule) | None \<Rightarrow> Ok (fees (ascii ''DEFAULT''))))
      else Ok None)"

definition interchange_fee :: "(u64 \<Rightarrow> 'f \<Rightarrow> i64) \<Rightarrow> u64 \<Rightarrow> 'f fee_rule option \<Rightarrow> i64" where
  "interchange_fee pct_fee amt rule =
     (case rule of None \<Rightarrow> 0 | Some r \<Rightarrow> pct_fee amt (base_pct r) + scast (flat_fee_cents r))"

definition institution_for :: "rstring \<Rightarrow> rstring" where
  "institution_for pan_str =
     (if starts_with pan_str (ascii ''4'') then ascii ''CITI''
      else if starts_with pan_str (ascii ''5'') then ascii ''DANSKE_BANK''
      else ascii ''DEFAULT_INST'')"

definition ledger_mask :: "rstring \<Rightarrow> (unit, rstring) outcome" where
  "ledger_mask pan_str =
     (case str_slice pan_str 0 (min 6 (length pan_str)) of
        None \<Rightarrow> Panic
      | Some a \<Rightarrow> (case str_slice pan_str (length pan_str - 4) (length pan_str) of
          None \<Rightarrow> Panic
        | Some b \<Rightarrow> Ok (a @ ascii ''****'' @ b)))"

definition posting ::
  "(u64 \<Rightarrow> 'f \<Rightarrow> i64) \<Rightarrow> (rstring \<rightharpoonup> 'f fee_rule) \<Rightarrow> (rstring \<rightharpoonup> account_mapping) \<Rightarrow> event
    \<Rightarrow> (unit, ledger_row) outcome" where
  "posting pct_fee fees accounts tx =
     (let pan_str = from_utf8_lossy (fpan tx) in
      bindo (fee_rule_for fees pan_str) (\<lambda>rule.
        let fee = interchange_fee pct_fee (amount tx) rule;
            inst_id = institution_for pan_str;
            vostro = (case accounts inst_id of Some c \<Rightarrow> vostro_account_id c | None \<Rightarrow> ascii ''UNKNOWN'');
            nostro = (case accounts inst_id of Some c \<Rightarrow> nostro_account_id c | None \<Rightarrow> ascii ''UNKNOWN'')
        in bindo (ledger_mask pan_str) (\<lambda>masked.
          Ok \<lparr> trace_stan = stan tx, trace_rrn = rrn tx, masked_pan = masked,
               routing_bin = (if length pan_str \<ge> 6 then take 6 pan_str else ascii ''000000''),
               source_account_id = vostro, target_account_id = nostro,
               principal_amount = (if is_reversal tx then - amount tx else amount tx),
               fee_amount = (if is_reversal tx then - fee else fee),
               gl_status = (if is_reversal tx then ascii ''reversed_offset_hold'' else ascii ''shadow''),
               institution_id = inst_id \<rparr>)))"

section \<open>The batch worker\<close>

datatype ledger_recv = Received event | RecvTimeout | Disconnected

record db_env =
  begin_ok :: bool
  prepare_ok :: bool
  insert_ok :: "ledger_row \<Rightarrow> bool"
  commit_ok :: bool

record ledger =
  general_ledger :: "ledger_row list"
  batch_buffer :: "event list"
  last_commit :: nat
  running :: bool

fun post_all ::
  "(event \<Rightarrow> (unit, ledger_row) outcome) \<Rightarrow> event list \<Rightarrow> (unit, ledger_row list) outcome" where
  "post_all post [] = Ok []"
| "post_all post (tx # txs) = bindo (post tx) (\<lambda>row. bindo (post_all post txs) (\<lambda>rows. Ok (row # rows)))"

text \<open>
  One flush: a transaction that cannot begin drops the batch; a panic inside rolls it back and
  ends the thread; a failed insert is skipped; a failed commit loses the rows.
\<close>

definition ledger_flush ::
  "(event \<Rightarrow> (unit, ledger_row) outcome) \<Rightarrow> db_env \<Rightarrow> nat \<Rightarrow> ledger \<Rightarrow> ledger" where
  "ledger_flush post env now st =
     (if \<not> begin_ok env then st\<lparr>batch_buffer := [], last_commit := now\<rparr>
      else if \<not> prepare_ok env then st\<lparr>running := False\<rparr>
      else case post_all post (batch_buffer st) of
        Ok rows \<Rightarrow> st\<lparr> general_ledger := general_ledger st @
              (if commit_ok env then filter (insert_ok env) rows else []),
            batch_buffer := [], last_commit := now \<rparr>
      | _ \<Rightarrow> st\<lparr>running := False\<rparr>)"

definition ledger_iteration ::
  "(event \<Rightarrow> (unit, ledger_row) outcome) \<Rightarrow> ledger_recv \<times> db_env \<times> nat \<Rightarrow> ledger \<Rightarrow> ledger" where
  "ledger_iteration post input st =
     (case input of (recv, env, now) \<Rightarrow>
      if \<not> running st then st
      else if recv = Disconnected then st\<lparr>running := False\<rparr>
      else
        let st1 = (case recv of Received tx \<Rightarrow> st\<lparr>batch_buffer := batch_buffer st @ [tx]\<rparr> | _ \<Rightarrow> st) in
        if length (batch_buffer st1) \<ge> 1000 \<or> batch_buffer st1 \<noteq> [] \<and> now - last_commit st1 \<ge> 100
        then ledger_flush post env now st1 else st1)"

definition ledger_run ::
  "(event \<Rightarrow> (unit, ledger_row) outcome) \<Rightarrow> (ledger_recv \<times> db_env \<times> nat) list \<Rightarrow> ledger \<Rightarrow> ledger" where
  "ledger_run post inputs st = foldl (\<lambda>s i. ledger_iteration post i s) st inputs"

section \<open>Settlement sweeps\<close>

text \<open>The two updates: all shadow rows, and the shadow rows booked before the cutoff.\<close>

definition settle_row :: "ledger_row \<Rightarrow> ledger_row" where
  "settle_row row = row\<lparr>gl_status := ascii ''settled''\<rparr>"

definition trigger_settlement :: "ledger_row list \<Rightarrow> ledger_row list \<times> nat" where
  "trigger_settlement rows =
     (map (\<lambda>r. if gl_status r = ascii ''shadow'' then settle_row r else r) rows,
      length (filter (\<lambda>r. gl_status r = ascii ''shadow'') rows))"

definition midnight_sweep :: "nat \<Rightarrow> (nat \<times> ledger_row) list \<Rightarrow> (nat \<times> ledger_row) list" where
  "midnight_sweep now rows =
     map (\<lambda>(t, r). if gl_status r = ascii ''shadow'' \<and> t + 60 < now then (t, settle_row r) else (t, r)) rows"

text \<open>
  The liquidity view: totals of principal and fee per institution and status. SQLite fails the
  query when a total leaves the range of \<open>i64\<close>, and the handler then returns no rows. The order
  of the groups is unspecified; here it is that of their last rows.
\<close>

definition liquidity_total :: "ledger_row list \<Rightarrow> rstring \<times> rstring \<Rightarrow> int" where
  "liquidity_total rows g = sum_list (map (\<lambda>r. sint (principal_amount r) + sint (fee_amount r))
     (filter (\<lambda>r. (institution_id r, gl_status r) = g) rows))"

definition get_ledger_liquidity :: "ledger_row list \<Rightarrow> ((rstring \<times> rstring) \<times> int) list" where
  "get_ledger_liquidity rows =
     (let groups = map (\<lambda>g. (g, liquidity_total rows g)) (remdups (map (\<lambda>r. (institution_id r, gl_status r)) rows))
      in if list_all (\<lambda>(g, total). - (2 ^ 63) \<le> total \<and> total < 2 ^ 63) groups then groups else [])"

section \<open>Lemmas\<close>

text \<open>A card number in ASCII is always posted.\<close>

lemma posting_ascii:
  assumes "list_all (\<lambda>b. b < 0x80) (fpan tx)"
  shows "\<exists>row. posting pct_fee fees accounts tx = Ok row"
proof -
  let ?p = "fpan tx"
  have lossy: "from_utf8_lossy ?p = ?p" using assms by (simp add: valid_utf8_ascii)
  have rule: "\<exists>rule. fee_rule_for fees ?p = Ok rule"
    using assms by (auto simp: fee_rule_for_def str_slice_ascii split: option.splits)
  have "\<exists>m. ledger_mask ?p = Ok m"
    using assms by (simp add: ledger_mask_def str_slice_ascii)
  with rule show ?thesis by (auto simp: posting_def lossy Let_def)
qed

lemma post_all_append:
  "post_all post (xs @ ys) = bindo (post_all post xs) (\<lambda>a. bindo (post_all post ys) (\<lambda>b. Ok (a @ b)))"
  by (induction xs) (simp_all add: bindo_assoc)

lemma post_all_ok:
  "\<forall>tx \<in> set txs. \<exists>row. post tx = Ok row \<Longrightarrow> \<exists>rows. post_all post txs = Ok rows \<and> length rows = length txs"
  by (induction txs) auto

lemma post_all_length: "post_all post txs = Ok rows \<Longrightarrow> length rows = length txs"
  by (induction txs arbitrary: rows) (auto simp: bindo_eq_Ok)

text \<open>A database on which every call succeeds, and what a list of inputs delivers.\<close>

definition healthy :: "db_env \<Rightarrow> bool" where
  "healthy env \<longleftrightarrow> begin_ok env \<and> prepare_ok env \<and> commit_ok env \<and> insert_ok env = (\<lambda>_. True)"

definition delivered :: "(ledger_recv \<times> db_env \<times> nat) list \<Rightarrow> event list" where
  "delivered inputs = concat (map (\<lambda>(recv, _). case recv of Received tx \<Rightarrow> [tx] | _ \<Rightarrow> []) inputs)"

definition smooth :: "(ledger_recv \<times> db_env \<times> nat) list \<Rightarrow> bool" where
  "smooth inputs \<longleftrightarrow> list_all (\<lambda>(recv, env, _). recv \<noteq> Disconnected \<and> healthy env) inputs"

text \<open>The worker's invariant: what is booked and what is still buffered, together.\<close>

definition booked ::
  "(event \<Rightarrow> (unit, ledger_row) outcome) \<Rightarrow> ledger_row list \<Rightarrow> ledger \<Rightarrow> bool" where
  "booked post rows st \<longleftrightarrow> running st \<and> length (batch_buffer st) < 1000 \<and>
     (\<exists>pending. post_all post (batch_buffer st) = Ok pending \<and> general_ledger st @ pending = rows)"

lemma iteration_books:
  assumes "booked post rows st" and "recv \<noteq> Disconnected" and "healthy env"
    and "post_all post (case recv of Received tx \<Rightarrow> [tx] | _ \<Rightarrow> []) = Ok new"
  shows "booked post (rows @ new) (ledger_iteration post (recv, env, now) st)"
    and "let st' = ledger_iteration post (recv, env, now) st in
      batch_buffer st' \<noteq> [] \<longrightarrow> now - last_commit st' < 100"
proof -
  define st1 where "st1 = st\<lparr>batch_buffer := batch_buffer st @ (case recv of Received tx \<Rightarrow> [tx] | _ \<Rightarrow> [])\<rparr>"
  obtain pending where pending: "post_all post (batch_buffer st) = Ok pending" "general_ledger st @ pending = rows"
    and run: "running st"
    using assms(1) by (auto simp: booked_def)
  have all: "post_all post (batch_buffer st1) = Ok (pending @ new)"
    using pending assms(4) by (simp add: st1_def post_all_append)
  have "(case recv of Received tx \<Rightarrow> st\<lparr>batch_buffer := batch_buffer st @ [tx]\<rparr> | _ \<Rightarrow> st) = st1"
    by (simp add: st1_def split: ledger_recv.splits)
  then have step: "ledger_iteration post (recv, env, now) st =
      (if length (batch_buffer st1) \<ge> 1000 \<or> batch_buffer st1 \<noteq> [] \<and> now - last_commit st1 \<ge> 100
       then st1\<lparr>general_ledger := general_ledger st1 @ pending @ new, batch_buffer := [], last_commit := now\<rparr>
       else st1)"
    using assms(2,3) run all by (simp add: ledger_iteration_def ledger_flush_def healthy_def Let_def)
  have same: "running st1" "general_ledger st1 = general_ledger st" using run by (simp_all add: st1_def)
  show "booked post (rows @ new) (ledger_iteration post (recv, env, now) st)"
    using pending(2) all same by (auto simp: step booked_def)
  show "let st' = ledger_iteration post (recv, env, now) st in
      batch_buffer st' \<noteq> [] \<longrightarrow> now - last_commit st' < 100"
    by (auto simp: step Let_def)
qed

lemma run_books:
  assumes "booked post rows st" and "smooth inputs" and "post_all post (delivered inputs) = Ok new"
  shows "booked post (rows @ new) (ledger_run post inputs st)"
  using assms
proof (induction inputs arbitrary: rows new st)
  case Nil
  then show ?case by (simp add: ledger_run_def delivered_def)
next
  case (Cons i inputs)
  obtain recv env now where i: "i = (recv, env, now)" by (cases i)
  obtain a b where split: "post_all post (case recv of Received tx \<Rightarrow> [tx] | _ \<Rightarrow> []) = Ok a"
    "post_all post (delivered inputs) = Ok b" "new = a @ b"
    using Cons.prems(3) by (auto simp: delivered_def i post_all_append bindo_eq_Ok)
  have "booked post (rows @ a) (ledger_iteration post (recv, env, now) st)"
    using Cons.prems(1,2) split(1) by (intro iteration_books(1)) (auto simp: smooth_def i)
  from Cons.IH [OF this _ split(2)] Cons.prems(2) split(3) show ?case
    by (simp add: ledger_run_def smooth_def i)
qed

text \<open>A reversal with the card and amount of a posted transaction offsets it.\<close>

lemma posting_offset:
  assumes "posting pct_fee fees accounts tx = Ok a" and "\<not> is_reversal tx"
    and "is_reversal rv" and "fpan rv = fpan tx" and "amount rv = amount tx"
  shows "posting pct_fee fees accounts rv = Ok (a\<lparr> trace_stan := stan rv, trace_rrn := rrn rv,
    principal_amount := - principal_amount a, fee_amount := - fee_amount a,
    gl_status := ascii ''reversed_offset_hold'' \<rparr>)"
    and "gl_status a = ascii ''shadow''" and "principal_amount a = amount tx" and "trace_rrn a = rrn tx"
  using assms by (auto simp: posting_def bindo_eq_Ok Let_def)

lemma liquidity_moved:
  "a \<noteq> b \<Longrightarrow> liquidity_total (map (\<lambda>r. if gl_status r = a then r\<lparr>gl_status := b\<rparr> else r) rows) (i, s) =
    (if s = b then liquidity_total rows (i, b) + liquidity_total rows (i, a)
     else if s = a then 0 else liquidity_total rows (i, s))"
  by (induction rows) (auto simp: liquidity_total_def)

section \<open>Properties\<close>

text \<open>
  C18. The ledger books every event it receives, once and in order. For any sequence of receives
  and timeouts, with a database whose calls succeed and card numbers in ASCII, the rows booked
  followed by the rows of the events still buffered are exactly the rows of all events received;
  fewer than a thousand events are ever left in the buffer.
\<close>

theorem ledger_books_in_order:
  assumes "running st" and "length (batch_buffer st) < 1000" and "smooth inputs"
    and "list_all (\<lambda>tx. list_all (\<lambda>b. b < 0x80) (fpan tx)) (batch_buffer st @ delivered inputs)"
  shows "\<exists>rows pending. let post = posting pct_fee fees accounts; st' = ledger_run post inputs st in
    post_all post (batch_buffer st @ delivered inputs) = Ok rows \<and>
    post_all post (batch_buffer st') = Ok pending \<and>
    general_ledger st' @ pending = general_ledger st @ rows \<and>
    length rows = length (batch_buffer st) + length (delivered inputs) \<and> length pending < 1000"
proof -
  let ?post = "posting pct_fee fees accounts"
  have ok: "\<forall>tx \<in> set (batch_buffer st @ delivered inputs). \<exists>row. ?post tx = Ok row"
    using assms(4) posting_ascii by (metis list_all_iff)
  obtain old where old: "post_all ?post (batch_buffer st) = Ok old" "length old = length (batch_buffer st)"
    using post_all_ok [of "batch_buffer st" ?post] ok by auto
  obtain new where new: "post_all ?post (delivered inputs) = Ok new" "length new = length (delivered inputs)"
    using post_all_ok [of "delivered inputs" ?post] ok by auto
  have "booked ?post (general_ledger st @ old) st" using assms(1,2) old by (simp add: booked_def)
  from run_books [OF this assms(3) new(1)] obtain pending where
    "post_all ?post (batch_buffer (ledger_run ?post inputs st)) = Ok pending"
    "general_ledger (ledger_run ?post inputs st) @ pending = (general_ledger st @ old) @ new"
    "length (batch_buffer (ledger_run ?post inputs st)) < 1000"
    by (auto simp: booked_def)
  moreover have "length pending = length (batch_buffer (ledger_run ?post inputs st))"
    using calculation(1) post_all_length by blast
  ultimately show ?thesis using old new by (simp add: post_all_append Let_def)
qed

definition sample_posting :: event where
  "sample_posting = (blank_event Authorization (ascii ''0100'') False False)
     \<lparr> fpan := ascii ''4111222233334444'', amount := 2500, stan := ascii ''000042'',
       rrn := ascii ''000000000001'' \<rparr>"

definition sample_ledger :: ledger where
  "sample_ledger = \<lparr>general_ledger = [], batch_buffer = [], last_commit = 0, running = True\<rparr>"

definition sample_env :: db_env where
  "sample_env = \<lparr>begin_ok = True, prepare_ok = True, insert_ok = (\<lambda>_. True), commit_ok = True\<rparr>"

theorem ledger_books_in_order_witness:
  "\<exists>rows pending. let post = posting (\<lambda>_ _. 0) Map.empty Map.empty;
      st' = ledger_run post [(Received sample_posting, sample_env, 10), (RecvTimeout, sample_env, 120)] sample_ledger in
    post_all post (batch_buffer st') = Ok pending \<and> general_ledger st' @ pending = rows \<and> length rows = 1"
proof -
  let ?in = "[(Received sample_posting, sample_env, 10), (RecvTimeout, sample_env, 120)]"
  have "smooth ?in" by (simp add: smooth_def healthy_def sample_env_def)
  moreover have "delivered ?in = [sample_posting]" by (simp add: delivered_def)
  moreover have "list_all (\<lambda>b. b < 0x80) (fpan sample_posting)"
    by (simp add: sample_posting_def ascii_def blank_event_def)
  ultimately show ?thesis
    using ledger_books_in_order [of sample_ledger ?in "\<lambda>_ _. 0" Map.empty Map.empty]
    by (auto simp: sample_ledger_def Let_def)
qed

text \<open>
  Settlement takes a reversed transaction at its full amount. The posting of a reversal with
  the same card and amount carries the same accounts and the opposite principal and fee, so the
  two net to zero; but a settlement run settles the original and leaves the offset on hold.
\<close>

theorem settlement_leaves_offset:
  assumes "posting pct_fee fees accounts tx = Ok a" and "posting pct_fee fees accounts rv = Ok b"
    and "\<not> is_reversal tx" and "is_reversal rv" and "fpan rv = fpan tx" and "amount rv = amount tx"
  shows "principal_amount a + principal_amount b = 0 \<and> fee_amount a + fee_amount b = 0 \<and>
    source_account_id b = source_account_id a \<and> target_account_id b = target_account_id a \<and>
    trigger_settlement [a, b] = ([settle_row a, b], 1) \<and>
    principal_amount (settle_row a) = amount tx \<and> gl_status b = ascii ''reversed_offset_hold''"
proof -
  note off = posting_offset [OF assms(1,3,4,5,6)]
  have b: "b = a\<lparr> trace_stan := stan rv, trace_rrn := rrn rv,
    principal_amount := - principal_amount a, fee_amount := - fee_amount a,
    gl_status := ascii ''reversed_offset_hold'' \<rparr>"
    using off(1) assms(2) by simp
  have "ascii ''reversed_offset_hold'' \<noteq> ascii ''shadow''" by (simp add: ascii_def)
  then show ?thesis
    using off(2,3) by (simp add: b trigger_settlement_def settle_row_def)
qed

theorem settlement_leaves_offset_witness:
  "\<exists>a b. posting (\<lambda>_ _. 25) [ascii ''DEFAULT'' \<mapsto> \<lparr>base_pct = (), flat_fee_cents = 10, fx_markup_pct = ()\<rparr>]
      Map.empty sample_posting = Ok a \<and> trigger_settlement [a, b] = ([settle_row a, b], 1)"
proof -
  let ?fees = "[ascii ''DEFAULT'' \<mapsto> \<lparr>base_pct = (), flat_fee_cents = 10, fx_markup_pct = ()\<rparr>]"
  let ?rev = "sample_posting\<lparr>is_reversal := True\<rparr>"
  have plain: "list_all (\<lambda>b. b < 0x80) (fpan sample_posting)" "list_all (\<lambda>b. b < 0x80) (fpan ?rev)"
    by (simp_all add: sample_posting_def ascii_def blank_event_def)
  obtain a where a: "posting (\<lambda>_ _. 25) ?fees Map.empty sample_posting = Ok a"
    using posting_ascii [OF plain(1)] by blast
  obtain b where b: "posting (\<lambda>_ _. 25) ?fees Map.empty ?rev = Ok b"
    using posting_ascii [OF plain(2)] by blast
  have "\<not> is_reversal sample_posting" by (simp add: sample_posting_def blank_event_def)
  then show ?thesis using settlement_leaves_offset [OF a b] a by auto
qed

text \<open>
  Settlement moves money between statuses and creates none. For every institution, the
  settled total after a run is the settled and the shadow total before it, nothing is left in
  shadow, every other status keeps its total, and the number reported is that of the shadow rows.
\<close>

theorem settlement_conserves_liquidity:
  "case trigger_settlement rows of (rows', n) \<Rightarrow>
    liquidity_total rows' (inst, ascii ''settled'') =
      liquidity_total rows (inst, ascii ''settled'') + liquidity_total rows (inst, ascii ''shadow'') \<and>
    list_all (\<lambda>r. gl_status r \<noteq> ascii ''shadow'') rows' \<and>
    (\<forall>s. s = ascii ''settled'' \<or> s = ascii ''shadow'' \<or>
      liquidity_total rows' (inst, s) = liquidity_total rows (inst, s)) \<and>
    n = length (filter (\<lambda>r. gl_status r = ascii ''shadow'') rows)"
proof -
  have ne: "ascii ''shadow'' \<noteq> ascii ''settled''" by (simp add: ascii_def)
  note moved = liquidity_moved [OF ne, of rows inst, folded settle_row_def]
  have "list_all (\<lambda>r. gl_status r \<noteq> ascii ''shadow'')
      (map (\<lambda>r. if gl_status r = ascii ''shadow'' then settle_row r else r) rows)"
    using ne by (induction rows) (simp_all add: settle_row_def)
  then show ?thesis
    unfolding trigger_settlement_def prod.case by (intro conjI) (simp_all add: moved)
qed

end
