(* ===== verification/Control_Plane.thy ===== *)
theory Control_Plane
  imports Switch_State
begin

text \<open>
  The configuration API of \<open>ops-control-plane/src/main.rs\<close>: three tables of versioned
  records that are never overwritten (an update retires the live version and appends its
  successor) and the publication of the live versions to the switch.

  A SQLite table is the list of its rows in rowid order. \<open>crdb_records\<close> and
  \<open>stip_rules\<close> have an \<open>INTEGER PRIMARY KEY AUTOINCREMENT\<close>; \<open>routing_rules\<close>
  declares \<open>id SERIAL PRIMARY KEY\<close>, which SQLite does not fill in, so its ids are NULL. What
  sqlx reads from a NULL id is a parameter, as are the success of the database calls, the success
  of the HTTP call and the conversion of a limit to \<open>f64\<close>. The locale
  \<open>versioned_table\<close> is the contract of the first two tables.
\<close>

section \<open>Tables\<close>

datatype status_code = OK | CREATED | NOT_FOUND | INTERNAL_SERVER_ERROR | BAD_GATEWAY

record 'd row =
  row_id :: "nat option"
  row_version :: "32 word"
  row_valid_to :: "nat option"
  row_is_live :: bool
  row_data :: 'd

record crdb_data =
  pan_hash :: rstring
  daily_limit :: i64
  crdb_status :: rstring

record stip_data =
  stip_network_id :: rstring
  condition_type :: rstring
  max_approval_amount :: i64
  stip_max_risk_score :: "32 word"

definition next_id :: "'d row list \<Rightarrow> nat" where
  "next_id t = Suc (foldr (\<lambda>r m. case row_id r of None \<Rightarrow> m | Some i \<Rightarrow> max i m) t 0)"

definition fresh_row :: "nat option \<Rightarrow> 32 word \<Rightarrow> 'd \<Rightarrow> 'd row" where
  "fresh_row i v d = \<lparr>row_id = i, row_version = v, row_valid_to = None, row_is_live = True, row_data = d\<rparr>"

text \<open>\<open>SELECT * FROM t WHERE id = ? AND is_live = 1\<close>; a NULL id matches nothing.\<close>

definition fetch_live :: "nat \<Rightarrow> 'd row list \<Rightarrow> 'd row option" where
  "fetch_live i t = find (\<lambda>r. row_id r = Some i \<and> row_is_live r) t"

text \<open>\<open>UPDATE t SET is_live = 0, valid_to = CURRENT_TIMESTAMP WHERE id = ?\<close>\<close>

definition retire :: "nat \<Rightarrow> nat \<Rightarrow> 'd row list \<Rightarrow> 'd row list" where
  "retire now i t =
     map (\<lambda>r. if row_id r = Some i then r\<lparr>row_is_live := False, row_valid_to := Some now\<rparr> else r) t"

definition live_rows :: "'d row list \<Rightarrow> 'd row list" where
  "live_rows t = filter row_is_live t"

section \<open>Card records\<close>

record create_crdb_req =
  cc_pan_hash :: rstring
  cc_daily_limit :: i64
  cc_status :: rstring

record update_crdb_req =
  uc_daily_limit :: i64
  uc_status :: rstring

definition create_crdb_record ::
  "bool \<Rightarrow> create_crdb_req \<Rightarrow> crdb_data row list \<Rightarrow> status_code \<times> crdb_data row list" where
  "create_crdb_record db_ok p t =
     (if db_ok then (CREATED, t @ [fresh_row (Some (next_id t)) 1
        \<lparr>pan_hash = cc_pan_hash p, daily_limit = cc_daily_limit p, crdb_status = cc_status p\<rparr>])
      else (INTERNAL_SERVER_ERROR, t))"

text \<open>A failing call inside the update panics the handler and rolls the transaction back.\<close>

definition update_crdb_record ::
  "bool \<Rightarrow> nat \<Rightarrow> nat \<Rightarrow> update_crdb_req \<Rightarrow> crdb_data row list
    \<Rightarrow> (unit, status_code) outcome \<times> crdb_data row list" where
  "update_crdb_record db_ok now i p t =
     (if \<not> db_ok then (Panic, t)
      else case fetch_live i t of
        None \<Rightarrow> (Ok NOT_FOUND, t)
      | Some r \<Rightarrow>
          let t1 = retire now i t in
          (Ok OK, t1 @ [fresh_row (Some (next_id t1)) (row_version r + 1)
             \<lparr>pan_hash = pan_hash (row_data r), daily_limit = uc_daily_limit p, crdb_status = uc_status p\<rparr>]))"

definition publish_crdb :: "(i64 \<Rightarrow> u64) \<Rightarrow> crdb_data row list \<Rightarrow> (rstring \<rightharpoonup> card_record)" where
  "publish_crdb as_f64 t =
     foldl (\<lambda>m r. m(pan_hash (row_data r) \<mapsto> \<lparr> card_balance_bits = as_f64 (daily_limit (row_data r)),
         card_is_blocked = (crdb_status (row_data r) = ascii ''Blocked''), pvv = ascii ''1234'' \<rparr>))
       Map.empty (live_rows t)"

text \<open>\<open>ORDER BY id DESC\<close>: ids grow in rowid order.\<close>

definition get_active_crdb_records :: "bool \<Rightarrow> crdb_data row list \<Rightarrow> crdb_data row list" where
  "get_active_crdb_records db_ok t = (if db_ok then rev (live_rows t) else [])"

section \<open>Stand-in rules\<close>

record create_stip_req =
  cs_network_id :: rstring
  cs_condition_type :: rstring
  cs_max_approval_amount :: i64
  cs_max_risk_score :: "32 word"

record update_stip_req =
  us_max_approval_amount :: i64
  us_max_risk_score :: "32 word"

definition create_stip_rule ::
  "bool \<Rightarrow> create_stip_req \<Rightarrow> stip_data row list \<Rightarrow> status_code \<times> stip_data row list" where
  "create_stip_rule db_ok p t =
     (if db_ok then (CREATED, t @ [fresh_row (Some (next_id t)) 1
        \<lparr>stip_network_id = cs_network_id p, condition_type = cs_condition_type p,
         max_approval_amount = cs_max_approval_amount p, stip_max_risk_score = cs_max_risk_score p\<rparr>])
      else (INTERNAL_SERVER_ERROR, t))"

definition update_stip_rule ::
  "bool \<Rightarrow> nat \<Rightarrow> nat \<Rightarrow> update_stip_req \<Rightarrow> stip_data row list
    \<Rightarrow> (unit, status_code) outcome \<times> stip_data row list" where
  "update_stip_rule db_ok now i p t =
     (if \<not> db_ok then (Panic, t)
      else case fetch_live i t of
        None \<Rightarrow> (Ok NOT_FOUND, t)
      | Some r \<Rightarrow>
          let t1 = retire now i t in
          (Ok OK, t1 @ [fresh_row (Some (next_id t1)) (row_version r + 1)
             \<lparr>stip_network_id = stip_network_id (row_data r), condition_type = condition_type (row_data r),
              max_approval_amount = us_max_approval_amount p, stip_max_risk_score = us_max_risk_score p\<rparr>]))"

text \<open>\<open>max_risk_score.clamp(0, 100) as u8\<close>, and the decimal of an \<open>i64\<close>.\<close>

definition clamp_score :: "32 word \<Rightarrow> u8" where
  "clamp_score s = of_int (min 100 (max 0 (sint s)))"

definition publish_stip :: "(i64 \<Rightarrow> rstring) \<Rightarrow> stip_data row list \<Rightarrow> (rstring \<rightharpoonup> stip_rule)" where
  "publish_stip decimal t =
     foldl (\<lambda>m r. m(stip_network_id (row_data r) \<mapsto>
         \<lparr> action = ascii ''APPROVE_UP_TO_'' @ decimal (max_approval_amount (row_data r)),
           max_risk_score = clamp_score (stip_max_risk_score (row_data r)) \<rparr>))
       Map.empty (live_rows t)"

definition get_active_stip_rules :: "bool \<Rightarrow> stip_data row list \<Rightarrow> stip_data row list" where
  "get_active_stip_rules db_ok t = (if db_ok then rev (live_rows t) else [])"

section \<open>Routing rules\<close>

record update_route_req =
  ur_destination_type :: rstring
  ur_target_node :: "rstring option"
  ur_failover_node :: "rstring option"

definition create_route ::
  "bool \<Rightarrow> route_row \<Rightarrow> route_row row list \<Rightarrow> status_code \<times> route_row row list" where
  "create_route db_ok p t =
     (if db_ok then (CREATED, t @ [fresh_row None 1 p]) else (INTERNAL_SERVER_ERROR, t))"

definition update_route ::
  "bool \<Rightarrow> nat \<Rightarrow> nat \<Rightarrow> update_route_req \<Rightarrow> route_row row list
    \<Rightarrow> (unit, status_code) outcome \<times> route_row row list" where
  "update_route db_ok now i p t =
     (if \<not> db_ok then (Panic, t)
      else case fetch_live i t of
        None \<Rightarrow> (Ok NOT_FOUND, t)
      | Some r \<Rightarrow>
          let t1 = retire now i t in
          (Ok OK, t1 @ [fresh_row None (row_version r + 1)
             \<lparr>bin_prefix = bin_prefix (row_data r), destination_type = ur_destination_type p,
              target_node = ur_target_node p, row_failover_node = ur_failover_node p\<rparr>]))"

text \<open>
  The live rows as sqlx decodes them: a row whose NULL id cannot be decoded fails the whole
  query, which then counts as empty.
\<close>

definition publish_routes :: "nat option \<Rightarrow> route_row row list \<Rightarrow> route_row list" where
  "publish_routes null_id t =
     (if null_id = None \<and> list_ex (\<lambda>r. row_id r = None) (live_rows t) then []
      else map row_data (live_rows t))"

text \<open>The answer to a publication request, from that of the switch.\<close>

definition publish_status :: "bool \<Rightarrow> status_code" where
  "publish_status sent = (if sent then OK else BAD_GATEWAY)"

section \<open>The contract of a versioned table\<close>

definition table_ok :: "'d row list \<Rightarrow> bool" where
  "table_ok t \<longleftrightarrow> distinct (map row_id t) \<and> None \<notin> row_id ` set t \<and>
     list_all (\<lambda>r. row_is_live r \<longleftrightarrow> row_valid_to r = None) t"

lemma next_id_fresh: "r \<in> set t \<Longrightarrow> row_id r = Some i \<Longrightarrow> i < next_id t"
  by (induction t) (auto simp: next_id_def less_Suc_eq_le le_max_iff_disj split: option.splits)

lemma next_id_retire: "next_id (retire now i t) = next_id t"
  by (induction t) (auto simp: next_id_def retire_def split: option.splits)

lemma fetch_live_Some:
  "table_ok t \<Longrightarrow> fetch_live i t = Some r \<longleftrightarrow> r \<in> set t \<and> row_id r = Some i \<and> row_is_live r"
proof (induction t)
  case (Cons q t)
  have "row_id r \<noteq> row_id q" if "r \<in> set t" 
    using Cons.prems imageI [OF that, of row_id] unfolding table_ok_def by (metis distinct.simps(2) list.simps(9) list.set_map)
  then show ?case using Cons by (auto simp: fetch_live_def table_ok_def)
qed (simp add: fetch_live_def)

lemma fetch_live_None: "fetch_live i t = None \<longleftrightarrow> (\<forall>r \<in> set t. row_id r = Some i \<longrightarrow> \<not> row_is_live r)"
  by (auto simp: fetch_live_def find_None_iff)

lemma retire_ids: "map row_id (retire now i t) = map row_id t"
  by (simp add: retire_def)

lemma retire_ok: "table_ok t \<Longrightarrow> table_ok (retire now i t)"
  unfolding table_ok_def retire_ids by (auto simp: retire_def list_all_iff)

lemma append_ok: "table_ok t \<Longrightarrow> table_ok (t @ [fresh_row (Some (next_id t)) v d])"
proof -
  have "Some (next_id t) \<notin> row_id ` set t"
    using next_id_fresh [of _ t "next_id t"] by force
  then show "table_ok t \<Longrightarrow> ?thesis" by (simp add: table_ok_def fresh_row_def)
qed

text \<open>With distinct ids, retiring touches exactly one row, where it stands.\<close>

lemma retire_one:
  assumes "table_ok t" and "n < length t" and "row_id (t ! n) = Some i"
  shows "retire now i t = t[n := (t ! n)\<lparr>row_is_live := False, row_valid_to := Some now\<rparr>]"
proof (rule nth_equalityI)
  fix m assume m: "m < length (retire now i t)"
  have "row_id (t ! m) = Some i \<longleftrightarrow> m = n"
    using assms m nth_eq_iff_index_eq [of "map row_id t" m n] by (auto simp: table_ok_def retire_def)
  then show "retire now i t ! m = t[n := (t ! n)\<lparr>row_is_live := False, row_valid_to := Some now\<rparr>] ! m"
    using m by (simp add: retire_def nth_list_update)
qed (simp add: retire_def)

locale versioned_table =
  fixes create :: "bool \<Rightarrow> 'c \<Rightarrow> 'd row list \<Rightarrow> status_code \<times> 'd row list"
    and update :: "bool \<Rightarrow> nat \<Rightarrow> nat \<Rightarrow> 'u \<Rightarrow> 'd row list \<Rightarrow> (unit, status_code) outcome \<times> 'd row list"
    and initial :: "'c \<Rightarrow> 'd"
    and revise :: "'u \<Rightarrow> 'd \<Rightarrow> 'd"
  assumes create_done: "create True c t = (CREATED, t @ [fresh_row (Some (next_id t)) 1 (initial c)])"
    and create_failed: "create False c t = (INTERNAL_SERVER_ERROR, t)"
    and update_failed: "update False now i u t = (Panic, t)"
    and update_missing: "fetch_live i t = None \<Longrightarrow> update True now i u t = (Ok NOT_FOUND, t)"
    and update_done: "fetch_live i t = Some r \<Longrightarrow> update True now i u t =
      (Ok OK, retire now i t @ [fresh_row (Some (next_id t)) (row_version r + 1) (revise u (row_data r))])"
begin

lemma create_keeps_ok: "table_ok t \<Longrightarrow> table_ok (snd (create db c t))"
  by (cases db) (simp_all add: create_done create_failed append_ok)

lemma update_keeps_ok:
  assumes "table_ok t"
  shows "table_ok (snd (update db now i u t))"
proof (cases "db \<and> fetch_live i t \<noteq> None")
  case True
  then obtain r where "fetch_live i t = Some r" "db" by blast
  moreover have "table_ok (retire now i t @ [fresh_row (Some (next_id t)) v d])" for v d
    using append_ok [OF retire_ok [OF assms]] by (simp add: next_id_retire)
  ultimately show ?thesis by (simp add: update_done)
next
  case False
  then show ?thesis using assms by (cases db) (simp_all add: update_failed update_missing)
qed

text \<open>Retired versions are history: no request changes or removes them.\<close>

lemma history_kept:
  assumes "r \<in> set t" and "\<not> row_is_live r" and "table_ok t"
  shows "r \<in> set (snd (create db c t))" and "r \<in> set (snd (update db now i u t))"
proof -
  show "r \<in> set (snd (create db c t))"
    using assms(1) by (cases db) (simp_all add: create_done create_failed)
  show "r \<in> set (snd (update db now i u t))"
  proof (cases "db \<and> fetch_live i t \<noteq> None")
    case True
    then obtain l where l: "fetch_live i t = Some l" "db" by blast
    then have "row_id r \<noteq> Some i"
      using assms by (auto simp: fetch_live_Some table_ok_def distinct_map inj_on_def)
    then have "r \<in> set (retire now i t)"
      using assms(1) by (auto simp: retire_def image_iff intro!: bexI [of _ r])
    then show ?thesis using l by (simp add: update_done)
  next
    case False
    then show ?thesis using assms(1) by (cases db) (simp_all add: update_failed update_missing)
  qed
qed

text \<open>The live rows after an update: the successor replaces the version it revises.\<close>

lemma update_live:
  assumes "table_ok t" and "fetch_live i t = Some r"
  shows "live_rows (snd (update True now i u t)) = filter (\<lambda>q. row_id q \<noteq> Some i) (live_rows t)
    @ [fresh_row (Some (next_id t)) (row_version r + 1) (revise u (row_data r))]"
proof -
  have "live_rows (retire now i t) = filter (\<lambda>q. row_id q \<noteq> Some i) (live_rows t)"
    by (induction t) (auto simp: retire_def live_rows_def)
  then show ?thesis by (simp add: update_done [OF assms(2)] live_rows_def fresh_row_def)
qed

text \<open>An identifier can be updated once: the second editor of a version is told it is gone.\<close>

lemma stale_update_rejected:
  assumes "table_ok t" and "fetch_live i t = Some r"
  shows "update True now' i u' (snd (update True now i u t)) = (Ok NOT_FOUND, snd (update True now i u t))"
proof (rule update_missing)
  have "next_id t \<noteq> i" using assms next_id_fresh [of r t i] by (auto simp: fetch_live_Some)
  then show "fetch_live i (snd (update True now i u t)) = None"
    by (auto simp: update_done [OF assms(2)] fetch_live_None retire_def fresh_row_def)
qed

end

interpretation crdb_table: versioned_table create_crdb_record update_crdb_record
  "\<lambda>p. \<lparr>pan_hash = cc_pan_hash p, daily_limit = cc_daily_limit p, crdb_status = cc_status p\<rparr>"
  "\<lambda>p d. \<lparr>pan_hash = pan_hash d, daily_limit = uc_daily_limit p, crdb_status = uc_status p\<rparr>"
  by unfold_locales (simp_all add: create_crdb_record_def update_crdb_record_def next_id_retire Let_def)

interpretation stip_table: versioned_table create_stip_rule update_stip_rule
  "\<lambda>p. \<lparr>stip_network_id = cs_network_id p, condition_type = cs_condition_type p,
     max_approval_amount = cs_max_approval_amount p, stip_max_risk_score = cs_max_risk_score p\<rparr>"
  "\<lambda>p d. \<lparr>stip_network_id = stip_network_id d, condition_type = condition_type d,
     max_approval_amount = us_max_approval_amount p, stip_max_risk_score = us_max_risk_score p\<rparr>"
  by unfold_locales (simp_all add: create_stip_rule_def update_stip_rule_def next_id_retire Let_def)

text \<open>A table built by folding rows into a map holds, per key, the last row with that key.\<close>

lemma fold_rows_last:
  "foldl (\<lambda>m r. m(key r \<mapsto> val r)) m0 rows k =
     (case find (\<lambda>r. key r = k) (rev rows) of None \<Rightarrow> m0 k | Some r \<Rightarrow> Some (val r))"
  by (induction rows rule: rev_induct) simp_all

section \<open>Properties\<close>

text \<open>
  C25. Updating a card record replaces one version and loses nothing. The new table is the old one
  row by row, except that the updated version, in its place and with its number and data, is no
  longer live and has an end of validity, followed by its successor, with a fresh identifier, the
  next version number, the same card and the new limit and status. The successor is the live record
  in place of the retired one, and a second update under the same identifier, by an editor who still
  sees the old version, is refused and changes nothing.
\<close>

theorem card_update_versions:
  assumes "table_ok t" and "fetch_live i t = Some r"
  shows "case update_crdb_record True now i p t of (status, t') \<Rightarrow>
    status = Ok OK \<and> table_ok t' \<and>
    (\<exists>n < length t. t ! n = r \<and> row_is_live r \<and> row_id r = Some i \<and>
      t' = t[n := r\<lparr>row_is_live := False, row_valid_to := Some now\<rparr>] @
        [fresh_row (Some (next_id t)) (row_version r + 1)
          \<lparr>pan_hash = pan_hash (row_data r), daily_limit = uc_daily_limit p, crdb_status = uc_status p\<rparr>]) \<and>
    live_rows t' = filter (\<lambda>q. row_id q \<noteq> Some i) (live_rows t) @
      [fresh_row (Some (next_id t)) (row_version r + 1)
        \<lparr>pan_hash = pan_hash (row_data r), daily_limit = uc_daily_limit p, crdb_status = uc_status p\<rparr>] \<and>
    update_crdb_record True now' i p' t' = (Ok NOT_FOUND, t')"
proof -
  obtain status t' where up: "update_crdb_record True now i p t = (status, t')" by fastforce
  have t': "t' = snd (update_crdb_record True now i p t)" by (simp add: up)
  have "status = Ok OK" using crdb_table.update_done [OF assms(2), of now p] up by simp
  moreover have "table_ok t'" unfolding t' by (rule crdb_table.update_keeps_ok [OF assms(1)])
  moreover obtain n where n: "n < length t" "t ! n = r" "row_is_live r" "row_id r = Some i"
    using assms by (auto simp: fetch_live_Some in_set_conv_nth)
  moreover have "t' = t[n := r\<lparr>row_is_live := False, row_valid_to := Some now\<rparr>] @
      [fresh_row (Some (next_id t)) (row_version r + 1)
        \<lparr>pan_hash = pan_hash (row_data r), daily_limit = uc_daily_limit p, crdb_status = uc_status p\<rparr>]"
    using crdb_table.update_done [OF assms(2), of now p] retire_one [OF assms(1) n(1)] n(2,4) up by simp
  moreover have "update_crdb_record True now' i p' t' = (Ok NOT_FOUND, t')"
    unfolding t' by (rule crdb_table.stale_update_rejected [OF assms])
  moreover note crdb_table.update_live [OF assms, of now p, folded t']
  ultimately show ?thesis unfolding up prod.case by blast
qed

definition sample_table :: "crdb_data row list" where
  "sample_table = snd (create_crdb_record True
     \<lparr>cc_pan_hash = ascii ''4111'', cc_daily_limit = 150000, cc_status = ascii ''Active''\<rparr> [])"

theorem card_update_versions_witness:
  "map row_version (live_rows (snd (update_crdb_record True 5 1
      \<lparr>uc_daily_limit = 10, uc_status = ascii ''Blocked''\<rparr> sample_table))) = [2]"
proof -
  have "table_ok ([] :: crdb_data row list)" by (simp add: table_ok_def)
  then have ok: "table_ok sample_table" unfolding sample_table_def by (rule crdb_table.create_keeps_ok)
  have eq: "sample_table = [fresh_row (Some 1) 1
      \<lparr>pan_hash = ascii ''4111'', daily_limit = 150000, crdb_status = ascii ''Active''\<rparr>]"
    by (simp add: sample_table_def create_crdb_record_def next_id_def)
  have row: "fetch_live 1 sample_table = Some (fresh_row (Some 1) 1
      \<lparr>pan_hash = ascii ''4111'', daily_limit = 150000, crdb_status = ascii ''Active''\<rparr>)"
    and live: "live_rows sample_table = sample_table"
    and only: "filter (\<lambda>q. row_id q \<noteq> Some 1) sample_table = []"
    unfolding eq by (simp_all add: fetch_live_def live_rows_def fresh_row_def)
  show ?thesis
    using card_update_versions [OF ok row, where now = 5 and now' = 6
        and p = "\<lparr>uc_daily_limit = 10, uc_status = ascii ''Blocked''\<rparr>" and p' = "\<lparr>uc_daily_limit = 0, uc_status = []\<rparr>"]
    by (simp add: case_prod_beta live only fresh_row_def del: One_nat_def)
qed

text \<open>
  No routing rule can be updated. The routing table is only ever filled by inserts that leave
  the id NULL, and the update looks its rule up by id: whatever rules are created, every update is
  answered with 404 and changes nothing.
\<close>

theorem route_updates_never_found:
  "let t = foldl (\<lambda>t (db_ok, p). snd (create_route db_ok p t)) [] creations in
     update_route True now i p t = (Ok NOT_FOUND, t)"
proof -
  let ?t = "foldl (\<lambda>t (db_ok, p). snd (create_route db_ok p t)) [] creations"
  have "\<forall>r \<in> set ?t. row_id r = None"
    by (induction creations rule: rev_induct) (auto simp: create_route_def fresh_row_def)
  then have "fetch_live i ?t = None" by (auto simp: fetch_live_None)
  then show ?thesis by (simp add: update_route_def)
qed

end
