(* ===== verification/Simulator.thy ===== *)
theory Simulator
  imports Edge Standard_Dialect
begin

text \<open>
  The load simulator (\<open>ISO8583PaymentSimulator/src/engine.rs\<close> and \<open>main.rs\<close>): the
  transactions it generates, the dialects it speaks, and its workers, which share atomic
  counters. A worker is a program counter; the step relation interleaves the workers one atomic
  operation at a time. The choices the code makes at random (kind, network, entry mode, dialect,
  amount) and the clock are inputs. Theory \<open>Load_Profile\<close> has the draws and the pulses. The
  counters are \<open>usize\<close> atomics, that is 64-bit words that wrap.
\<close>

section \<open>Generated transactions\<close>

datatype tx_type = Happy_Path | Timeout_Path | Decline_Path
datatype network = Visa | Mastercard | Amex
datatype entry_mode = ApplePay | EMV | POS
datatype sim_dialect = D_Base24 | D_Connex | D_Interac | D_UkFps | D_Iso1987 | D_Iso1993 | D_Iso2003

record choices =
  ch_type :: tx_type
  ch_network :: network
  ch_mode :: entry_mode
  ch_dialect :: sim_dialect
  ch_id :: rstring
  ch_rrn :: rstring
  ch_time :: rstring
  ch_date :: rstring

definition base_fpan :: "network \<Rightarrow> rstring" where
  "base_fpan n =
     (case n of Visa \<Rightarrow> ascii ''4111111111111111'' | Mastercard \<Rightarrow> ascii ''5111111111111111''
      | Amex \<Rightarrow> ascii ''3711111111111111'')"

text \<open>
  \<open>gen_range lo hi\<close> is the random draw. The source computes a PIN block for the entry mode POS
  but stores an empty one.
\<close>

definition generate_transaction ::
  "(nat \<Rightarrow> nat \<Rightarrow> u64) \<Rightarrow> choices \<Rightarrow> u64 \<Rightarrow> event \<times> u64" where
  "generate_transaction gen_range c counter =
     (let tokenized = (ch_mode c = ApplePay) in
      ((blank_event Financial (ascii ''0200'') False False)
         \<lparr> fpan := (if tokenized then ascii ''4000000000009999'' else base_fpan (ch_network c)),
           is_tokenized := tokenized,
           tavv_cryptogram := (if tokenized then Some (ascii ''AABBCCDDEEFF0011'') else None),
           processing_code := ascii ''000000'',
           amount := (if ch_type c = Decline_Path then gen_range 50001 999999 else gen_range 100 49999),
           stan := format_padded 6 (unat counter mod 999999),
           local_time := ch_time c, local_date := ch_date c, rrn := ch_rrn c,
           acquirer_id := ascii ''411111'' \<rparr>,
       counter + 1))"

definition sim_encode :: "sim_dialect \<Rightarrow> event \<Rightarrow> bytes parsed" where
  "sim_encode d tx =
     (if d = D_Base24 \<or> d = D_Interac \<or> d = D_UkFps then router_encode Base24 tx
      else if d = D_Connex then router_encode Connex tx
      else Ok (standard_build_response (tx\<lparr>mti :=
        (case d of D_Iso1987 \<Rightarrow> ascii ''0200'' | D_Iso1993 \<Rightarrow> ascii ''1200''
         | D_Iso2003 \<Rightarrow> ascii ''2200'' | _ \<Rightarrow> mti tx)\<rparr>)))"

definition sim_decode :: "sim_dialect \<Rightarrow> bytes \<Rightarrow> event parsed" where
  "sim_decode d body =
     (if d = D_Base24 \<or> d = D_Interac \<or> d = D_UkFps then router_decode Base24 body
      else if d = D_Connex then router_decode Connex body
      else standard_parse body)"

definition target_port :: "sim_dialect \<Rightarrow> nat" where
  "target_port d = (if d = D_Interac then 8001 else if d = D_UkFps then 8002 else 8000)"

text \<open>The response code: that of a body received in time that decodes, else 68.\<close>

definition sim_response_code :: "sim_dialect \<Rightarrow> bytes option \<Rightarrow> (unit, rstring) outcome" where
  "sim_response_code d reply =
     (case reply of
        None \<Rightarrow> Ok (ascii ''68'')
      | Some body \<Rightarrow>
          (case sim_decode d body of
             Ok tx \<Rightarrow> Ok (response_code tx) | Err _ \<Rightarrow> Ok (ascii ''68'') | Panic \<Rightarrow> Panic))"

datatype tx_status = Success | Timeout_Status | Decline

definition tx_status_of :: "rstring \<Rightarrow> nat \<Rightarrow> tx_status" where
  "tx_status_of code duration_ms =
     (if code = ascii ''00'' then Success
      else if code = ascii ''68'' \<or> duration_ms \<ge> 5000 then Timeout_Status
      else Decline)"

section \<open>Counters and history\<close>

record history_record =
  hr_choices :: choices
  hr_status :: tx_status
  hr_amount :: u64
  hr_duration_ms :: u64
  hr_response_code :: rstring
  hr_raw_iso :: bytes
  hr_completed_at :: nat

definition outcome_record ::
  "choices \<Rightarrow> event \<Rightarrow> bytes \<Rightarrow> rstring \<Rightarrow> nat \<Rightarrow> nat \<Rightarrow> history_record" where
  "outcome_record c tx encoded code duration_ms now =
     \<lparr> hr_choices = c, hr_status = tx_status_of code duration_ms, hr_amount = amount tx,
       hr_duration_ms = of_nat duration_ms, hr_response_code = code, hr_raw_iso = encoded,
       hr_completed_at = now \<rparr>"

text \<open>
  A worker: about to test \<open>running\<close>, about to draw a number, about to give it back, about to
  count itself in flight, in the exchange, about to leave, to complete and to tally; stopped, or
  dead in the middle of an exchange (cancelled or panicked).
\<close>

datatype pc =
    Loop | Claim | Uncount | Enter | Sending | Leave history_record | Complete history_record
  | Tally history_record u64 | Stopped | Dead

record sim =
  sim_running :: bool
  total_target :: u64
  generated :: u64
  in_flight :: u64
  completed :: u64
  success :: u64
  timeouts :: u64
  declines :: u64
  tps :: u64
  avg_latency_ms :: u64
  total_latency_sum :: u64
  completion_times :: "nat list"
  history :: "history_record list"
  stan_count :: u64
  sim_workers :: "pc list"
  cancel_pending :: "bool list"
  run_base :: nat
  monitors :: "u64 list"

definition sim_new :: sim where
  "sim_new = \<lparr> sim_running = False, total_target = 0, generated = 0, in_flight = 0, completed = 0,
     success = 0, timeouts = 0, declines = 0, tps = 0, avg_latency_ms = 0, total_latency_sum = 0,
     completion_times = [], history = [], stan_count = 1, sim_workers = [], cancel_pending = [],
     run_base = 0, monitors = [] \<rparr>"

text \<open>Completions of the last five seconds, oldest first.\<close>

definition update_tps :: "nat \<Rightarrow> sim \<Rightarrow> sim" where
  "update_tps now st =
     (let times = dropWhile (\<lambda>t. now - t > 5000) (completion_times st)
      in st\<lparr>completion_times := times, tps := of_nat (length times div 5)\<rparr>)"

definition push_history :: "history_record \<Rightarrow> sim \<Rightarrow> sim" where
  "push_history r st = st\<lparr>history := take 100 (r # history st)\<rparr>"

definition tally :: "history_record \<Rightarrow> u64 \<Rightarrow> sim \<Rightarrow> sim" where
  "tally r completed_count st =
     (let st1 = (case hr_status r of
            Success \<Rightarrow> st\<lparr>success := success st + 1\<rparr>
          | Timeout_Status \<Rightarrow> st\<lparr>timeouts := timeouts st + 1\<rparr>
          | Decline \<Rightarrow> st\<lparr>declines := declines st + 1\<rparr>);
          lat = total_latency_sum st1 + hr_duration_ms r;
          st2 = st1\<lparr>total_latency_sum := lat, avg_latency_ms := lat div completed_count,
                    completion_times := completion_times st1 @ [hr_completed_at r]\<rparr>
      in push_history r (update_tps (hr_completed_at r) st2))"

section \<open>Operator requests\<close>

datatype sim_reply = Sim_Ok | Sim_Conflict

definition start_sim :: "nat option \<Rightarrow> nat option \<Rightarrow> sim \<Rightarrow> sim_reply \<times> sim" where
  "start_sim volume concurrency st =
     (if sim_running st then (Sim_Conflict, st)
      else
        let vol = max (case volume of Some v \<Rightarrow> v | None \<Rightarrow> 100) 1;
            conc = max (case concurrency of Some c \<Rightarrow> c | None \<Rightarrow> 10) 1
        in (Sim_Ok, st\<lparr> sim_running := True, total_target := of_nat vol, generated := 0, in_flight := 0,
              completed := 0, success := 0, timeouts := 0, declines := 0, tps := 0, avg_latency_ms := 0,
              total_latency_sum := 0, completion_times := [], history := [],
              sim_workers := sim_workers st @ replicate conc Loop,
              cancel_pending := cancel_pending st @ replicate conc False,
              run_base := length (sim_workers st), monitors := monitors st @ [of_nat vol] \<rparr>))"

text \<open>
  Every start makes a new channel for cancellations: the message reaches the workers of the latest
  run only.
\<close>

definition cancel_sim :: "sim \<Rightarrow> sim" where
  "cancel_sim st = st\<lparr>sim_running := False, cancel_pending := take (run_base st) (cancel_pending st) @
     replicate (length (sim_workers st) - run_base st) True\<rparr>"

section \<open>Workers\<close>

definition goto :: "nat \<Rightarrow> pc \<Rightarrow> sim \<Rightarrow> sim" where
  "goto i p st = st\<lparr>sim_workers := (sim_workers st)[i := p]\<rparr>"

abbreviation at :: "sim \<Rightarrow> nat \<Rightarrow> pc \<Rightarrow> bool" where
  "at st i p \<equiv> i < length (sim_workers st) \<and> sim_workers st ! i = p"

text \<open>
  The undisturbed steps: those of the workers, and of the task that each start leaves behind, which
  clears \<open>running\<close> when the volume of its start is completed and ends when it finds it cleared.
\<close>

inductive worker_step :: "sim \<Rightarrow> sim \<Rightarrow> bool" where
  stop: "at st i Loop \<Longrightarrow> \<not> sim_running st \<Longrightarrow> worker_step st (goto i Stopped st)"
| go: "at st i Loop \<Longrightarrow> sim_running st \<Longrightarrow> worker_step st (goto i Claim st)"
| claim: "at st i Claim \<Longrightarrow> generated st < total_target st \<Longrightarrow>
    worker_step st (goto i Enter (st\<lparr>generated := generated st + 1\<rparr>))"
| over: "at st i Claim \<Longrightarrow> \<not> generated st < total_target st \<Longrightarrow>
    worker_step st (goto i Uncount (st\<lparr>generated := generated st + 1\<rparr>))"
| uncount: "at st i Uncount \<Longrightarrow>
    worker_step st (goto i Stopped (st\<lparr>generated := generated st - 1\<rparr>))"
| enter: "at st i Enter \<Longrightarrow> worker_step st (goto i Sending (st\<lparr>in_flight := in_flight st + 1\<rparr>))"
| unencodable: "at st i Sending \<Longrightarrow> generate_transaction gen_range c (stan_count st) = (tx, n) \<Longrightarrow>
    sim_encode (ch_dialect c) tx = Err e \<Longrightarrow>
    worker_step st (goto i Loop (st\<lparr>stan_count := n, in_flight := in_flight st - 1\<rparr>))"
| exchange: "at st i Sending \<Longrightarrow> generate_transaction gen_range c (stan_count st) = (tx, n) \<Longrightarrow>
    sim_encode (ch_dialect c) tx = Ok encoded \<Longrightarrow>
    sim_response_code (ch_dialect c) reply = Ok code \<Longrightarrow>
    worker_step st (goto i (Leave (outcome_record c tx encoded code duration_ms now)) (st\<lparr>stan_count := n\<rparr>))"
| leave: "at st i (Leave r) \<Longrightarrow>
    worker_step st (goto i (Complete r) (st\<lparr>in_flight := in_flight st - 1\<rparr>))"
| complete: "at st i (Complete r) \<Longrightarrow>
    worker_step st (goto i (Tally r (completed st + 1)) (st\<lparr>completed := completed st + 1\<rparr>))"
| tallied: "at st i (Tally r n) \<Longrightarrow> worker_step st (goto i Loop (tally r n st))"
| finish: "monitors st = before @ v # after \<Longrightarrow> sim_running st \<Longrightarrow> v \<le> completed st \<Longrightarrow>
    worker_step st (st\<lparr>sim_running := False, monitors := before @ after\<rparr>)"
| retire: "monitors st = before @ v # after \<Longrightarrow> \<not> sim_running st \<Longrightarrow>
    worker_step st (st\<lparr>monitors := before @ after\<rparr>)"

text \<open>Cancellation, and a reply whose decoder panics.\<close>

inductive disturbance :: "sim \<Rightarrow> sim \<Rightarrow> bool" where
  cancel: "disturbance st (cancel_sim st)"
| interrupted: "at st i Sending \<Longrightarrow> cancel_pending st ! i \<Longrightarrow>
    disturbance st (goto i Dead (st\<lparr>stan_count := stan_count st + 1\<rparr>))"
| panicked: "at st i Sending \<Longrightarrow> sim_response_code d reply = Panic \<Longrightarrow>
    disturbance st (goto i Dead (st\<lparr>stan_count := stan_count st + 1\<rparr>))"

text \<open>Everything that can happen, restarts included.\<close>

inductive sim_step :: "sim \<Rightarrow> sim \<Rightarrow> bool" where
  worker: "worker_step st st' \<Longrightarrow> sim_step st st'"
| disturbed: "disturbance st st' \<Longrightarrow> sim_step st st'"
| start: "sim_step st (snd (start_sim volume concurrency st))"

section \<open>Counting workers\<close>

definition count_pcs :: "(pc \<Rightarrow> bool) \<Rightarrow> sim \<Rightarrow> nat" where
  "count_pcs P st = length (filter P (sim_workers st))"

fun busy :: "pc \<Rightarrow> bool" where
  "busy Enter = True" | "busy Sending = True" | "busy (Leave _) = True"
| "busy (Complete _) = True" | "busy Dead = True" | "busy _ = False"

fun flying :: "pc \<Rightarrow> bool" where
  "flying Sending = True" | "flying (Leave _) = True" | "flying Dead = True" | "flying _ = False"

fun tallying :: "pc \<Rightarrow> bool" where
  "tallying (Tally _ _) = True" | "tallying _ = False"

fun giving_back :: "pc \<Rightarrow> bool" where
  "giving_back Uncount = True" | "giving_back _ = False"

fun out_of_work :: "pc \<Rightarrow> bool" where
  "out_of_work Uncount = True" | "out_of_work Stopped = True" | "out_of_work _ = False"

lemma filter_update:
  "i < length ws \<Longrightarrow> length (filter P (ws[i := p])) + (if P (ws ! i) then 1 else 0)
    = length (filter P ws) + (if P p then 1 else 0)"
proof (induction ws arbitrary: i)
  case (Cons w ws)
  then show ?case
  proof (cases i)
    case (Suc j)
    with Cons.prems Cons.IH [of j] show ?thesis by (auto split: if_splits)
  qed simp
qed simp

lemma count_goto:
  "at st i q \<Longrightarrow> count_pcs P (goto i p st) + (if P q then 1 else 0) = count_pcs P st + (if P p then 1 else 0)"
  unfolding count_pcs_def goto_def using filter_update [of i "sim_workers st" P p] by auto

lemma count_at: "at st i q \<Longrightarrow> P q \<Longrightarrow> 0 < count_pcs P st"
  by (auto simp: count_pcs_def length_greater_0_conv filter_empty_conv dest: nth_mem)

lemma count_not_at: "at st i q \<Longrightarrow> \<not> P q \<Longrightarrow> count_pcs P st < length (sim_workers st)"
  using length_filter_less [of "sim_workers st ! i" "sim_workers st" P] by (auto simp: count_pcs_def)

lemma sim_encode_never_fails: "sim_encode d tx \<noteq> Err e"
  by (cases d) (simp_all add: sim_encode_def router_simps egress_encode_ok)

section \<open>The counters of a run\<close>

definition sim_counts :: "sim \<Rightarrow> bool" where
  "sim_counts st \<longleftrightarrow>
     length (sim_workers st) + unat (total_target st) < 2 ^ 64 \<and>
     unat (generated st) = unat (completed st) + count_pcs busy st + count_pcs giving_back st \<and>
     unat (completed st) + count_pcs busy st \<le> unat (total_target st) \<and>
     unat (in_flight st) = count_pcs flying st \<and>
     unat (success st) + unat (timeouts st) + unat (declines st) + count_pcs tallying st = unat (completed st)"

text \<open>Once a worker has found no work left, or the run is over, all work has been claimed.\<close>

definition drained :: "sim \<Rightarrow> bool" where
  "drained st \<longleftrightarrow> (\<not> sim_running st \<or> 0 < count_pcs out_of_work st \<longrightarrow>
     unat (completed st) + count_pcs busy st = unat (total_target st))"

text \<open>The only monitor left, if any, is that of the current run.\<close>

definition watched :: "sim \<Rightarrow> bool" where
  "watched st \<longleftrightarrow> set (monitors st) \<subseteq> {total_target st} \<and> (sim_running st \<longrightarrow> monitors st \<noteq> [])"

lemma unat_inc: "unat (x :: u64) + 1 < 2 ^ 64 \<Longrightarrow> unat (x + 1) = unat x + 1"
  by (simp add: unat_word_ariths)

lemma unat_dec: "0 < unat (x :: u64) \<Longrightarrow> unat (x - 1) = unat x - 1"
  by (metis unat_gt_0 unat_minus_one)

lemma count_pcs_le: "count_pcs P st \<le> length (sim_workers st)"
  by (simp add: count_pcs_def)

lemma count_pcs_disjoint:
  "(\<And>p. \<not> (P p \<and> Q p)) \<Longrightarrow> count_pcs P st + count_pcs Q st \<le> length (sim_workers st)"
proof -
  assume disj: "\<And>p. \<not> (P p \<and> Q p)"
  have "length (filter P ws) + length (filter Q ws) \<le> length ws" for ws
    by (induction ws) (use disj in auto)
  then show ?thesis by (simp add: count_pcs_def)
qed

lemma count_update [simp]:
  "count_pcs P (st\<lparr>generated := n\<rparr>) = count_pcs P st" "count_pcs P (st\<lparr>in_flight := n\<rparr>) = count_pcs P st"
  "count_pcs P (st\<lparr>completed := n\<rparr>) = count_pcs P st" "count_pcs P (st\<lparr>stan_count := n\<rparr>) = count_pcs P st"
  "count_pcs P (st\<lparr>sim_running := b\<rparr>) = count_pcs P st" "count_pcs P (st\<lparr>cancel_pending := l\<rparr>) = count_pcs P st"
  "count_pcs P (st\<lparr>monitors := vs\<rparr>) = count_pcs P st"
  "count_pcs P (tally r k st) = count_pcs P st"
  by (simp_all add: count_pcs_def tally_def push_history_def update_tps_def Let_def split: tx_status.splits)

lemma goto_frame [simp]:
  "sim_running (goto i p st) = sim_running st" "total_target (goto i p st) = total_target st"
  "generated (goto i p st) = generated st" "in_flight (goto i p st) = in_flight st"
  "completed (goto i p st) = completed st" "success (goto i p st) = success st"
  "timeouts (goto i p st) = timeouts st" "declines (goto i p st) = declines st"
  "length (sim_workers (goto i p st)) = length (sim_workers st)" "monitors (goto i p st) = monitors st"
  by (simp_all add: goto_def)

lemma tally_frame [simp]:
  "sim_running (tally r k st) = sim_running st" "total_target (tally r k st) = total_target st"
  "generated (tally r k st) = generated st" "in_flight (tally r k st) = in_flight st"
  "completed (tally r k st) = completed st" "sim_workers (tally r k st) = sim_workers st"
  "monitors (tally r k st) = monitors st"
  by (simp_all add: tally_def push_history_def update_tps_def Let_def split: tx_status.splits)

lemma tally_sum:
  assumes "unat (success st) + unat (timeouts st) + unat (declines st) + 1 < 2 ^ 64"
  shows "unat (success (tally r k st)) + unat (timeouts (tally r k st)) + unat (declines (tally r k st))
    = unat (success st) + unat (timeouts st) + unat (declines st) + 1"
  using assms
  by (cases "hr_status r") (simp_all add: tally_def push_history_def update_tps_def Let_def unat_inc)

text \<open>
  What a move of worker \<open>i\<close> does to a count, for simplification, and that a worker is counted where
  it stands.
\<close>

lemma count_move:
  "i < length (sim_workers st) \<Longrightarrow>
    count_pcs P (goto i p st) = count_pcs P st + of_bool (P p) - of_bool (P (sim_workers st ! i))"
  using count_goto [of i st "sim_workers st ! i" P p] by (auto split: if_splits)

lemma count_here: "i < length (sim_workers st) \<Longrightarrow> of_bool (P (sim_workers st ! i)) \<le> count_pcs P st"
  using count_at [of i st "sim_workers st ! i" P] by (cases "P (sim_workers st ! i)") auto

lemmas counted_here = count_here [of _ _ busy] count_here [of _ _ giving_back] count_here [of _ _ flying]
  count_here [of _ _ tallying] count_here [of _ _ out_of_work]

text \<open>No counter wraps.\<close>

lemma generated_inc:
  assumes "sim_counts st" and "at st i Claim"
  shows "unat (generated st + 1) = unat (generated st) + 1"
proof -
  have "count_pcs giving_back st < length (sim_workers st)" using assms(2) by (rule count_not_at) simp
  then show ?thesis using assms(1) by (intro unat_inc) (simp add: sim_counts_def)
qed

lemma in_flight_inc:
  assumes "sim_counts st" and "at st i Enter"
  shows "unat (in_flight st + 1) = unat (in_flight st) + 1"
proof -
  have "count_pcs flying st < length (sim_workers st)" using assms(2) by (rule count_not_at) simp
  then show ?thesis using assms(1) by (intro unat_inc) (simp add: sim_counts_def)
qed

lemma completed_inc:
  assumes "sim_counts st" and "at st i (Complete r)"
  shows "unat (completed st + 1) = unat (completed st) + 1"
proof -
  have "0 < count_pcs busy st" using assms(2) by (rule count_at) simp
  then show ?thesis using assms(1) by (intro unat_inc) (simp add: sim_counts_def)
qed

lemma tally_inc:
  assumes "sim_counts st" and "at st i (Tally r n)"
  shows "unat (success (tally r k st)) + unat (timeouts (tally r k st)) + unat (declines (tally r k st))
    = unat (success st) + unat (timeouts st) + unat (declines st) + 1"
proof -
  have "0 < count_pcs tallying st" using assms(2) by (rule count_at) simp
  then show ?thesis using assms(1) by (intro tally_sum) (simp add: sim_counts_def)
qed

lemma worker_step_counts:
  assumes "worker_step st st'" and "sim_counts st"
  shows "sim_counts st'"
  using assms
proof (induction rule: worker_step.induct)
  case (claim st i)
  then show ?case
    using generated_inc [of st i] by (simp add: sim_counts_def count_move word_less_nat_alt)
next
  case (over st i)
  then show ?case using generated_inc [of st i] by (simp add: sim_counts_def count_move)
next
  case (uncount st i)
  then show ?case using counted_here [of i st] by (simp add: sim_counts_def count_move unat_dec)
next
  case (enter st i)
  then show ?case using in_flight_inc [of st i] by (simp add: sim_counts_def count_move)
next
  case (leave st i r)
  then show ?case using counted_here [of i st] by (simp add: sim_counts_def count_move unat_dec)
next
  case (complete st i r)
  then show ?case using completed_inc [of st i r] counted_here [of i st] by (simp add: sim_counts_def count_move)
next
  case (tallied st i r n)
  then show ?case using tally_inc [of st i r n n] counted_here [of i st] by (simp add: sim_counts_def count_move)
qed (simp_all add: sim_counts_def count_move sim_encode_never_fails)

lemma disturbance_counts: "disturbance st st' \<Longrightarrow> sim_counts st \<Longrightarrow> sim_counts st'"
  by (induction rule: disturbance.induct) (simp_all add: sim_counts_def cancel_sim_def count_move)

lemma count_pcs_mono: "(\<And>p. P p \<Longrightarrow> Q p) \<Longrightarrow> count_pcs P st \<le> count_pcs Q st"
proof -
  assume imp: "\<And>p. P p \<Longrightarrow> Q p"
  have "length (filter P ws) \<le> length (filter Q ws)" for ws by (induction ws) (use imp in auto)
  then show ?thesis by (simp add: count_pcs_def)
qed

lemma worker_step_drained:
  assumes "worker_step st st'" and "sim_counts st" and "drained st" and "watched st"
  shows "drained st'"
  using assms
proof (induction rule: worker_step.induct)
  case (claim st i)
  then have "sim_running st" "count_pcs out_of_work st = 0"
    by (auto simp: sim_counts_def drained_def word_less_nat_alt)
  with claim show ?case by (simp add: drained_def count_move)
next
  case (over st i)
  have "count_pcs giving_back st \<le> count_pcs out_of_work st"
    by (rule count_pcs_mono) (auto elim: giving_back.elims)
  then have "unat (completed st) + count_pcs busy st = unat (total_target st)"
    using over by (cases "count_pcs giving_back st") (simp_all add: sim_counts_def drained_def word_less_nat_alt)
  with over show ?case by (simp add: drained_def count_move)
next
  case (uncount st i)
  then show ?case using counted_here [of i st] by (simp add: drained_def count_move)
next
  case (complete st i r)
  then show ?case
    using completed_inc [of st i r] counted_here [of i st] by (auto simp: drained_def count_move)
next
  case (finish st before v after)
  then show ?case by (simp add: sim_counts_def drained_def watched_def word_le_nat_alt)
qed (simp_all add: drained_def count_move sim_encode_never_fails)

lemma worker_step_watched: "worker_step st st' \<Longrightarrow> watched st \<Longrightarrow> watched st'"
  by (induction rule: worker_step.induct) (auto simp: watched_def)

section \<open>Termination\<close>

fun pc_rank :: "pc \<Rightarrow> nat" where
  "pc_rank Enter = 8" | "pc_rank Sending = 7" | "pc_rank (Leave _) = 6" | "pc_rank (Complete _) = 5"
| "pc_rank (Tally _ _) = 4" | "pc_rank Loop = 3" | "pc_rank Claim = 2" | "pc_rank Uncount = 1"
| "pc_rank Stopped = 0" | "pc_rank Dead = 0"

text \<open>Work not yet claimed, what the workers have left of what they hold, and the monitors.\<close>

definition work_left :: "sim \<Rightarrow> nat" where
  "work_left st = 8 * (unat (total_target st) - (unat (completed st) + count_pcs busy st))
     + sum_list (map pc_rank (sim_workers st)) + length (monitors st)"

lemma sum_rank_update:
  "i < length ws \<Longrightarrow> sum_list (map pc_rank (ws[i := p])) + pc_rank (ws ! i) = sum_list (map pc_rank ws) + pc_rank p"
proof (induction ws arbitrary: i)
  case (Cons w ws)
  then show ?case by (cases i) simp_all
qed simp

lemma rank_here: "i < length ws \<Longrightarrow> pc_rank (ws ! i) \<le> sum_list (map pc_rank ws)"
  by (simp add: member_le_sum_list)

lemma rank_move:
  "i < length (sim_workers st) \<Longrightarrow> sum_list (map pc_rank (sim_workers (goto i p st)))
    = sum_list (map pc_rank (sim_workers st)) + pc_rank p - pc_rank (sim_workers st ! i)"
  unfolding goto_def using sum_rank_update [of i "sim_workers st" p] by simp

text \<open>A move to a lower rank that neither takes nor completes work.\<close>

lemma work_left_move:
  assumes "i < length (sim_workers st)" and "pc_rank p < pc_rank (sim_workers st ! i)"
    and "busy p = busy (sim_workers st ! i)"
  shows "work_left (goto i p st) < work_left st"
  using assms counted_here(1) [of i st] rank_here [of i "sim_workers st"]
  by (simp add: work_left_def count_move rank_move)

lemma work_left_update [simp]:
  "work_left (st\<lparr>generated := n\<rparr>) = work_left st" "work_left (st\<lparr>in_flight := n\<rparr>) = work_left st"
  "work_left (st\<lparr>stan_count := n\<rparr>) = work_left st" "work_left (tally r k st) = work_left st"
  by (simp_all add: work_left_def)

lemma work_left_step:
  assumes "work_left st1 = work_left st" and "i < length (sim_workers st1)"
    and "pc_rank p < pc_rank (sim_workers st1 ! i)" and "busy p = busy (sim_workers st1 ! i)"
  shows "work_left (goto i p st1) < work_left st"
  using work_left_move [OF assms(2-4)] assms(1) by simp

lemma worker_step_work_left:
  assumes "worker_step st st'" and "sim_counts st"
  shows "work_left st' < work_left st"
  using assms
proof (induction rule: worker_step.induct)
  case (claim st i)
  then have "unat (completed st) + count_pcs busy st < unat (total_target st)"
    by (simp add: sim_counts_def word_less_nat_alt)
  with claim show ?case
    using rank_here [of i "sim_workers st"] by (simp add: work_left_def count_move rank_move)
next
  case (complete st i r)
  then show ?case
    using completed_inc [of st i r] counted_here [of i st] rank_here [of i "sim_workers st"]
    by (simp add: work_left_def count_move rank_move)
next
  case (finish st before v after)
  then show ?case by (simp add: work_left_def)
next
  case (retire st before v after)
  then show ?case by (simp add: work_left_def)
qed (auto intro!: work_left_step simp: sim_encode_never_fails)

section \<open>Runs\<close>

abbreviation idle :: "sim \<Rightarrow> bool" where
  "idle st \<equiv> \<forall>st'. \<not> worker_step st st'"

lemma idle_workers:
  assumes "idle st" and "i < length (sim_workers st)"
  shows "sim_workers st ! i = Stopped \<or> sim_workers st ! i = Dead"
proof (cases "sim_workers st ! i")
  case Loop
  then show ?thesis using assms worker_step.stop worker_step.go by blast
next
  case Claim
  then show ?thesis using assms worker_step.claim worker_step.over by blast
next
  case Sending
  let ?c = "\<lparr>ch_type = Happy_Path, ch_network = Visa, ch_mode = EMV, ch_dialect = D_Base24,
    ch_id = [], ch_rrn = [], ch_time = [], ch_date = []\<rparr>"
  obtain tx n where "generate_transaction (\<lambda>_ _. 0) ?c (stan_count st) = (tx, n)" by fastforce
  moreover have "sim_encode (ch_dialect ?c) tx = Ok (egress_encode tx)"
    by (simp add: sim_encode_def router_simps egress_encode_ok)
  moreover have "sim_response_code (ch_dialect ?c) None = Ok (ascii ''68'')"
    by (simp add: sim_response_code_def)
  ultimately show ?thesis using assms Sending worker_step.exchange by blast
qed (use assms worker_step.uncount worker_step.enter worker_step.leave worker_step.complete
    worker_step.tallied in blast)+

definition no_dead :: "sim \<Rightarrow> bool" where
  "no_dead st \<longleftrightarrow> Dead \<notin> set (sim_workers st)"

lemma no_dead_goto: "no_dead st \<Longrightarrow> p \<noteq> Dead \<Longrightarrow> no_dead (goto i p st)"
  unfolding no_dead_def goto_def using set_update_subset_insert [of "sim_workers st" i p] by auto

lemma no_dead_update [simp]:
  "no_dead (st\<lparr>generated := n\<rparr>) = no_dead st" "no_dead (st\<lparr>in_flight := n\<rparr>) = no_dead st"
  "no_dead (st\<lparr>completed := n\<rparr>) = no_dead st" "no_dead (st\<lparr>stan_count := n\<rparr>) = no_dead st"
  "no_dead (st\<lparr>sim_running := b\<rparr>) = no_dead st" "no_dead (st\<lparr>monitors := vs\<rparr>) = no_dead st" "no_dead (tally r k st) = no_dead st"
  by (simp_all add: no_dead_def)

lemma worker_step_no_dead: "worker_step st st' \<Longrightarrow> no_dead st \<Longrightarrow> no_dead st'"
  by (induction rule: worker_step.induct) (simp_all add: no_dead_goto)

lemma worker_step_target: "worker_step st st' \<Longrightarrow> total_target st' = total_target st"
  by (induction rule: worker_step.induct) simp_all

lemma disturbance_target: "disturbance st st' \<Longrightarrow> total_target st' = total_target st"
  by (induction rule: disturbance.induct) (simp_all add: cancel_sim_def)

lemma count_none: "list_all (\<lambda>p. \<not> P p) (sim_workers st) \<Longrightarrow> count_pcs P st = 0"
  by (simp add: count_pcs_def list_all_iff filter_empty_conv)

text \<open>The first start of a simulator.\<close>

definition started :: "nat \<Rightarrow> nat \<Rightarrow> sim" where
  "started volume concurrency = snd (start_sim (Some volume) (Some concurrency) sim_new)"

lemma started_counts:
  assumes "max volume 1 + max concurrency 1 < 2 ^ 64"
  shows "sim_counts (started volume concurrency)" and "drained (started volume concurrency)"
    and "no_dead (started volume concurrency)"
    and "unat (total_target (started volume concurrency)) = max volume 1" and "watched (started volume concurrency)"
proof -
  let ?st = "started volume concurrency"
  have ws: "sim_workers ?st = replicate (max concurrency 1) Loop"
    by (simp add: started_def start_sim_def sim_new_def Let_def)
  have target: "unat (total_target ?st) = max volume 1"
    using assms by (simp add: started_def start_sim_def sim_new_def Let_def unat_of_nat)
  have zero: "count_pcs P ?st = 0" if "\<not> P Loop" for P
    using that by (intro count_none) (simp add: ws list_all_iff)
  have rest: "sim_running ?st" "generated ?st = 0" "completed ?st = 0" "in_flight ?st = 0"
    "success ?st = 0" "timeouts ?st = 0" "declines ?st = 0"
    by (simp_all add: started_def start_sim_def sim_new_def Let_def)
  show "sim_counts ?st" using assms by (simp add: sim_counts_def ws target rest zero)
  show "drained ?st" by (simp add: drained_def rest zero)
  show "no_dead ?st" by (simp add: no_dead_def ws)
  show "unat (total_target ?st) = max volume 1" by (rule target)
  show "watched ?st" by (simp add: watched_def started_def start_sim_def sim_new_def Let_def)
qed

lemma run_invariant:
  assumes "worker_step\<^sup>*\<^sup>* st0 st" and "sim_counts st0" and "drained st0" and "no_dead st0" and "watched st0"
  shows "sim_counts st \<and> drained st \<and> no_dead st \<and> watched st \<and> total_target st = total_target st0"
  using assms(1)
proof (induction rule: rtranclp_induct)
  case base
  then show ?case using assms(2-5) by simp
next
  case (step y z)
  then show ?case
    using worker_step_counts worker_step_drained worker_step_no_dead worker_step_watched worker_step_target by metis
qed

lemma started_workers: "worker_step\<^sup>*\<^sup>* (started volume concurrency) st \<Longrightarrow> sim_workers st \<noteq> []"
proof (induction rule: rtranclp_induct)
  case base
  then show ?case by (simp add: started_def start_sim_def sim_new_def Let_def)
next
  case (step y z)
  have "length (sim_workers z) = length (sim_workers y)"
    using step.hyps(2) by (induction rule: worker_step.induct) simp_all
  then show ?case using step.IH by auto
qed

lemma no_infinite_run:
  assumes "sim_counts (f 0)"
  shows "\<not> (\<forall>n. worker_step (f n) (f (Suc n)))"
proof
  assume run: "\<forall>n. worker_step (f n) (f (Suc n))"
  have "sim_counts (f n)" for n
    by (induction n) (use assms run worker_step_counts in blast)+
  then have "work_left (f (Suc n)) < work_left (f n)" for n
    using run worker_step_work_left by blast
  then show False using wf_iff_no_infinite_down_chain [of "measure work_left"] by auto
qed

lemma idle_counts:
  assumes "idle st" and "sim_counts st" and "drained st" and "no_dead st" and "sim_workers st \<noteq> []" and "watched st"
  shows "completed st = total_target st" and "generated st = total_target st" and "in_flight st = 0"
    and "unat (success st) + unat (timeouts st) + unat (declines st) = unat (total_target st)"
    and "\<not> sim_running st"
proof -
  have stopped: "\<forall>p \<in> set (sim_workers st). p = Stopped"
    using idle_workers [OF assms(1)] assms(4) by (metis in_set_conv_nth no_dead_def)
  then have zero: "count_pcs P st = 0" if "\<not> P Stopped" for P
    using that by (intro count_none) (auto simp: list_all_iff)
  have "at st 0 Stopped" using stopped assms(5) by simp
  then have "0 < count_pcs out_of_work st" by (rule count_at) simp
  then have all: "unat (completed st) = unat (total_target st)"
    using assms(3) zero [of busy] by (simp add: drained_def)
  then show "completed st = total_target st" by (simp add: word_unat_eq_iff)
  show "unat (success st) + unat (timeouts st) + unat (declines st) = unat (total_target st)"
    using assms(2) all zero [of tallying] by (simp add: sim_counts_def)
  show "generated st = total_target st" and "in_flight st = 0"
    using assms(2) all zero [of busy] zero [of giving_back] zero [of flying]
    by (simp_all add: sim_counts_def word_unat_eq_iff)
  show "\<not> sim_running st"
  proof
    assume on: "sim_running st"
    then obtain v vs where vs: "monitors st = v # vs" using assms(6) by (cases "monitors st") (auto simp: watched_def)
    then have "v \<le> completed st" using assms(6) \<open>completed st = total_target st\<close> by (auto simp: watched_def)
    then show False using assms(1) worker_step.finish [of st "[]" v vs] vs on by simp
  qed
qed

section \<open>Generated messages on the wire\<close>

lemma standard_bytes: "standard_build_response ev = egress_encode ev"
  by (simp add: standard_build_response_def egress_encode_def router_simps universal_encode_def
      standard_segments_eq split: prod.splits)

lemma generated_fields:
  assumes "generate_transaction gen_range c counter = (tx, n)"
  shows "mti tx = ascii ''0200''" and "message_class tx = Financial"
    and "amount tx = (if ch_type c = Decline_Path then gen_range 50001 999999 else gen_range 100 49999)"
    and "ch_mode c \<noteq> ApplePay \<Longrightarrow> \<not> ends_with (fpan tx) (ascii ''9999'')"
  using assms
  by (auto simp: generate_transaction_def blank_event_def base_fpan_def ends_with_def ascii_def Let_def
      split: network.splits)

text \<open>What \<open>rand\<close> promises of a draw from \<open>lo..hi\<close>.\<close>

definition in_range :: "(nat \<Rightarrow> nat \<Rightarrow> u64) \<Rightarrow> nat \<Rightarrow> nat \<Rightarrow> bool" where
  "in_range gen_range lo hi \<longleftrightarrow> lo \<le> unat (gen_range lo hi) \<and> unat (gen_range lo hi) < hi"

lemma generated_amount:
  assumes "generate_transaction gen_range c counter = (tx, n)"
    and "in_range gen_range 50001 999999" and "in_range gen_range 100 49999"
  shows "amount tx > 50000 \<longleftrightarrow> ch_type c = Decline_Path" and "unat (amount tx) < 10 ^ 12"
  using generated_fields(3) [OF assms(1)] assms(2,3)
  by (auto simp: word_less_nat_alt in_range_def)

lemma sim_mtis:
  "m \<in> {ascii ''0200'', ascii ''1200'', ascii ''2200''} \<Longrightarrow>
    length m = 4 \<and> class_of_mti m = Financial \<and> \<not> reversal_mti m"
proof (elim insertE emptyE)
  show "length m = 4 \<and> class_of_mti m = Financial \<and> \<not> reversal_mti m" if "m = ascii ''0200''"
    unfolding that by (simp add: ascii_def class_of_mti_def reversal_mti_def)
  show "length m = 4 \<and> class_of_mti m = Financial \<and> \<not> reversal_mti m" if "m = ascii ''1200''"
    unfolding that by (simp add: ascii_def class_of_mti_def reversal_mti_def)
  show "length m = 4 \<and> class_of_mti m = Financial \<and> \<not> reversal_mti m" if "m = ascii ''2200''"
    unfolding that by (simp add: ascii_def class_of_mti_def reversal_mti_def)
qed

lemma generated_wire:
  assumes "generate_transaction gen_range c counter = (tx, n)"
  shows "length (fpan tx) = 16" and "length (acquirer_id tx) = 6" and "off_wire_blank tx"
    and "\<not> is_reversal tx" and "pin_block tx = []" and "response_code tx = []"
    and "processing_code tx = ascii ''000000''" and "stan tx = format_padded 6 (unat counter mod 999999)"
    and "local_time tx = ch_time c" and "local_date tx = ch_date c" and "rrn tx = ch_rrn c"
    and "tavv_cryptogram tx = (if is_tokenized tx then Some (ascii ''AABBCCDDEEFF0011'') else None)"
proof -
  have "length (base_fpan k) = 16" for k by (cases k) (simp_all add: base_fpan_def ascii_def)
  moreover have "length (ascii ''4000000000009999'') = 16" "length (ascii ''411111'') = 6"
    by (simp_all add: ascii_def)
  ultimately show "length (fpan tx) = 16" and "length (acquirer_id tx) = 6" and "off_wire_blank tx"
    and "\<not> is_reversal tx" and "pin_block tx = []" and "response_code tx = []"
    and "processing_code tx = ascii ''000000''" and "stan tx = format_padded 6 (unat counter mod 999999)"
    and "local_time tx = ch_time c" and "local_date tx = ch_date c" and "rrn tx = ch_rrn c"
    and "tavv_cryptogram tx = (if is_tokenized tx then Some (ascii ''AABBCCDDEEFF0011'') else None)"
    using assms by (auto simp: generate_transaction_def off_wire_blank_def blank_event_def Let_def)
qed

lemma generated_exact:
  assumes "generate_transaction gen_range c counter = (tx, n)"
    and "in_range gen_range 50001 999999" and "in_range gen_range 100 49999"
    and "fits (ch_time c) 6" and "fits (ch_date c) 4" and "fits (ch_rrn c) 12"
    and "m \<in> {ascii ''0200'', ascii ''1200'', ascii ''2200''}"
  shows "exact_event (tx\<lparr>mti := m\<rparr>)"
proof -
  note wire = generated_wire [OF assms(1)]
  have "plain_cryptogram (ascii ''AABBCCDDEEFF0011'')"
    by (simp add: plain_cryptogram_def ascii_def valid_utf8_ascii starts_with_def)
  then have "wire_wf tx"
    using wire(1,2,12) generated_amount(2) [OF assms(1-3)] by (simp add: wire_wf_def lengths_wf_def)
  moreover have "fits (ascii ''000000'') 6" by (simp add: fits_def ascii_def valid_utf8_ascii)
  moreover have "fits (format_padded 6 (unat counter mod 999999)) 6" "fits [] 2"
    by (simp_all add: fits_def length_format_padded)
  moreover have "length (ascii ''0200'') = 4" by (simp add: ascii_def)
  ultimately have "wire_exact tx"
    using wire assms(4-6) generated_fields(1) [OF assms(1)] by (simp add: wire_exact_def)
  then have "wire_exact (tx\<lparr>mti := m\<rparr>)" "off_wire_blank (tx\<lparr>mti := m\<rparr>)"
    using sim_mtis [OF assms(7)] wire(3)
    by (simp_all add: wire_exact_def wire_wf_def lengths_wf_def off_wire_blank_def split: option.splits)
  then show ?thesis
    using sim_mtis [OF assms(7)] generated_fields(2) [OF assms(1)] wire(4) by (simp add: exact_event_def)
qed

section \<open>Properties\<close>

text \<open>
  C29. The standard ingress dialect and the outbound dialects are one format. Both encoders produce
  the same bytes for every event, and on the encoding of an event within the wire's bounds both
  decoders return the same event.
\<close>

theorem dialects_equivalent:
  "standard_build_response ev = egress_encode ev \<and>
    (wire_wf ev \<longrightarrow> standard_parse (egress_encode ev) = router_decode d (egress_encode ev))"
proof -
  have "standard_parse (egress_encode ev) = router_decode d (egress_encode ev)" if "wire_wf ev"
    using standard_roundtrip_view [OF that] universal_roundtrip_view [OF that]
    by (simp add: standard_bytes standard_view_eq router_simps egress_encode_ok)
  then show ?thesis by (simp add: standard_bytes)
qed

theorem dialects_equivalent_witness:
  "standard_parse (egress_encode sample_authorization) = router_decode Connex (egress_encode sample_authorization)"
proof -
  have "wire_wf sample_authorization" using sample_exact by (simp add: exact_event_def wire_exact_def)
  then show ?thesis using dialects_equivalent [of sample_authorization Connex] by simp
qed

text \<open>
  The switch understands what the simulator sends to its standard port. Whatever kind, network,
  entry mode and dialect is drawn, with six digits of time, four of date and twelve of RRN, the
  ingress server hands the engine the generated transaction unchanged but for the MTI of the
  dialect's ISO version, as a Financial request; and the bank's rules answer a transaction of kind
  Decline with code 51 and any other card transaction with code 00.
\<close>

theorem simulated_request_understood:
  assumes "generate_transaction gen_range c counter = (tx, n)"
    and "in_range gen_range 50001 999999" and "in_range gen_range 100 49999"
    and "fits (ch_time c) 6" and "fits (ch_date c) 4" and "fits (ch_rrn c) 12"
    and "target_port (ch_dialect c) = 8000"
  shows "\<exists>encoded m. sim_encode (ch_dialect c) tx = Ok encoded \<and>
    server_receive standard_parse encoded r
      = Ok (Some \<lparr>ctx_transaction = tx\<lparr>mti := m\<rparr>, ctx_responder = Some r\<rparr>) \<and>
    m \<in> {ascii ''0200'', ascii ''1200'', ascii ''2200''} \<and> message_class tx = Financial \<and>
    (ch_mode c \<noteq> ApplePay \<longrightarrow> map_option response_code (bank_response tx)
      = Some (if ch_type c = Decline_Path then ascii ''51'' else ascii ''00''))"
proof -
  define m where "m = (case ch_dialect c of D_Iso1993 \<Rightarrow> ascii ''1200'' | D_Iso2003 \<Rightarrow> ascii ''2200''
    | _ \<Rightarrow> ascii ''0200'')"
  have m: "m \<in> {ascii ''0200'', ascii ''1200'', ascii ''2200''}"
    by (simp add: m_def split: sim_dialect.splits)
  have exact: "exact_event (tx\<lparr>mti := m\<rparr>)"
    using generated_exact [OF assms(1-6) m] .
  have same: "tx\<lparr>mti := ascii ''0200''\<rparr> = tx" using generated_fields(1) [OF assms(1)] by (cases tx) simp
  have "sim_encode (ch_dialect c) tx = Ok (egress_encode (tx\<lparr>mti := m\<rparr>))"
    using generated_fields(1) [OF assms(1)] assms(7) same
    by (cases "ch_dialect c") (simp_all add: sim_encode_def m_def router_simps egress_encode_ok
        target_port_def standard_bytes same)
  moreover have "standard_parse (egress_encode (tx\<lparr>mti := m\<rparr>)) = Ok (tx\<lparr>mti := m\<rparr>)"
    using standard_roundtrip_view [of "tx\<lparr>mti := m\<rparr>"] universal_view_exact [of "tx\<lparr>mti := m\<rparr>"] exact
    by (simp add: exact_event_def wire_exact_def standard_view_eq standard_bytes)
  moreover have "map_option response_code (bank_response tx)
      = Some (if ch_type c = Decline_Path then ascii ''51'' else ascii ''00'')" if "ch_mode c \<noteq> ApplePay"
    using generated_fields [OF assms(1)] generated_amount(1) [OF assms(1-3)] that
    by (simp add: bank_response_def)
  ultimately show ?thesis
    using m generated_fields(2) [OF assms(1)] by (auto simp: server_receive_def)
qed

definition sample_choices :: choices where
  "sample_choices = \<lparr>ch_type = Decline_Path, ch_network = Visa, ch_mode = EMV, ch_dialect = D_Iso1993,
     ch_id = ascii ''A'', ch_rrn = ascii ''0123456789AB'', ch_time = ascii ''120000'', ch_date = ascii ''1231''\<rparr>"

theorem simulated_request_understood_witness:
  "\<exists>tx encoded m. fst (generate_transaction (\<lambda>lo hi. of_nat lo) sample_choices 1) = tx \<and>
    sim_encode D_Iso1993 tx = Ok encoded \<and>
    server_receive standard_parse encoded 5 = Ok (Some \<lparr>ctx_transaction = tx\<lparr>mti := m\<rparr>, ctx_responder = Some 5\<rparr>) \<and>
    map_option response_code (bank_response tx) = Some (ascii ''51'')"
proof -
  obtain tx n where gen: "generate_transaction (\<lambda>lo hi. of_nat lo) sample_choices 1 = (tx, n)" by fastforce
  have "in_range (\<lambda>lo hi. of_nat lo) 50001 999999" "in_range (\<lambda>lo hi. of_nat lo) 100 49999"
    by (simp_all add: in_range_def)
  moreover have "fits (ch_time sample_choices) 6" "fits (ch_date sample_choices) 4"
    "fits (ch_rrn sample_choices) 12" "target_port (ch_dialect sample_choices) = 8000"
    by (simp_all add: sample_choices_def fits_def target_port_def ascii_def valid_utf8_ascii)
  ultimately show ?thesis
    using simulated_request_understood [OF gen, of 5] gen
    by (auto simp: sample_choices_def)
qed

text \<open>
  The simulator's counters agree with its workers at every moment of a run, through any
  interleaving, cancellation and panics: the transactions generated are those completed, those
  held by a worker and the draws about to be given back; no more than the requested volume is
  claimed; \<open>in_flight\<close> is the number of workers inside an exchange or dead in one; and every
  completed transaction is, or is about to be, counted as exactly one of success, timeout and
  decline.
\<close>

theorem simulator_counters_consistent:
  assumes "max volume 1 + max concurrency 1 < 2 ^ 64"
    and "(sup worker_step disturbance)\<^sup>*\<^sup>* (started volume concurrency) st"
  shows "unat (generated st) = unat (completed st) + count_pcs busy st + count_pcs giving_back st \<and>
    unat (completed st) + count_pcs busy st \<le> max volume 1 \<and>
    unat (in_flight st) = count_pcs flying st \<and>
    unat (success st) + unat (timeouts st) + unat (declines st) + count_pcs tallying st = unat (completed st)"
proof -
  have "sim_counts st \<and> total_target st = total_target (started volume concurrency)"
    using assms(2)
  proof (induction rule: rtranclp_induct)
    case base
    then show ?case using started_counts(1) [OF assms(1)] by simp
  next
    case (step y z)
    then show ?case
      using worker_step_counts disturbance_counts worker_step_target disturbance_target
      by (metis sup2E)
  qed
  then have counts: "sim_counts st" and target: "max volume 1 = unat (total_target st)"
    using started_counts(4) [OF assms(1)] by simp_all
  show ?thesis unfolding target using counts by (simp add: sim_counts_def)
qed

theorem simulator_counters_consistent_witness:
  "unat (completed (started 3 2)) + count_pcs busy (started 3 2) \<le> 3"
  using simulator_counters_consistent [of 3 2 "started 3 2"] by simp

text \<open>
  C19. An undisturbed simulation ends and completes its volume. No infinite sequence of worker steps
  starts from a started simulator; and when no step is left, exactly the requested number of
  transactions has been completed, each counted once as success, timeout or decline, nothing is
  in flight and the run is marked as over.
\<close>

theorem simulation_completes:
  assumes "max volume 1 + max concurrency 1 < 2 ^ 64"
  shows "\<not> (\<exists>f. f 0 = started volume concurrency \<and> (\<forall>n. worker_step (f n) (f (Suc n)))) \<and>
    (\<forall>st. worker_step\<^sup>*\<^sup>* (started volume concurrency) st \<and> idle st \<longrightarrow>
      unat (completed st) = max volume 1 \<and> generated st = completed st \<and> in_flight st = 0 \<and>
      unat (success st) + unat (timeouts st) + unat (declines st) = max volume 1 \<and> \<not> sim_running st)"
proof (intro conjI allI impI)
  note start = started_counts [OF assms]
  show "\<not> (\<exists>f. f 0 = started volume concurrency \<and> (\<forall>n. worker_step (f n) (f (Suc n))))"
    using no_infinite_run start(1) by metis
  fix st
  assume run: "worker_step\<^sup>*\<^sup>* (started volume concurrency) st \<and> idle st"
  then have inv: "sim_counts st" "drained st" "no_dead st" "watched st" "unat (total_target st) = max volume 1"
    using run_invariant [OF _ start(1-3,5)] start(4) by metis+
  have "sim_workers st \<noteq> []" using run started_workers by blast
  note final = idle_counts [OF conjunct2 [OF run] inv(1-3) this inv(4)]
  show "unat (completed st) = max volume 1" "generated st = completed st" "in_flight st = 0"
    "unat (success st) + unat (timeouts st) + unat (declines st) = max volume 1" "\<not> sim_running st"
    using final inv(5) by simp_all
qed

theorem simulation_completes_witness:
  "\<not> (\<exists>f. f 0 = started 100 10 \<and> (\<forall>n. worker_step (f n) (f (Suc n))))"
  using simulation_completes [of 100 10] by simp

text \<open>A worker of a run with work left can claim it, send it and hold its outcome.\<close>

lemma one_exchange:
  assumes "at st i Loop" and "sim_running st" and "generated st < total_target st"
  shows "\<exists>r n. worker_step\<^sup>*\<^sup>* st
    (goto i (Leave r) (st\<lparr>generated := generated st + 1, in_flight := in_flight st + 1, stan_count := n\<rparr>))"
proof -
  let ?c = "\<lparr>ch_type = Happy_Path, ch_network = Visa, ch_mode = EMV, ch_dialect = D_Base24,
    ch_id = [], ch_rrn = [], ch_time = [], ch_date = []\<rparr>"
  let ?s2 = "goto i Claim st"
  let ?s3 = "goto i Enter (?s2\<lparr>generated := generated ?s2 + 1\<rparr>)"
  let ?s4 = "goto i Sending (?s3\<lparr>in_flight := in_flight ?s3 + 1\<rparr>)"
  obtain tx n where gen: "generate_transaction (\<lambda>_ _. 0) ?c (stan_count ?s4) = (tx, n)" by fastforce
  let ?r = "outcome_record ?c tx (egress_encode tx) (ascii ''68'') 20000 0"
  let ?s5 = "goto i (Leave ?r) (?s4\<lparr>stan_count := n\<rparr>)"
  have enc: "sim_encode (ch_dialect ?c) tx = Ok (egress_encode tx)"
    by (simp add: sim_encode_def router_simps egress_encode_ok)
  have late: "sim_response_code (ch_dialect ?c) None = Ok (ascii ''68'')" by (simp add: sim_response_code_def)
  have "worker_step st ?s2" using assms by (intro worker_step.go) simp_all
  moreover have "worker_step ?s2 ?s3" using assms by (intro worker_step.claim) (simp_all add: goto_def)
  moreover have "worker_step ?s3 ?s4" using assms by (intro worker_step.enter) (simp add: goto_def)
  moreover have "worker_step ?s4 ?s5" using assms by (intro worker_step.exchange [OF _ gen enc late]) (simp add: goto_def)
  ultimately have "worker_step\<^sup>*\<^sup>* st ?s5" by (meson converse_rtranclp_into_rtranclp rtranclp.rtrancl_refl)
  moreover have "?s5 = goto i (Leave ?r) (st\<lparr>generated := generated st + 1, in_flight := in_flight st + 1, stan_count := n\<rparr>)"
    by (simp add: goto_def)
  ultimately show ?thesis by metis
qed

lemma worker_run: "worker_step\<^sup>*\<^sup>* st st' \<Longrightarrow> sim_step\<^sup>*\<^sup>* st st'"
  by (rule rtranclp_mono [THEN predicate2D]) (auto intro: sim_step.worker)

text \<open>
  A restart can make the simulator report almost 2^64 transactions in flight. A worker that has
  its reply is not stopped by a cancellation; when the next run starts before it has counted itself
  out, \<open>start_sim\<close> resets \<open>in_flight\<close> to 0 and the old worker's decrement wraps.
\<close>

theorem restart_wraps_in_flight:
  "\<exists>st. sim_step\<^sup>*\<^sup>* sim_new st \<and> sim_running st \<and> unat (in_flight st) = 2 ^ 64 - 1"
proof -
  let ?s1 = "started 1 1"
  note defs = started_def start_sim_def sim_new_def goto_def cancel_sim_def Let_def
  have "\<exists>r n. worker_step\<^sup>*\<^sup>* ?s1
      (goto 0 (Leave r) (?s1\<lparr>generated := generated ?s1 + 1, in_flight := in_flight ?s1 + 1, stan_count := n\<rparr>))"
    by (rule one_exchange) (simp_all add: defs)
  then obtain r n where sent: "worker_step\<^sup>*\<^sup>* ?s1
      (goto 0 (Leave r) (?s1\<lparr>generated := generated ?s1 + 1, in_flight := in_flight ?s1 + 1, stan_count := n\<rparr>))"
    (is "(_)\<^sup>*\<^sup>* _ ?s5") by blast
  let ?s6 = "cancel_sim ?s5"
  let ?s7 = "snd (start_sim (Some 1) (Some 1) ?s6)"
  let ?s8 = "goto 0 (Complete r) (?s7\<lparr>in_flight := in_flight ?s7 - 1\<rparr>)"
  have "sim_step sim_new ?s1" unfolding started_def by (rule sim_step.start)
  moreover have "disturbance ?s5 ?s6" by (rule disturbance.cancel)
  moreover have "sim_step ?s6 ?s7" by (rule sim_step.start)
  moreover have "worker_step ?s7 ?s8" by (rule worker_step.leave) (simp add: defs)
  ultimately have "sim_step\<^sup>*\<^sup>* sim_new ?s8"
    using worker_run [OF sent] sim_step.worker sim_step.disturbed
    by (meson converse_rtranclp_into_rtranclp rtranclp.rtrancl_into_rtrancl)
  moreover have "sim_running ?s8" and "in_flight ?s8 = - 1" by (simp_all add: defs)
  moreover have "unat (- 1 :: u64) = 2 ^ 64 - 1"
    by (simp add: unsigned_minus_1_eq_mask mask_eq_exp_minus_1)
  ultimately show ?thesis by metis
qed

text \<open>
  A run can be ended by the monitor of an earlier one. The monitor of a cancelled run, asleep when
  the next one starts, wakes to find \<open>running\<close> set and compares the new run's completions with the
  volume of its own start: it ends a run that nobody has cancelled before its volume is completed.
\<close>

theorem stale_monitor_ends_run:
  "\<exists>st st'. sim_step\<^sup>*\<^sup>* (snd (start_sim (Some 2) (Some 1) (cancel_sim (started 1 1)))) st \<and> worker_step st st' \<and>
    sim_running st \<and> \<not> sim_running st' \<and> completed st' < total_target st'"
proof -
  let ?s = "snd (start_sim (Some 2) (Some 1) (cancel_sim (started 1 1)))"
  note defs = started_def start_sim_def sim_new_def goto_def cancel_sim_def Let_def
  have "\<exists>r n. worker_step\<^sup>*\<^sup>* ?s
      (goto 1 (Leave r) (?s\<lparr>generated := generated ?s + 1, in_flight := in_flight ?s + 1, stan_count := n\<rparr>))"
    by (rule one_exchange) (simp_all add: defs)
  then obtain r n where sent: "worker_step\<^sup>*\<^sup>* ?s
      (goto 1 (Leave r) (?s\<lparr>generated := generated ?s + 1, in_flight := in_flight ?s + 1, stan_count := n\<rparr>))"
    (is "(_)\<^sup>*\<^sup>* _ ?s1") by blast
  let ?s2 = "goto 1 (Complete r) (?s1\<lparr>in_flight := in_flight ?s1 - 1\<rparr>)"
  let ?s3 = "goto 1 (Tally r (completed ?s2 + 1)) (?s2\<lparr>completed := completed ?s2 + 1\<rparr>)"
  let ?s4 = "?s3\<lparr>sim_running := False, monitors := [] @ [2]\<rparr>"
  have "worker_step ?s1 ?s2" by (rule worker_step.leave) (simp add: defs)
  moreover have "worker_step ?s2 ?s3" by (rule worker_step.complete) (simp add: defs)
  ultimately have "sim_step\<^sup>*\<^sup>* ?s ?s3"
    using worker_run [OF sent] sim_step.worker by (meson rtranclp.rtrancl_into_rtrancl)
  moreover have "worker_step ?s3 ?s4" by (rule worker_step.finish [where v = 1]) (simp_all add: defs)
  moreover have "sim_running ?s3" "\<not> sim_running ?s4" "completed ?s4 < total_target ?s4" by (simp_all add: defs)
  ultimately show ?thesis by metis
qed

end
