(* ===== verification/Orchestrator.thy ===== *)
theory Orchestrator
  imports Edge Standard_Dialect "HOL-Library.Sublist"
begin

text \<open>
  The test orchestrator (\<open>test-orchestrator/src/main.rs\<close>): the table of processes it has
  started, the messages it injects, its log and the viewers that follow the log over web sockets.
  Whether a process can be spawned or killed, whether a connection succeeds and what the operating
  system lists are inputs; the hex decoder (crate \<open>hex\<close>) is a parameter, as is the capacity of the
  broadcast channel, which tokio may round up from the 1000 lines asked for. \<open>orch_step\<close>
  interleaves requests, output of the children and the viewers' tasks.
\<close>

section \<open>Definitions\<close>

datatype orch_status =
    Orch_Ok | Orch_Created | Already_Reported | Orch_Server_Error | Bad_Request | Service_Unavailable | Orch_Not_Found

text \<open>A viewer: its position in the log, what it has been sent, and whether its task still runs.\<close>

record viewer =
  cursor :: nat
  shown :: "rstring list"
  following :: bool

text \<open>\<open>piped\<close> has the services whose output is copied to the log.\<close>

record orchestrator =
  processes :: "rstring set"
  piped :: "rstring list"
  sim_starts :: "(nat \<times> nat) list"
  injected :: "(nat \<times> bytes) list"
  log_tx :: "rstring list"
  viewers :: "viewer list"

definition orchestrator_new :: orchestrator where
  "orchestrator_new = \<lparr> processes = {}, piped = [], sim_starts = [], injected = [], log_tx = [], viewers = [] \<rparr>"

definition send_log :: "rstring \<Rightarrow> orchestrator \<Rightarrow> orchestrator" where
  "send_log line st = st\<lparr>log_tx := log_tx st @ [line]\<rparr>"

definition start_process :: "bool \<Rightarrow> rstring \<Rightarrow> orchestrator \<Rightarrow> orch_status \<times> orchestrator" where
  "start_process spawned service_name st =
     (if service_name \<in> processes st then (Already_Reported, st)
      else if \<not> spawned then (Orch_Server_Error, st)
      else (Orch_Created, st\<lparr>processes := insert service_name (processes st), piped := piped st @ [service_name]\<rparr>))"

text \<open>A line of a child's standard output or standard error.\<close>

definition child_line :: "bool \<Rightarrow> rstring \<Rightarrow> rstring \<Rightarrow> orchestrator \<Rightarrow> orchestrator" where
  "child_line out svc line st =
     send_log (ascii ''['' @ svc @ (if out then ascii ''] [OUT] '' else ascii ''] [ERR] '') @ line) st"

text \<open>\<open>taskkill\<close> is the success of the system's command, \<open>None\<close> when it could not be run.\<close>

definition kill_process :: "bool option \<Rightarrow> rstring \<Rightarrow> orchestrator \<Rightarrow> orch_status \<times> orchestrator" where
  "kill_process taskkill service_name st =
     (let exe_name = service_name @ ascii ''.exe'';
          st1 = send_log (ascii ''['' @ service_name @ ascii ''] Received manual chaos target kill request...'') st;
          st2 = send_log (ascii ''['' @ service_name @ ascii ''] Firing native taskkill /F /IM '' @ exe_name @ ascii '' ...'') st1;
          st3 = send_log (ascii ''['' @ service_name @
            (case taskkill of
               Some True \<Rightarrow> ascii '' KILL] SUCCESS: The OS actively severed the process.''
             | Some False \<Rightarrow> ascii '' KILL] WARNING: The OS reported process not found or no rights.''
             | None \<Rightarrow> ascii '' KILL] ERROR: Failed to invoke host taskkill utility.'')) st2
      in (Orch_Ok, st3\<lparr>processes := processes st3 - {service_name}\<rparr>))"

text \<open>A length prefix and the payload, to the given port or to the standard one.\<close>

definition inject_raw ::
  "(rstring \<Rightarrow> bytes option) \<Rightarrow> bool \<Rightarrow> rstring \<Rightarrow> nat option \<Rightarrow> orchestrator \<Rightarrow> orch_status \<times> orchestrator" where
  "inject_raw hex_decode sent hex port st =
     (case hex_decode hex of
        None \<Rightarrow> (Bad_Request, st)
      | Some payload_bytes \<Rightarrow>
          let buf = length_prefixed payload_bytes;
              target = (case port of Some p \<Rightarrow> p | None \<Rightarrow> 8000)
          in if sent then (Orch_Ok, st\<lparr>injected := injected st @ [(target, buf)]\<rparr>)
             else (Service_Unavailable, st))"

text \<open>
  The status of the three services: whether the system's task list names their executable.
  \<open>tasklist\<close> is the command's output for an image name, \<open>None\<close> when it could not be run.
\<close>

datatype service_status = Killed | Running

definition get_status :: "(rstring \<Rightarrow> bytes option) \<Rightarrow> (rstring \<times> service_status) list" where
  "get_status tasklist = map (\<lambda>target.
     let exe_name = target @ ascii ''.exe'' in
     (target, case tasklist exe_name of
        Some out \<Rightarrow> if sublist exe_name (from_utf8_lossy out) then Running else Killed
      | None \<Rightarrow> Killed)) [ascii ''mock-bank-node'', ascii ''payment-daemon'', ascii ''mock_hsm'']"

text \<open>A new viewer sees the lines sent from now on.\<close>

definition ws_handler :: "orchestrator \<Rightarrow> orchestrator" where
  "ws_handler st = st\<lparr>viewers := viewers st @ [\<lparr>cursor = length (log_tx st), shown = [], following = True\<rparr>]\<rparr>"

text \<open>
  One turn of a viewer's loop. A receiver that is more than \<open>cap\<close> lines behind gets an error instead
  of a line; that error, like a failed write, ends the loop.
\<close>

definition handle_socket :: "nat \<Rightarrow> bool \<Rightarrow> rstring list \<Rightarrow> viewer \<Rightarrow> viewer" where
  "handle_socket cap written log v =
     (if \<not> following v \<or> length log \<le> cursor v then v
      else if cursor v + cap < length log then v\<lparr>following := False\<rparr>
      else if written then v\<lparr>cursor := cursor v + 1, shown := shown v @ [log ! cursor v]\<rparr>
      else v\<lparr>following := False\<rparr>)"

definition bad_payload :: bytes where
  "bad_payload = [0x00, 0x05] @ ascii ''XXXXX''"

text \<open>The four scenarios. The spawned tasks of the first and the last succeed when \<open>sent\<close>.\<close>

definition run_scenario ::
  "bool \<Rightarrow> rstring \<Rightarrow> nat option \<Rightarrow> nat option \<Rightarrow> orchestrator \<Rightarrow> orch_status \<times> orchestrator" where
  "run_scenario sent scenario volume concurrency st0 =
     (let st = send_log (ascii ''[SCENARIO] Triggering Scenario '' @ scenario @ ascii ''...'') st0 in
      if scenario = ascii ''1'' then
        let vol = (case volume of Some v \<Rightarrow> v | None \<Rightarrow> 10000);
            conc = (case concurrency of Some c \<Rightarrow> c | None \<Rightarrow> 20);
            st1 = send_log (ascii ''[SCENARIO 1] Baseline Stress Test: Spawning '' @ digits vol
              @ ascii '' TPS Baseline via Fast-Load Generator on '' @ digits conc @ ascii '' threads!'') st
        in (Orch_Ok, if sent then st1\<lparr>sim_starts := sim_starts st1 @ [(vol, conc)]\<rparr> else st1)
      else if scenario = ascii ''2'' then
        (Orch_Ok,
         if ascii ''mock-bank-node'' \<in> processes st
         then send_log (ascii ''[SCENARIO 2] Egress Blackout: mock-bank-node forcefully terminated!'')
                (st\<lparr>processes := processes st - {ascii ''mock-bank-node''}\<rparr>)
         else send_log (ascii ''[SCENARIO 2] Egress Blackout: mock-bank-node is not running'') st)
      else if scenario = ascii ''3'' then
        (Orch_Ok, send_log (ascii ''[SCENARIO 3] HSM Latency Trap: Not implemented dynamically for this iteration.'') st)
      else if scenario = ascii ''4'' then
        let st1 = send_log (ascii ''[SCENARIO 4] Poison Pill: Emitting corrupted ISO-8583 MTI byte-sequence!'') st
        in (Orch_Ok, if sent then st1\<lparr>injected := injected st1 @ [(8000, bad_payload)]\<rparr> else st1)
      else (Orch_Not_Found, st))"

text \<open>Everything that can happen to the orchestrator.\<close>

inductive orch_step :: "(rstring \<Rightarrow> bytes option) \<Rightarrow> nat \<Rightarrow> orchestrator \<Rightarrow> orchestrator \<Rightarrow> bool" for hex_decode cap where
  start_request: "orch_step hex_decode cap st (snd (start_process spawned svc st))"
| kill_request: "orch_step hex_decode cap st (snd (kill_process taskkill svc st))"
| inject_request: "orch_step hex_decode cap st (snd (inject_raw hex_decode sent hex port st))"
| scenario_request: "orch_step hex_decode cap st (snd (run_scenario sent scenario volume concurrency st))"
| child_output: "svc \<in> set (piped st) \<Longrightarrow> orch_step hex_decode cap st (child_line out svc line st)"
| view: "orch_step hex_decode cap st (ws_handler st)"
| turn: "i < length (viewers st) \<Longrightarrow> orch_step hex_decode cap st
    (st\<lparr>viewers := (viewers st)[i := handle_socket cap written (log_tx st) (viewers st ! i)]\<rparr>)"

inductive_cases orch_stepE: "orch_step hex_decode cap st st'"

section \<open>The log and its viewers\<close>

lemma send_log_fields [simp]:
  "log_tx (send_log line st) = log_tx st @ [line]" "viewers (send_log line st) = viewers st"
  "processes (send_log line st) = processes st" "piped (send_log line st) = piped st"
  "injected (send_log line st) = injected st" "sim_starts (send_log line st) = sim_starts st"
  by (simp_all add: send_log_def)

text \<open>A viewer in step with the log has been sent the lines from where it joined up to its position.\<close>

definition in_step :: "rstring list \<Rightarrow> viewer \<Rightarrow> bool" where
  "in_step log v \<longleftrightarrow> (\<exists>before. prefix (before @ shown v) log \<and> length (before @ shown v) = cursor v)"

definition viewers_in_step :: "orchestrator \<Rightarrow> bool" where
  "viewers_in_step st \<longleftrightarrow> list_all (in_step (log_tx st)) (viewers st)"

lemma in_step_grows: "in_step log v \<Longrightarrow> in_step (log @ lines) v"
  unfolding in_step_def using prefix_prefix by blast

lemma in_step_turn:
  assumes "in_step log v"
  shows "in_step log (handle_socket cap written log v)"
proof (cases "cursor v < length log \<and> following v \<and> \<not> cursor v + cap < length log \<and> written")
  case True
  from assms obtain before rest where "log = before @ shown v @ rest" "length (before @ shown v) = cursor v"
    by (auto simp: in_step_def prefix_def)
  with True have "rest \<noteq> []" by auto
  with \<open>log = _\<close> \<open>length _ = _\<close> have "log ! cursor v = hd rest"
    by (metis append.assoc hd_append2 hd_conv_nth nth_append_length_plus add_0_right append_is_Nil_conv)
  with \<open>log = _\<close> \<open>rest \<noteq> []\<close> have "prefix (before @ shown v @ [log ! cursor v]) log"
    by (cases rest) auto
  then show ?thesis
    using True \<open>length _ = _\<close> by (auto simp: in_step_def handle_socket_def intro!: exI [of _ before])
next
  case False
  then show ?thesis using assms by (auto simp: handle_socket_def in_step_def)
qed

text \<open>No request takes lines out of the log or touches a viewer.\<close>

lemma requests_keep_viewers:
  "viewers (snd (start_process spawned svc st)) = viewers st \<and> prefix (log_tx st) (log_tx (snd (start_process spawned svc st)))"
  "viewers (snd (kill_process taskkill svc st)) = viewers st \<and> prefix (log_tx st) (log_tx (snd (kill_process taskkill svc st)))"
  "viewers (snd (inject_raw dec sent hex port st)) = viewers st \<and> prefix (log_tx st) (log_tx (snd (inject_raw dec sent hex port st)))"
  "viewers (snd (run_scenario sent scn vol con st)) = viewers st \<and> prefix (log_tx st) (log_tx (snd (run_scenario sent scn vol con st)))"
  "viewers (child_line out svc line st) = viewers st \<and> prefix (log_tx st) (log_tx (child_line out svc line st))"
  by (auto simp: start_process_def kill_process_def inject_raw_def run_scenario_def child_line_def Let_def
      split: option.splits)

lemma in_step_prefix: "prefix log log' \<Longrightarrow> in_step log v \<Longrightarrow> in_step log' v"
  by (metis in_step_grows prefix_def)

lemma viewers_in_step_grow:
  "viewers st' = viewers st \<and> prefix (log_tx st) (log_tx st') \<Longrightarrow> viewers_in_step st \<Longrightarrow> viewers_in_step st'"
  by (auto simp: viewers_in_step_def list_all_iff intro: in_step_prefix)

lemmas requests_in_step = requests_keep_viewers [THEN viewers_in_step_grow]

lemma viewers_in_step_new: "viewers_in_step orchestrator_new"
  by (simp add: viewers_in_step_def orchestrator_new_def)

lemma viewers_in_step_step:
  assumes "orch_step hex_decode cap st st'" and "viewers_in_step st"
  shows "viewers_in_step st'"
  using assms(1)
proof (rule orch_stepE)
  assume "st' = ws_handler st"
  then show ?thesis
    using assms(2) by (auto simp: viewers_in_step_def ws_handler_def in_step_def intro!: exI [of _ "log_tx st"])
next
  fix i written
  assume "st' = st\<lparr>viewers := (viewers st)[i := handle_socket cap written (log_tx st) (viewers st ! i)]\<rparr>"
    and "i < length (viewers st)"
  then show ?thesis
    using assms(2) by (auto simp: viewers_in_step_def list_all_length nth_list_update in_step_turn)
qed (use assms(2) in \<open>auto intro: requests_in_step\<close>)

text \<open>
  Every viewer of a running orchestrator has been shown a contiguous part of the log, in order and
  without repetition, however requests, children and viewers interleave.
\<close>

theorem viewers_see_the_log:
  assumes "(orch_step hex_decode cap)\<^sup>*\<^sup>* orchestrator_new st" and "v \<in> set (viewers st)"
  shows "sublist (shown v) (log_tx st)"
proof -
  have "viewers_in_step st"
    using assms(1)
    by (induction rule: rtranclp_induct) (auto intro: viewers_in_step_new viewers_in_step_step)
  then have "in_step (log_tx st) v" using assms(2) by (simp add: viewers_in_step_def list_all_iff)
  then show ?thesis by (auto simp: in_step_def prefix_def sublist_def)
qed

text \<open>
  A viewer that falls behind by more than the channel's capacity is not resumed at the oldest line
  still held: its task ends at the next turn, and it is shown nothing any more, although its
  connection works.
\<close>

theorem lagging_viewer_dropped:
  assumes "following v" and "cursor v + cap < length log"
  shows "handle_socket cap True log v = v\<lparr>following := False\<rparr> \<and>
    handle_socket cap True (log @ lines) (handle_socket cap True log v) = handle_socket cap True log v"
  using assms by (simp add: handle_socket_def)

section \<open>The process table\<close>

text \<open>
  A service in the table cannot be started again, whether its process still runs or not; only a kill
  request, whatever the system makes of it, takes it out.
\<close>

lemma restart_needs_kill:
  assumes "svc \<in> processes st"
  shows "start_process True svc st = (Already_Reported, st)"
    and "fst (start_process True svc (snd (kill_process taskkill svc st))) = Orch_Created"
  using assms by (simp_all add: start_process_def kill_process_def Let_def)

text \<open>Without the system's task list every service is reported killed, also one in the table.\<close>

lemma status_without_tasklist: "\<forall>(svc, s) \<in> set (get_status (\<lambda>_. None)). s = Killed"
  by (simp add: get_status_def)

lemma status_of_listed:
  assumes "tasklist (svc @ ascii ''.exe'') = Some (from @ svc @ ascii ''.exe'' @ to)"
    and "valid_utf8 (from @ svc @ ascii ''.exe'' @ to)"
    and "svc \<in> {ascii ''mock-bank-node'', ascii ''payment-daemon'', ascii ''mock_hsm''}"
  shows "map_of (get_status tasklist) svc = Some Running"
proof -
  have "sublist (svc @ ascii ''.exe'') (from_utf8_lossy (from @ svc @ ascii ''.exe'' @ to))"
    using assms(2) by (auto simp: sublist_def)
  with assms(1,3) show ?thesis
    by (simp add: get_status_def map_of_map_restrict Let_def del: list.map)
qed

section \<open>The injected messages\<close>

text \<open>An injected payload of up to 65535 bytes is one frame of the ingress codec.\<close>

lemma injected_frame:
  assumes "hex_decode hex = Some p" and "length p < 65536"
  shows "\<exists>buf. inject_raw hex_decode True hex port st
      = (Orch_Ok, st\<lparr>injected := injected st @ [(case port of Some q \<Rightarrow> q | None \<Rightarrow> 8000, buf)]\<rparr>) \<and>
    iso8583_decode buf = Ok (Some p, [])"
  using assms decode_length_prefixed [of p]
  by (intro exI [of _ "length_prefixed p"]) (simp add: inject_raw_def Let_def)

text \<open>
  The corrupted message of scenario 4 is one frame that the standard dialect refuses for its
  length: the ingress server drops it and no context reaches the engine.
\<close>

lemma poison_pill_dropped:
  "injected (snd (run_scenario True (ascii ''4'') v c st)) = injected st @ [(8000, bad_payload)] \<and>
    iso8583_decode bad_payload = Ok (Some (ascii ''XXXXX''), []) \<and>
    server_receive standard_parse (ascii ''XXXXX'') r = Ok None"
proof -
  have "iso8583_decode bad_payload = Ok (Some (ascii ''XXXXX''), [])"
    by (simp add: iso8583_decode_def bad_payload_def ascii_def from_be_bytes_def)
  moreover have "standard_parse (ascii ''XXXXX'') = Err LengthError"
    by (simp add: standard_parse_eq ascii_def)
  moreover have "ascii ''4'' \<notin> {ascii ''1'', ascii ''2'', ascii ''3''}" by (simp add: ascii_def)
  ultimately show ?thesis by (simp add: run_scenario_def server_receive_def)
qed

end
