(* ===== verification/Outbound_Fields.thy ===== *)
theory Outbound_Fields
  imports Iso_Fields
begin

text \<open>
  The second copy of the field helpers, in \<open>iso-dialect/src/lib.rs\<close>, which the outbound dialects use:
  bitmaps of eight bytes only, readers that advance an offset, writers that append to a buffer. It
  agrees with the copy of \<open>Iso_Fields\<close>, so that the dialects are modelled over one set of helpers.
\<close>

section \<open>Definitions\<close>

definition outbound_set_bit :: "bytes \<Rightarrow> nat \<Rightarrow> bytes" where
  "outbound_set_bit bitmap field =
     (if field < 1 \<or> field > 64 then bitmap
      else let byte_index = (field - 1) div 8; bit_index = (field - 1) mod 8
           in bitmap[byte_index := bitmap ! byte_index OR drop_bit bit_index 0x80])"

definition outbound_is_bit_set :: "bytes \<Rightarrow> nat \<Rightarrow> bool parsed" where
  "outbound_is_bit_set bitmap field =
     (if field < 1 \<or> field > 64 then Ok False
      else let byte_index = (field - 1) div 8; bit_index = (field - 1) mod 8
           in bindo (byte_at bitmap byte_index) (\<lambda>b. Ok (b AND drop_bit bit_index 0x80 \<noteq> 0)))"

definition outbound_read_fixed :: "bytes \<Rightarrow> nat \<Rightarrow> nat \<Rightarrow> (bytes \<times> nat) parsed" where
  "outbound_read_fixed data offset len =
     (if offset + len > length data then Err LengthError
      else bindo (byte_slice data offset (offset + len)) (\<lambda>val. Ok (val, offset + len)))"

definition outbound_read_llvar :: "bytes \<Rightarrow> nat \<Rightarrow> (bytes \<times> nat) parsed" where
  "outbound_read_llvar data offset =
     bindo (outbound_read_fixed data offset 2) (\<lambda>(len_str, offset).
       if \<not> valid_utf8 len_str then Err InvalidFormat
       else case parse_usize len_str of
         None \<Rightarrow> Err InvalidFormat
       | Some len \<Rightarrow> outbound_read_fixed data offset len)"

definition outbound_read_lllvar :: "bytes \<Rightarrow> nat \<Rightarrow> (bytes \<times> nat) parsed" where
  "outbound_read_lllvar data offset =
     bindo (outbound_read_fixed data offset 3) (\<lambda>(len_str, offset).
       if \<not> valid_utf8 len_str then Err InvalidFormat
       else case parse_usize len_str of
         None \<Rightarrow> Err InvalidFormat
       | Some len \<Rightarrow> outbound_read_fixed data offset len)"

definition outbound_write_fixed :: "bytes \<Rightarrow> bytes \<Rightarrow> nat \<Rightarrow> u8 \<Rightarrow> bool \<Rightarrow> bytes" where
  "outbound_write_fixed buf val len pad_char pad_right =
     (if length val \<ge> len then buf @ take len val
      else let padding = len - length val in
        if pad_right then (buf @ val) @ replicate padding pad_char
        else (buf @ replicate padding pad_char) @ val)"

definition outbound_write_llvar :: "bytes \<Rightarrow> bytes \<Rightarrow> bytes" where
  "outbound_write_llvar buf val =
     (if length val > 99 then buf else (buf @ format_padded 2 (length val)) @ val)"

definition outbound_write_lllvar :: "bytes \<Rightarrow> bytes \<Rightarrow> bytes" where
  "outbound_write_lllvar buf val =
     (if length val > 999 then buf else (buf @ format_padded 3 (length val)) @ val)"

section \<open>Agreement\<close>

text \<open>
  The two copies of the field helpers agree: on bitmaps of eight bytes, and on every message,
  offset and value, the outbound crate's helpers mark, read and write fields as those of the ingress
  dialects do.
\<close>

lemma outbound_bits:
  "length bm = 8 \<Longrightarrow> outbound_set_bit bm field = set_bit bm field"
  "length bm = 8 \<Longrightarrow> outbound_is_bit_set bm field = is_bit_set bm field"
  by (simp_all add: outbound_set_bit_def set_bit_def outbound_is_bit_set_def is_bit_set_def)

lemma outbound_read_fixed: "outbound_read_fixed = read_fixed"
  by (simp add: fun_eq_iff outbound_read_fixed_def read_fixed_def)

lemma outbound_readers:
  "outbound_read_llvar = read_llvar" "outbound_read_lllvar = read_lllvar"
  unfolding fun_eq_iff outbound_read_llvar_def outbound_read_lllvar_def read_llvar_def read_lllvar_def
    read_var_def outbound_read_fixed by simp_all

lemma outbound_writers:
  "outbound_write_fixed buf val len pad right = buf @ write_fixed val len pad right"
  "outbound_write_llvar buf val = buf @ write_llvar val"
  "outbound_write_lllvar buf val = buf @ write_lllvar val"
  by (simp_all add: outbound_write_fixed_def write_fixed_def outbound_write_llvar_def write_llvar_def
      outbound_write_lllvar_def write_lllvar_def Let_def)

text \<open>So the outbound encoder's conditional write of a field is the shared one.\<close>

lemma outbound_put_field:
  "length bm = 8 \<Longrightarrow> put_field (bm, buf) (present, field, write_fixed val len pad right) =
    (if present then (outbound_set_bit bm field, outbound_write_fixed buf val len pad right) else (bm, buf))"
  by (simp add: outbound_bits outbound_writers)

end
