(* ===== verification/Telemetry.thy ===== *)
theory Telemetry
  imports Rust_Std "HOL-Library.Sublist"
begin

text \<open>
  The event log of \<open>switch-core/src/telemetry.rs\<close>: a bounded channel between the workers, which
  never wait for it, and one thread that prints. An event that finds the channel full is dropped
  and reported on the error output. Printing is a list of lines.
\<close>

section \<open>Events and their lines\<close>

datatype telemetry_event =
    EngineStarted (started_workers: nat)
  | TransactionReceived (received_rrn: rstring) (received_stan: rstring) (received_acquirer_id: rstring)
  | DuplicateDetected (duplicate_key: rstring)
  | Journaled (journaled_rrn: rstring) (journaled_size_bytes: nat)
  | RoutingFailed (failed_rrn: rstring)
  | Routed (routed_rrn: rstring)
  | LateBankReplyDropped (late_rrn: rstring)
  | StipFallbackAuthorized (authorized_rrn: rstring) (authorized_amount: u64)
  | StipFallbackDeclined (declined_rrn: rstring) (declined_reason: rstring)

fun telemetry_line :: "telemetry_event \<Rightarrow> rstring" where
  "telemetry_line (EngineStarted workers) =
     ascii ''[INFO] SEDA Engine started with '' @ digits workers @ ascii '' MPMC workers''"
| "telemetry_line (TransactionReceived rrn stan acquirer_id) =
     ascii ''[DEBUG] Received Tx -> RRN: '' @ rrn @ ascii '' STAN: '' @ stan @ ascii '' Acquirer: '' @ acquirer_id"
| "telemetry_line (DuplicateDetected key) =
     ascii ''[WARN] Idempotency Guard BLOCKED duplicate: '' @ key"
| "telemetry_line (Journaled rrn size_bytes) =
     ascii ''[INFO] Journaled RRN: '' @ rrn @ ascii '' ('' @ digits size_bytes @ ascii '' bytes)''"
| "telemetry_line (RoutingFailed rrn) =
     ascii ''[ERROR] Egress bounds full, dropped RRN: '' @ rrn"
| "telemetry_line (Routed rrn) = ascii ''[INFO] Routed Tx -> RRN: '' @ rrn"
| "telemetry_line (LateBankReplyDropped rrn) =
     ascii ''[WARN] Phantom Approval Reversed & Dropped! RRN: '' @ rrn"
| "telemetry_line (StipFallbackAuthorized rrn amount) =
     ascii ''[STIP] Offline Fallback AUTHORIZED: RRN: '' @ rrn @ ascii '' | Confirmed: $'' @ digits (unat amount)"
| "telemetry_line (StipFallbackDeclined rrn reason) =
     ascii ''[STIP] Offline Fallback DECLINED: RRN: '' @ rrn @ ascii '' | Reason: '' @ reason"

section \<open>The logger\<close>

record telemetry_logger =
  log_queue :: "telemetry_event list"
  log_capacity :: nat
  printed :: "rstring list"
  log_refused :: nat

definition logger_new :: telemetry_logger where
  "logger_new = \<lparr>log_queue = [], log_capacity = 100000, printed = [], log_refused = 0\<rparr>"

definition telemetry_log :: "telemetry_event \<Rightarrow> telemetry_logger \<Rightarrow> telemetry_logger" where
  "telemetry_log e l =
     (if length (log_queue l) < log_capacity l then l\<lparr>log_queue := log_queue l @ [e]\<rparr>
      else l\<lparr>log_refused := log_refused l + 1\<rparr>)"

text \<open>One turn of the printing thread; with nothing queued it waits.\<close>

definition telemetry_print :: "telemetry_logger \<Rightarrow> telemetry_logger" where
  "telemetry_print l =
     (case log_queue l of
        [] \<Rightarrow> l
      | e # es \<Rightarrow> l\<lparr>log_queue := es, printed := printed l @ [telemetry_line e]\<rparr>)"

datatype logger_action = Log telemetry_event | Print

fun logger_step :: "telemetry_logger \<Rightarrow> logger_action \<Rightarrow> telemetry_logger" where
  "logger_step l (Log e) = telemetry_log e l"
| "logger_step l Print = telemetry_print l"

definition logger_run :: "logger_action list \<Rightarrow> telemetry_logger \<Rightarrow> telemetry_logger" where
  "logger_run acts l = foldl logger_step l acts"

section \<open>Order and accounting\<close>

definition logged :: "logger_action list \<Rightarrow> telemetry_event list" where
  "logged acts = List.map_filter (\<lambda>a. case a of Log e \<Rightarrow> Some e | Print \<Rightarrow> None) acts"

definition shown :: "telemetry_logger \<Rightarrow> rstring list" where
  "shown l = printed l @ map telemetry_line (log_queue l)"

lemma logged_simps [simp]:
  "logged [] = []" "logged (Log e # acts) = e # logged acts" "logged (Print # acts) = logged acts"
  by (simp_all add: logged_def map_filter_simps)

lemma logger_run_simps [simp]:
  "logger_run [] l = l" "logger_run (a # acts) l = logger_run acts (logger_step l a)"
  by (simp_all add: logger_run_def)

lemma shown_print [simp]:
  "shown (telemetry_print l) = shown l" "log_refused (telemetry_print l) = log_refused l"
  "log_capacity (telemetry_print l) = log_capacity l"
  "length (log_queue l) \<le> log_capacity l \<Longrightarrow> length (log_queue (telemetry_print l)) \<le> log_capacity l"
  by (auto simp: shown_def telemetry_print_def split: list.splits)

lemma shown_log:
  "telemetry_log e l = (if length (log_queue l) < log_capacity l then l\<lparr>log_queue := log_queue l @ [e]\<rparr>
      else l\<lparr>log_refused := log_refused l + 1\<rparr>)"
  "shown (l\<lparr>log_queue := log_queue l @ [e]\<rparr>) = shown l @ [telemetry_line e]"
  "shown (l\<lparr>log_refused := n\<rparr>) = shown l"
  by (simp_all add: shown_def telemetry_log_def)

text \<open>
  Whatever the interleaving of workers and printer, what is printed or waiting continues what was
  there by a subsequence of the logged events in their order, the rest are counted as refused, and
  the queue stays within its bound.
\<close>

lemma logger_accounting:
  assumes "length (log_queue l) \<le> log_capacity l"
  shows "\<exists>es. subseq es (logged acts) \<and> shown (logger_run acts l) = shown l @ map telemetry_line es
    \<and> log_refused (logger_run acts l) + length es = log_refused l + length (logged acts)
    \<and> length (log_queue (logger_run acts l)) \<le> log_capacity l"
  using assms
proof (induction acts arbitrary: l)
  case (Cons a acts)
  show ?case
  proof (cases a)
    case Print
    have "length (log_queue (telemetry_print l)) \<le> log_capacity (telemetry_print l)"
      using Cons.prems by simp
    from Cons.IH [OF this] Print show ?thesis by simp
  next
    case (Log e)
    let ?l = "telemetry_log e l"
    have "length (log_queue ?l) \<le> log_capacity ?l"
      using Cons.prems by (simp add: telemetry_log_def)
    from Cons.IH [OF this] obtain es where es: "subseq es (logged acts)"
      "shown (logger_run acts ?l) = shown ?l @ map telemetry_line es"
      "log_refused (logger_run acts ?l) + length es = log_refused ?l + length (logged acts)"
      "length (log_queue (logger_run acts ?l)) \<le> log_capacity ?l" by blast
    show ?thesis
    proof (cases "length (log_queue l) < log_capacity l")
      case True
      then have "shown ?l = shown l @ [telemetry_line e]" "log_refused ?l = log_refused l"
        "log_capacity ?l = log_capacity l" by (simp_all add: shown_log)
      with es Log show ?thesis by (intro exI [of _ "e # es"]) auto
    next
      case False
      then have "shown ?l = shown l" "log_refused ?l = log_refused l + 1"
        "log_capacity ?l = log_capacity l" by (simp_all add: shown_log)
      with es Log show ?thesis by (intro exI [of _ es]) auto
    qed
  qed
qed simp

text \<open>With the printer keeping up, nothing is lost: every event of the run is printed or queued.\<close>

lemma logger_complete:
  assumes "length (log_queue l) + length (logged acts) \<le> log_capacity l"
  shows "shown (logger_run acts l) = shown l @ map telemetry_line (logged acts)"
  using assms
proof (induction acts arbitrary: l)
  case (Cons a acts)
  then show ?case
  proof (cases a)
    case Print
    have "length (log_queue (telemetry_print l)) \<le> length (log_queue l)"
      by (simp add: telemetry_print_def split: list.splits)
    with Cons Print show ?thesis by simp
  qed (simp add: shown_log)
qed simp

end
