(* ===== verification/Runs.thy ===== *)
theory Runs
  imports Main
begin

text \<open>
  Step relations and their runs, independent of the program. Two contracts: \<open>unless_step\<close>, a
  condition that every step keeps unless a goal is reached, with what it gives for infinite runs in
  which a helpful step is taken; and \<open>simulation\<close>, a detailed step relation that an abstract one
  follows, with what it gives for reachable states.
\<close>

text \<open>An infinite sequence of steps.\<close>

definition run_of :: "('s \<Rightarrow> 's \<Rightarrow> bool) \<Rightarrow> (nat \<Rightarrow> 's) \<Rightarrow> bool" where
  "run_of step f \<longleftrightarrow> (\<forall>n. step (f n) (f (Suc n)))"

lemma run_of_step: "run_of step f \<Longrightarrow> step (f n) (f (Suc n))"
  by (simp add: run_of_def)

lemma run_of_reaches: "run_of step f \<Longrightarrow> n \<le> m \<Longrightarrow> step\<^sup>*\<^sup>* (f n) (f m)"
  by (induction m rule: nat_induct) (auto simp: run_of_def le_Suc_eq intro: rtranclp.rtrancl_into_rtrancl)

text \<open>A quantity that no step decreases, and one that no step changes.\<close>

lemma run_of_mono:
  fixes v :: "'s \<Rightarrow> 'a :: order"
  assumes "run_of step f" and "\<And>s s'. step s s' \<Longrightarrow> v s \<le> v s'"
  shows "n \<le> m \<Longrightarrow> v (f n) \<le> v (f m)"
  by (rule lift_Suc_mono_le [of "\<lambda>n. v (f n)"]) (use assms in \<open>auto simp: run_of_def\<close>)

lemma run_of_const:
  assumes "run_of step f" and "\<And>s s'. step s s' \<Longrightarrow> v s' = v s"
  shows "v (f n) = v (f 0)"
  by (induction n) (simp, metis assms run_of_step)

locale unless_step =
  fixes step :: "'s \<Rightarrow> 's \<Rightarrow> bool" and P :: "'s \<Rightarrow> bool" and Q :: "'s \<Rightarrow> bool"
  assumes kept: "P s \<Longrightarrow> step s s' \<Longrightarrow> P s' \<or> Q s'"
begin

lemma reached_unless:
  assumes "step\<^sup>*\<^sup>* s s'" and "P s"
  shows "P s' \<or> (\<exists>t. step\<^sup>*\<^sup>* s t \<and> step\<^sup>*\<^sup>* t s' \<and> Q t)"
  using assms
proof (induction rule: rtranclp_induct)
  case (step y z)
  then show ?case
    using kept by (metis rtranclp.rtrancl_into_rtrancl rtranclp.rtrancl_refl)
qed simp

lemma run_unless:
  assumes "run_of step f" and "P (f n)" and "n \<le> m"
  shows "P (f m) \<or> (\<exists>i. n < i \<and> i \<le> m \<and> Q (f i))"
  using assms(3)
proof (induction m rule: dec_induct)
  case (step m)
  then show ?case using kept run_of_step [OF assms(1), of m] by (metis le_SucI less_Suc_eq_le lessI)
qed (use assms(2) in simp)

text \<open>
  Leads-to: from \<open>P\<close>, the goal is reached if at some later moment at which \<open>P\<close> still holds a
  step that establishes it is taken.
\<close>

lemma run_leads_to:
  assumes "run_of step f" and "P (f n)"
    and "(\<And>m. n \<le> m \<Longrightarrow> P (f m)) \<Longrightarrow> \<exists>m\<ge>n. Q (f (Suc m))"
  shows "\<exists>m\<ge>n. Q (f m)"
proof (rule ccontr)
  assume never: "\<not> (\<exists>m\<ge>n. Q (f m))"
  then have "P (f m)" if "n \<le> m" for m
    using run_unless [OF assms(1,2) that] by auto
  then show False using assms(3) never le_SucI by blast
qed

end

locale simulation =
  fixes step :: "'s \<Rightarrow> 's \<Rightarrow> bool" and inv :: "'s \<Rightarrow> bool"
    and astep :: "'a \<Rightarrow> 'a \<Rightarrow> bool" and view :: "'s \<Rightarrow> 'a"
  assumes inv_step: "inv s \<Longrightarrow> step s s' \<Longrightarrow> inv s'"
    and follows: "inv s \<Longrightarrow> step s s' \<Longrightarrow> view s' = view s \<or> astep (view s) (view s')"
begin

lemma reaches:
  assumes "step\<^sup>*\<^sup>* s s'" and "inv s"
  shows "inv s' \<and> astep\<^sup>*\<^sup>* (view s) (view s')"
  using assms
proof (induction rule: rtranclp_induct)
  case (step y z)
  then have "inv y" and "astep\<^sup>*\<^sup>* (view s) (view y)" by blast+
  then show ?case
    using step.hyps(2) inv_step follows by (metis rtranclp.rtrancl_into_rtrancl)
qed simp

end

end
