(* ===== verification/Engine_Liveness.thy ===== *)
theory Engine_Liveness
  imports Engine_Properties Runs "HOL-Library.Sublist"
begin

text \<open>
  Waiting terminals. A terminal waits while its guard entry holds its responder; every step of the
  engine keeps it waiting unless it is answered, as long as the journal accepts entries and no
  eviction of its key is pending. In a run in which the reaper keeps waking, its work is done and
  time passes, a waiting terminal is answered. An eviction left pending by the previous life of the
  key breaks this: the terminal is forgotten.
\<close>

section \<open>Definitions\<close>

definition answered :: "nat \<Rightarrow> engine \<Rightarrow> bool" where
  "answered r st \<longleftrightarrow> r \<in> fst ` set (answers st)"

text \<open>The pieces of work that remove the guard entry of a key.\<close>

fun evicts :: "rstring \<Rightarrow> job \<Rightarrow> bool" where
  "evicts k (Evict key) \<longleftrightarrow> key = k"
| "evicts k (ReapFinish key es did) \<longleftrightarrow> did \<and> key = k"
| "evicts k _ \<longleftrightarrow> False"

definition guarded :: "rstring \<Rightarrow> nat \<Rightarrow> nat \<Rightarrow> engine \<Rightarrow> bool" where
  "guarded k r t st \<longleftrightarrow>
     (\<exists>en. entry_of st k = Some en \<and> at_responder en = Some r \<and> created_at en = t \<and>
        at_state en \<in> {UpstreamSent, ReversedPending})"

definition waiting :: "rstring \<Rightarrow> nat \<Rightarrow> nat \<Rightarrow> engine \<Rightarrow> bool" where
  "waiting k r t st \<longleftrightarrow> engine_inv st \<and> guarded k r t st \<and> list_all (\<lambda>j. \<not> evicts k j) (jobs st)"

text \<open>A step before and after which the journal accepts entries.\<close>

definition live_step :: "codec \<Rightarrow> hsm \<Rightarrow> engine \<Rightarrow> engine \<Rightarrow> bool" where
  "live_step cd h st st' \<longleftrightarrow> engine_step cd h st st' \<and> journal_open st \<and> journal_open st'"

text \<open>The steps that a fair scheduler has to take.\<close>

definition serves :: "codec \<Rightarrow> job \<Rightarrow> engine \<Rightarrow> engine \<Rightarrow> bool" where
  "serves cd j st st' \<longleftrightarrow>
     (\<exists>js1 js2 st1 j'. jobs st = js1 @ j # js2 \<and>
        job_step cd j (st\<lparr>jobs := js1 @ js2\<rparr>) = (st1, j') \<and> st' = add_jobs (option_list j') st1)"

definition reaper_runs :: "(nat \<Rightarrow> engine) \<Rightarrow> bool" where
  "reaper_runs f \<longleftrightarrow> (\<forall>n. \<exists>m\<ge>n. f (Suc m) = add_jobs (map Reap (reaper_scan (f m))) (f m))"

definition reaps_served :: "codec \<Rightarrow> (nat \<Rightarrow> engine) \<Rightarrow> bool" where
  "reaps_served cd f \<longleftrightarrow>
     (\<forall>n k. Reap k \<in> set (jobs (f n)) \<longrightarrow> (\<exists>m\<ge>n. serves cd (Reap k) (f m) (f (Suc m))))"

definition time_passes :: "(nat \<Rightarrow> engine) \<Rightarrow> bool" where
  "time_passes f \<longleftrightarrow> (\<forall>t. \<exists>n. t \<le> clock (f n))"

text \<open>A reversal that names the STAN \<open>s\<close>.\<close>

definition reverses :: "rstring \<Rightarrow> transaction_context \<Rightarrow> bool" where
  "reverses s ctx \<longleftrightarrow>
     is_reversal (ctx_transaction ctx) \<and> original_stan (ctx_transaction ctx) = Ok (Some s)"

section \<open>What the pieces do to a waiting terminal\<close>

lemma guarded_frame: "idempotency_guard st' = idempotency_guard st \<Longrightarrow> guarded k r t st' = guarded k r t st"
  by (simp add: guarded_def)

lemma guarded_entry: "entry_of st' k = entry_of st k \<Longrightarrow> guarded k r t st' = guarded k r t st"
  by (simp add: guarded_def)

lemma answered_respond [simp]: "answered r (respond i e st) \<longleftrightarrow> i = Some r \<or> answered r st"
  by (auto simp: answered_def split: option.splits)

lemma answered_modify [simp]:
  "answered r (guard_modify k f st) = answered r st" "answered r (send_reversal d st) = answered r st"
  by (simp_all add: answered_def)

lemma mark_reversed_entry:
  "map_of (fst (mark_reversed tx s g)) k = map_option (\<lambda>e. if pb_stan (transaction_data e) = s
     then e\<lparr>at_state := ReversedPending\<rparr> else e) (map_of g k)"
  by (induction tx s g rule: mark_reversed.induct) (auto split: prod.splits)

lemma guarded_reversal:
  assumes "apply_reversal tx st = Ok st'" and "guarded k r t st"
  shows "guarded k r t st'"
proof -
  consider "st' = st" | s where
      "idempotency_guard st' = fst (mark_reversed tx s (idempotency_guard st))"
    using assms(1) by (auto simp: apply_reversal_def bindo_eq_Ok case_prod_beta split: option.splits)
  then show ?thesis
  proof cases
    case 2
    obtain en where en: "entry_of st k = Some en" "at_responder en = Some r" "created_at en = t"
      "at_state en \<in> {UpstreamSent, ReversedPending}" using assms(2) by (auto simp: guarded_def)
    then have "entry_of st' k = Some (if pb_stan (transaction_data en) = s
        then en\<lparr>at_state := ReversedPending\<rparr> else en)"
      by (simp add: 2 mark_reversed_entry)
    then show ?thesis using en by (simp add: guarded_def)
  qed (use assms(2) in simp)
qed

lemma guarded_guard_or_duplicate:
  assumes "guard_or_duplicate key ctx st = (st', j)" and "guarded k r t st"
  shows "guarded k r t st' \<and> list_all (\<lambda>j. \<not> evicts k j) (option_list j)"
  using assms
  by (cases "entry_of st key") (auto simp: guard_or_duplicate_def guarded_def Let_def)

lemma guarded_admit_screened:
  assumes "admit_screened key ctx st = Ok (st', j)" and "guarded k r t st"
  shows "guarded k r t st' \<and> list_all (\<lambda>j. \<not> evicts k j) (option_list j)"
proof -
  consider e where "st' = respond (ctx_responder ctx) e st" "j = None"
    | st1 e where "apply_reversal (ctx_transaction ctx) st = Ok st1"
      "st' = respond (ctx_responder ctx) e st1" "j = None"
    | "guard_or_duplicate key ctx st = (st', j)"
    using assms(1) by (auto simp: admit_screened_def Let_def bindo_eq_Ok split: if_splits)
  then show ?thesis
  proof cases
    case 2
    then show ?thesis using guarded_reversal [OF _ assms(2)] by (simp add: guarded_def)
  next
    case 3
    then show ?thesis using guarded_guard_or_duplicate assms(2) by blast
  qed (use assms(2) in \<open>simp add: guarded_def\<close>)
qed

lemma guarded_admit:
  assumes "admit ctx st = Ok (st', j)" and "guarded k r t st"
  shows "guarded k r t st' \<and> list_all (\<lambda>j. \<not> evicts k j) (option_list j)"
proof -
  consider e where "st' = respond (ctx_responder ctx) e st" "j = None"
    | key tx where "admit_screened key (ctx\<lparr>ctx_transaction := tx\<rparr>) st = Ok (st', j)"
    using assms(1) by (auto simp: admit_def Let_def bindo_eq_Ok split: if_splits option.splits)
  then show ?thesis
  proof cases
    case 2
    then show ?thesis using guarded_admit_screened assms(2) by blast
  qed (use assms(2) in \<open>simp add: guarded_def\<close>)
qed

text \<open>
  A piece of work keeps the terminal of \<open>k\<close> waiting, or answers it; and only in the second case may
  it leave an eviction of \<open>k\<close> behind.
\<close>

definition keeps_waiting :: "rstring \<Rightarrow> nat \<Rightarrow> nat \<Rightarrow> engine \<times> job option \<Rightarrow> bool" where
  "keeps_waiting k r t res \<longleftrightarrow>
     guarded k r t (fst res) \<and> list_all (\<lambda>j. \<not> evicts k j) (option_list (snd res)) \<or> answered r (fst res)"

lemma dispatch_keeps:
  assumes "guarded k r t st"
  shows "keeps_waiting k r t (dispatch key ctx st)"
proof -
  let ?tx = "ctx_transaction ctx"
  obtain st' j where res: "dispatch key ctx st = (st', j)" by fastforce
  consider "idempotency_guard st' = idempotency_guard st" "list_all (\<lambda>j. \<not> evicts k j) (option_list j)"
    | "st' = decline_unrouted key ?tx (st\<lparr>journal := journal st @ [to_pb ?tx]\<rparr>)" "j = Some (Evict key)"
    using res by (auto simp: dispatch_def journal_append_def Let_def split: if_splits option.splits prod.splits)
  then show ?thesis
  proof cases
    case 1
    then show ?thesis using res assms by (simp add: keeps_waiting_def guarded_frame [of st' st])
  next
    case 2
    then show ?thesis
      using res assms by (cases "key = k")
        (auto simp: keeps_waiting_def guarded_def decline_unrouted_def split: option.splits)
  qed
qed

lemma transmit_guard:
  "idempotency_guard (fst (transmit ctx ch st)) = idempotency_guard st"
  "idempotency_guard (stip_fallback cd ctx found st) = idempotency_guard st"
  by (auto simp: transmit_def ledger_send_def stip_fallback_def journal_append_def Let_def
      split: option.splits prod.splits if_splits)

lemma reap_keeps:
  assumes "guarded k r t st"
  shows "keeps_waiting k r t (reap key st)"
  using assms
  by (cases "key = k") (auto simp: keeps_waiting_def guarded_def reap_def split: option.splits)

lemma bank_reply_keeps:
  assumes "guarded k r t st" and "journal_open st"
  shows "keeps_waiting k r t (bank_reply key reply st)"
  using assms
  by (cases "key = k")
     (auto simp: keeps_waiting_def guarded_def bank_reply_def journal_append_def Let_def split: option.splits)

lemma reap_finish_guarded:
  assumes "guarded k r t st" and "\<not> (did \<and> key = k)"
  shows "guarded k r t (reap_finish key es did st)"
  using assms by (auto simp: guarded_def reap_finish_def Let_def split: option.splits)

lemma job_step_keeps:
  assumes "guarded k r t st" and "journal_open st" and "\<not> evicts k j"
  shows "keeps_waiting k r t (job_step cd j st)"
proof (cases j)
  case (Dispatch key ctx)
  then show ?thesis using dispatch_keeps assms(1) by simp
next
  case (RecordStan key ctx ch es)
  then show ?thesis using assms(1) by (auto simp: keeps_waiting_def record_stan_def guarded_def)
next
  case (Transmit ctx ch)
  then show ?thesis
    using assms(1) by (auto simp: keeps_waiting_def transmit_def ledger_send_def Let_def guarded_frame [OF transmit_guard(1)]
        guarded_def split: option.splits)
next
  case (StipLookup ctx)
  then show ?thesis using assms(1) by (simp add: keeps_waiting_def stip_lookup_def)
next
  case (StipApply ctx found)
  then show ?thesis using assms(1) by (simp add: keeps_waiting_def guarded_frame [OF transmit_guard(2)])
next
  case (Evict key)
  then show ?thesis using assms(1,3) by (auto simp: keeps_waiting_def guarded_def)
next
  case (Reap key)
  then show ?thesis using reap_keeps assms(1) by simp
next
  case (ReapFinish key es did)
  then show ?thesis using reap_finish_guarded assms(1,3) by (simp add: keeps_waiting_def)
next
  case (Reply key reply)
  then show ?thesis using bank_reply_keeps assms(1,2) by simp
qed

section \<open>Waiting unless answered\<close>

lemma no_prune_pending:
  assumes "keys_distinct st" and "guarded k r t st"
  shows "list_all (\<lambda>j. \<not> evicts k j) (map Evict (prune_scan st))"
proof -
  obtain en where "entry_of st k = Some en" "at_state en \<in> {UpstreamSent, ReversedPending}"
    using assms(2) by (auto simp: guarded_def)
  then have "(k, e) \<in> set (idempotency_guard st) \<Longrightarrow> \<not> stale st e" for e
    using assms(1) by (auto simp: stale_def dest: map_of_is_SomeI)
  then show ?thesis by (auto simp: prune_scan_def list_all_iff)
qed

lemma no_reap_pending: "list_all (\<lambda>j. \<not> evicts k j) (map Reap ks)"
  by (simp add: list_all_iff)

lemma hsm_process_guard: "idempotency_guard (hsm_process h ctx st) = idempotency_guard st"
  by (auto simp: hsm_process_def journal_append_def split: outcome.splits option.splits)

lemma reconfigure_guard:
  "reconfigure st st' \<Longrightarrow> idempotency_guard st' = idempotency_guard st \<and> jobs st' = jobs st"
  by (erule reconfigure.cases) simp_all

lemma live_step_waiting:
  assumes "waiting k r t st" and "live_step cd h st st'"
  shows "waiting k r t st' \<or> answered r st'"
proof -
  have inv: "engine_inv st" and g: "guarded k r t st" and js: "list_all (\<lambda>j. \<not> evicts k j) (jobs st)"
    using assms(1) by (simp_all add: waiting_def)
  have step: "engine_step cd h st st'" and up: "journal_open st" using assms(2) by (simp_all add: live_step_def)
  have inv': "engine_inv st'" using step inv by (rule engine_step_inv)
  from step have "guarded k r t st' \<and> list_all (\<lambda>j. \<not> evicts k j) (jobs st') \<or> answered r st'"
  proof cases
    case (ingest ctx rest st1 j)
    have "guarded k r t (st\<lparr>ingress_queue := rest\<rparr>)" using g by (simp add: guarded_def)
    from guarded_admit [OF ingest(4) this] admit_evolves [OF ingest(4)] show ?thesis
      using js ingest(1) by (simp add: guarded_def evolves_def)
  next
    case (work js1 j js2 st1 j')
    let ?st = "st\<lparr>jobs := js1 @ js2\<rparr>"
    have "guarded k r t ?st" "journal_open ?st" "\<not> evicts k j" "quiet_job j"
      using g up js inv work(2) by (auto simp: guarded_def engine_inv_def)
    then have "keeps_waiting k r t (st1, j')" and "jobs st1 = js1 @ js2"
      using job_step_keeps [of k r t ?st j cd] job_step_evolves [OF _ work(3)] work(3)
      by (simp_all add: evolves_def)
    then show ?thesis
      using js work(1,2) by (auto simp: keeps_waiting_def guarded_def answered_def)
  next
    case (hsm_task ctx rest)
    then show ?thesis
      using g js hsm_process_evolves [of ctx "st\<lparr>hsm_queue := rest\<rparr>" h] inv
      by (auto simp: guarded_def hsm_process_guard engine_inv_def evolves_def)
  next
    case reaper_wakes
    then show ?thesis using g js no_reap_pending by (simp add: guarded_def)
  next
    case reaper_prunes
    then show ?thesis using g js no_prune_pending [OF _ g] inv by (simp add: guarded_def engine_inv_def)
  next
    case (reply_taken reply rest st1 key)
    then show ?thesis
      using g js bank_reply_key_evolves [OF reply_taken(3)]
      by (auto simp: guarded_def bank_reply_key_def evolves_def Let_def)
  next
    case config
    then show ?thesis using g js reconfigure_guard by (simp add: guarded_def)
  qed (use g js in \<open>simp_all add: guarded_def\<close>)
  then show ?thesis using inv' by (simp add: waiting_def)
qed

interpretation terminal: unless_step "live_step cd h" "waiting k r t" "answered r" for cd h k r t
  by unfold_locales (rule live_step_waiting)

text \<open>Answers are never taken back, the clock does not run backwards, the timeout is fixed.\<close>

lemma job_step_clock:
  assumes "job_step cd j st = (st', j')"
  shows "clock st' = clock st \<and> timeout_ms st' = timeout_ms st"
  using assms
  by (cases j) (auto simp: dispatch_def decline_unrouted_def record_stan_def transmit_def ledger_send_def
      stip_lookup_def stip_fallback_def journal_append_def reap_def reap_finish_def bank_reply_def Let_def
      split: if_splits option.splits outcome.splits prod.splits)

lemma apply_reversal_clock: "apply_reversal tx st = Ok st' \<Longrightarrow> clock st' = clock st \<and> timeout_ms st' = timeout_ms st"
  by (auto simp: apply_reversal_def bindo_eq_Ok case_prod_beta split: option.splits)

lemma admit_screened_clock:
  "admit_screened key ctx st = Ok (st', j) \<Longrightarrow> clock st' = clock st \<and> timeout_ms st' = timeout_ms st"
  by (auto simp: admit_screened_def guard_or_duplicate_def Let_def bindo_eq_Ok
      dest!: apply_reversal_clock split: if_splits option.splits)

lemma admit_clock: "admit ctx st = Ok (st', j) \<Longrightarrow> clock st' = clock st \<and> timeout_ms st' = timeout_ms st"
  by (auto simp: admit_def Let_def bindo_eq_Ok dest!: admit_screened_clock split: if_splits option.splits)

lemma hsm_process_clock:
  "clock (hsm_process h ctx st) = clock st" "timeout_ms (hsm_process h ctx st) = timeout_ms st"
  by (auto simp: hsm_process_def journal_append_def split: outcome.splits option.splits)

lemma engine_step_clock:
  assumes "engine_step cd h st st'"
  shows "clock st \<le> clock st'" and "timeout_ms st' = timeout_ms st"
proof -
  have "clock st \<le> clock st' \<and> timeout_ms st' = timeout_ms st"
    using assms
  proof cases
    case (ingest ctx rest st1 j)
    then show ?thesis using admit_clock [OF ingest(4)] by simp
  next
    case (work js1 j js2 st1 j')
    then show ?thesis using job_step_clock [OF work(3)] by simp
  next
    case (reply_taken reply rest st1 key)
    then show ?thesis by (auto simp: bank_reply_key_def nat_remove_def Let_def)
  next
    case config
    then show ?thesis by (auto elim!: reconfigure.cases)
  qed (simp_all add: hsm_process_clock)
  then show "clock st \<le> clock st'" and "timeout_ms st' = timeout_ms st" by simp_all
qed

lemma live_step_clock:
  "live_step cd h st st' \<Longrightarrow> clock st \<le> clock st'" "live_step cd h st st' \<Longrightarrow> timeout_ms st' = timeout_ms st"
  using engine_step_clock by (auto simp only: live_step_def)

section \<open>Only a reversal marks an entry\<close>

text \<open>
  \<open>tracks k st st'\<close>: the entry of \<open>k\<close> still guards the same transaction and was not newly marked as
  reversed.
\<close>

definition tracks :: "rstring \<Rightarrow> engine \<Rightarrow> engine \<Rightarrow> bool" where
  "tracks k st st' \<longleftrightarrow> (\<forall>en en'. entry_of st k = Some en \<longrightarrow> entry_of st' k = Some en' \<longrightarrow>
     transaction_data en' = transaction_data en \<and>
     (at_state en' = ReversedPending \<longrightarrow> at_state en = ReversedPending))"

lemma tracks_frame: "entry_of st' k = entry_of st k \<Longrightarrow> tracks k st st'"
  by (simp add: tracks_def)

lemma tracks_guards:
  assumes "tracks k st1 st1'" and "idempotency_guard st = idempotency_guard st1"
    and "idempotency_guard st' = idempotency_guard st1'"
  shows "tracks k st st'"
  using assms(1) unfolding tracks_def assms(2,3) .

lemma job_step_tracks:
  assumes "job_step cd j st = (st', j')"
  shows "tracks k st st'"
proof (cases j)
  case (Dispatch key ctx)
  then show ?thesis
    using assms by (cases "key = k") (auto simp: tracks_def dispatch_def decline_unrouted_def journal_append_def
      Let_def split: if_splits option.splits prod.splits)
next
  case (RecordStan key ctx ch es)
  then show ?thesis using assms by (cases "key = k") (auto simp: tracks_def record_stan_def)
next
  case (Transmit ctx ch)
  then show ?thesis using assms transmit_guard(1) [of ctx ch st] by (simp add: tracks_frame)
next
  case (StipLookup ctx)
  then show ?thesis using assms by (simp add: stip_lookup_def tracks_frame)
next
  case (StipApply ctx found)
  then show ?thesis using assms transmit_guard(2) by (auto intro: tracks_frame)
next
  case (Evict key)
  then show ?thesis using assms by (cases "key = k") (auto simp: tracks_def)
next
  case (Reap key)
  then show ?thesis using assms by (cases "key = k") (auto simp: tracks_def reap_def split: option.splits if_splits)
next
  case (ReapFinish key es did)
  then show ?thesis
    using assms by (cases "key = k") (auto simp: tracks_def reap_finish_def Let_def split: option.splits if_splits)
next
  case (Reply key reply)
  then show ?thesis
    using assms by (cases "key = k") (auto simp: tracks_def bank_reply_def journal_append_def Let_def
      split: option.splits if_splits)
qed

lemma tsp_intercept_reverses:
  assumes "tsp_intercept g (ctx_transaction ctx) = Ok (Some tx)"
  shows "reverses s (ctx\<lparr>ctx_transaction := tx\<rparr>) = reverses s ctx"
  using assms by (auto simp: tsp_intercept_def reverses_def original_stan_def Let_def split: if_splits option.splits)

lemma admit_screened_tracks:
  assumes "admit_screened key ctx st = Ok (st', j)" and "entry_of st k = Some en"
    and "\<not> reverses (pb_stan (transaction_data en)) ctx"
  shows "tracks k st st'"
proof -
  have "tracks k st st1" if reversal: "is_reversal (ctx_transaction ctx)"
    "apply_reversal (ctx_transaction ctx) st = Ok st1" for st1
  proof -
    consider "st1 = st" | s where "original_stan (ctx_transaction ctx) = Ok (Some s)"
        "idempotency_guard st1 = fst (mark_reversed (ctx_transaction ctx) s (idempotency_guard st))"
      using reversal(2) by (auto simp: apply_reversal_def bindo_eq_Ok case_prod_beta split: option.splits)
    then show ?thesis
      using assms(2,3) reversal(1) by cases (auto simp: tracks_def mark_reversed_entry reverses_def)
  qed
  then show ?thesis
    using assms(1,2) by (auto simp: admit_screened_def guard_or_duplicate_def tracks_def Let_def bindo_eq_Ok
        split: if_splits option.splits)
qed

lemma admit_tracks:
  assumes "admit ctx st = Ok (st', j)" and "entry_of st k = Some en"
    and "\<not> reverses (pb_stan (transaction_data en)) ctx"
  shows "tracks k st st'"
proof -
  consider e where "st' = respond (ctx_responder ctx) e st"
    | key tx where "tsp_intercept (memory_state st) (ctx_transaction ctx) = Ok (Some tx)"
      "admit_screened key (ctx\<lparr>ctx_transaction := tx\<rparr>) st = Ok (st', j)"
    using assms(1) by (auto simp: admit_def Let_def bindo_eq_Ok split: if_splits option.splits)
  then show ?thesis
  proof cases
    case 2
    have "\<not> reverses (pb_stan (transaction_data en)) (ctx\<lparr>ctx_transaction := tx\<rparr>)"
      using assms(3) tsp_intercept_reverses [OF 2(1)] by simp
    then show ?thesis by (rule admit_screened_tracks [OF 2(2) assms(2)])
  qed (simp add: tracks_frame)
qed

lemma engine_step_tracks:
  assumes "engine_step cd h st st'" and "entry_of st k = Some en"
    and "\<And>ctx. ctx \<in> set (ingress_queue st) \<Longrightarrow> \<not> reverses (pb_stan (transaction_data en)) ctx"
  shows "tracks k st st'"
  using assms(1)
proof cases
  case (ingest ctx rest st1 j)
  have "tracks k (st\<lparr>ingress_queue := rest\<rparr>) st1"
  proof (rule admit_tracks [OF ingest(4)])
    show "entry_of (st\<lparr>ingress_queue := rest\<rparr>) k = Some en" using assms(2) by simp
    show "\<not> reverses (pb_stan (transaction_data en)) ctx" by (rule assms(3)) (simp add: ingest(3))
  qed
  then show ?thesis by (rule tracks_guards) (simp_all add: ingest(1))
next
  case (work js1 j js2 st1 j')
  have "tracks k (st\<lparr>jobs := js1 @ js2\<rparr>) st1" by (rule job_step_tracks [OF work(3)])
  then show ?thesis by (rule tracks_guards) (simp_all add: work(1))
next
  case (reply_taken reply rest st1 key)
  then show ?thesis by (auto simp: tracks_frame bank_reply_key_def Let_def)
next
  case config
  then show ?thesis using reconfigure_guard by (simp add: tracks_frame)
qed (simp_all add: tracks_frame hsm_process_guard)

section \<open>The reaper answers\<close>

lemma serves_step: "serves cd j st st' \<Longrightarrow> engine_step cd h st st'"
  unfolding serves_def by (blast intro: engine_step.work)

lemma reap_answers:
  assumes "serves cd (Reap k) st st'" and "entry_of st k = Some en" and "at_state en = UpstreamSent"
    and "at_responder en = Some r"
  shows "answered r st'"
  using assms by (auto simp: serves_def reap_def answered_def)

lemma reaper_wakes_due:
  assumes "entry_of st k = Some en" and "expired st en"
  shows "Reap k \<in> set (jobs (add_jobs (map Reap (reaper_scan st)) st))"
  using map_of_SomeD [OF assms(1)] assms(2) by (force simp: reaper_scan_def)

lemma waiting_expires:
  assumes "run_of (live_step cd h) f" and "time_passes f"
  shows "\<exists>n0\<ge>n. \<forall>m\<ge>n0. t + timeout_ms (f 0) < clock (f m)"
proof -
  obtain n1 where n1: "Suc (t + timeout_ms (f 0)) \<le> clock (f n1)"
    using assms(2) unfolding time_passes_def by blast
  have "t + timeout_ms (f 0) < clock (f m)" if "max n n1 \<le> m" for m
  proof -
    have "clock (f n1) \<le> clock (f m)"
      using that live_step_clock(1) by (intro run_of_mono [OF assms(1)]) auto
    then show ?thesis using n1 by simp
  qed
  then show ?thesis by (intro exI [of _ "max n n1"]) simp
qed

lemma fair_reaper_answers:
  assumes run: "run_of (live_step cd h) f" and fair: "reaper_runs f" "reaps_served cd f" "time_passes f"
    and wait: "\<And>m. n \<le> m \<Longrightarrow> waiting k r t (f m)"
    and sent: "\<And>m en. n \<le> m \<Longrightarrow> entry_of (f m) k = Some en \<Longrightarrow> at_state en = UpstreamSent"
  shows "\<exists>m\<ge>n. answered r (f (Suc m))"
proof -
  have entry: "\<exists>en. entry_of (f m) k = Some en \<and> at_state en = UpstreamSent \<and> at_responder en = Some r \<and>
      created_at en = t" if "n \<le> m" for m
    using wait [OF that] sent [OF that] by (auto simp: waiting_def guarded_def)
  obtain n0 where n0: "n \<le> n0" "\<forall>m\<ge>n0. t + timeout_ms (f 0) < clock (f m)"
    using waiting_expires [OF run fair(3)] by blast
  obtain m where m: "n0 \<le> m" "f (Suc m) = add_jobs (map Reap (reaper_scan (f m))) (f m)"
    using fair(1) unfolding reaper_runs_def by blast
  obtain en where en: "entry_of (f m) k = Some en" "at_state en = UpstreamSent" "created_at en = t"
    using entry [of m] n0(1) m(1) by auto
  have "timeout_ms (f m) = timeout_ms (f 0)"
    using live_step_clock(2) by (rule run_of_const [OF run])
  moreover have "t + timeout_ms (f 0) < clock (f m)" using n0(2) m(1) by blast
  ultimately have "expired (f m) en" using en by (simp add: expired_def)
  then have "Reap k \<in> set (jobs (f (Suc m)))" using reaper_wakes_due [OF en(1)] m(2) by metis
  then obtain i where i: "Suc m \<le> i" "serves cd (Reap k) (f i) (f (Suc i))"
    using fair(2) unfolding reaps_served_def by blast
  moreover have "n \<le> i" using n0(1) m(1) i(1) by simp
  ultimately show ?thesis using reap_answers entry [of i] by blast
qed

section \<open>Each terminal sees a simple protocol\<close>

text \<open>
  What one terminal can observe of the engine: it is unknown, its request is pending, or it has
  been served an answer. \<open>desk_step\<close> is the whole protocol.
\<close>

datatype desk = Unknown | Pending | Served event

definition desk_of :: "nat \<Rightarrow> engine \<Rightarrow> desk" where
  "desk_of r st =
     (case map_of (answers st) r of
        Some e \<Rightarrow> Served e
      | None \<Rightarrow> if r \<in># held st then Pending else Unknown)"

inductive desk_step :: "desk \<Rightarrow> desk \<Rightarrow> bool" where
  request: "desk_step Unknown Pending"
| serve: "mti e \<in> response_mtis \<Longrightarrow> desk_step Pending (Served e)"
| drop: "desk_step Pending Unknown"

inductive_simps served_step [simp]: "desk_step (Served e) d"

lemma held_jobs [simp]: "held (st\<lparr>jobs := js\<rparr>) = held st"
  by (simp add: held_def)

lemma answered_held: "answered r st \<Longrightarrow> r \<in># held st"
  by (auto simp: answered_def held_def)

lemma job_step_extends:
  assumes "job_step cd j st = (st', j')"
  shows "prefix (answers st) (answers st')"
  using assms
  by (cases j) (auto simp: dispatch_def decline_unrouted_def record_stan_def transmit_def ledger_send_def
      stip_lookup_def stip_fallback_def journal_append_def reap_def reap_finish_def bank_reply_def Let_def
      split: if_splits option.splits outcome.splits prod.splits)

lemma apply_reversal_extends: "apply_reversal tx st = Ok st' \<Longrightarrow> answers st' = answers st"
  by (auto simp: apply_reversal_def bindo_eq_Ok case_prod_beta split: option.splits)

lemma admit_screened_extends: "admit_screened key ctx st = Ok (st', j) \<Longrightarrow> prefix (answers st) (answers st')"
  by (auto simp: admit_screened_def guard_or_duplicate_def Let_def bindo_eq_Ok
      dest!: apply_reversal_extends split: if_splits option.splits)

lemma admit_extends: "admit ctx st = Ok (st', j) \<Longrightarrow> prefix (answers st) (answers st')"
  by (auto simp: admit_def Let_def bindo_eq_Ok dest!: admit_screened_extends split: if_splits option.splits)

lemma engine_step_extends:
  assumes "engine_step cd h st st'"
  shows "prefix (answers st) (answers st')"
  using assms
proof cases
  case (ingest ctx rest st1 j)
  then show ?thesis using admit_extends [OF ingest(4)] by simp
next
  case (work js1 j js2 st1 j')
  then show ?thesis using job_step_extends [OF work(3)] by simp
next
  case (hsm_task ctx rest)
  then show ?thesis
    by (auto simp: hsm_process_def journal_append_def split: outcome.splits option.splits)
next
  case (reply_taken reply rest st1 key)
  then show ?thesis by (auto simp: bank_reply_key_def Let_def)
next
  case config
  then show ?thesis by (auto elim!: reconfigure.cases)
qed simp_all

text \<open>Only an arrival brings a new responder; every other step only drops or answers what is held.\<close>

lemma engine_step_held:
  assumes "engine_step cd h st st'" and "engine_inv st"
  shows "(\<exists>ctx. st' = st\<lparr>ingress_queue := ingress_queue st @ [ctx]\<rparr>) \<or> held st' \<subseteq># held st"
  using assms(1)
proof cases
  case (arrive ctx)
  then show ?thesis by blast
next
  case (ingest ctx rest st1 j)
  let ?st = "st\<lparr>ingress_queue := rest\<rparr>"
  have "held st1 \<subseteq># held ?st + opt_mset (ctx_responder ctx)"
    using admit_evolves [OF ingest(4)] assms(2) by (simp add: evolves_def engine_inv_def)
  moreover have "held st = held ?st + opt_mset (ctx_responder ctx)" using ingest(3) by (simp add: held_def)
  ultimately show ?thesis using ingest(1) by simp
next
  case (work js1 j js2 st1 j')
  have "quiet_job j" using assms(2) work(2) by (simp add: engine_inv_def)
  then have "held st1 \<subseteq># held (st\<lparr>jobs := js1 @ js2\<rparr>)"
    using job_step_evolves [OF _ work(3)] assms(2) by (simp add: evolves_def engine_inv_def)
  then show ?thesis using work(1) by simp
next
  case (hsm_task ctx rest)
  then have "ctx_responder ctx = None" using assms(2) by (simp add: engine_inv_def)
  then have "evolves {#} (st\<lparr>hsm_queue := rest\<rparr>) st'" using hsm_process_evolves hsm_task(1) by blast
  then show ?thesis using assms(2) by (simp add: evolves_def engine_inv_def held_def)
next
  case (reply_taken reply rest st1 key)
  then show ?thesis by (auto simp: bank_reply_key_def nat_remove_def held_def Let_def)
next
  case config
  then show ?thesis by (auto simp: held_def elim!: reconfigure.cases)
qed (simp_all add: held_def)

lemma desk_follows:
  assumes "engine_inv st" and "engine_step cd h st st'"
  shows "desk_of r st' = desk_of r st \<or> desk_step (desk_of r st) (desk_of r st')"
proof (cases "desk_of r st")
  case Unknown
  have "r \<notin># held st" and "map_of (answers st) r = None"
    using Unknown by (simp_all add: desk_of_def split: option.splits if_splits)
  then have "answers st' = answers st \<or> \<not> answered r st'"
    using engine_step_held [OF assms(2,1)] answered_held [of r st'] by (auto dest: mset_subset_eqD)
  then have "map_of (answers st') r = None"
    using \<open>map_of (answers st) r = None\<close> by (auto simp: answered_def map_of_eq_None_iff)
  then show ?thesis using Unknown by (simp add: desk_of_def desk_step.request)
next
  case Pending
  have "mti e \<in> response_mtis" if "map_of (answers st') r = Some e" for e
    using engine_step_inv [OF assms(2,1)] map_of_SomeD [OF that] by (auto simp: engine_inv_def list_all_iff)
  then show ?thesis
    using Pending by (auto simp: desk_of_def [of r st'] intro: desk_step.intros split: option.splits)
next
  case (Served e)
  then show ?thesis
    using engine_step_extends [OF assms(2)] by (auto simp: desk_of_def prefix_def map_add_def split: option.splits if_splits)
qed

interpretation desk: simulation "engine_step cd h" engine_inv desk_step "desk_of r" for cd h r
  by unfold_locales (rule engine_step_inv, assumption+, rule desk_follows)

lemma served_final: "desk_step\<^sup>*\<^sup>* (Served e) d \<Longrightarrow> d = Served e"
  by (induction rule: rtranclp_induct) auto

section \<open>A stale eviction\<close>

text \<open>Work does not look at the other work that is pending.\<close>

lemma update_jobs:
  "respond r e (st\<lparr>jobs := js\<rparr>) = (respond r e st)\<lparr>jobs := js\<rparr>"
  "guard_modify k f (st\<lparr>jobs := js\<rparr>) = (guard_modify k f st)\<lparr>jobs := js\<rparr>"
  "guard_remove k (st\<lparr>jobs := js\<rparr>) = (guard_remove k st)\<lparr>jobs := js\<rparr>"
  "nat_remove es (st\<lparr>jobs := js\<rparr>) = (nat_remove es st)\<lparr>jobs := js\<rparr>"
  "ledger_send ev (st\<lparr>jobs := js\<rparr>) = (ledger_send ev st)\<lparr>jobs := js\<rparr>"
  "send_reversal d (st\<lparr>jobs := js\<rparr>) = (send_reversal d st)\<lparr>jobs := js\<rparr>"
  by (simp_all add: respond_def guard_modify_def guard_remove_def nat_remove_def ledger_send_def
      send_reversal_def Let_def split: option.splits route_destination.splits)

lemma stip_fallback_jobs:
  "stip_fallback cd ctx found (st\<lparr>jobs := js\<rparr>) = (stip_fallback cd ctx found st)\<lparr>jobs := js\<rparr>"
  by (simp add: stip_fallback_def journal_append_def update_jobs Let_def split: prod.splits)
     (simp add: respond_def split: option.splits)

lemma dispatch_jobs:
  "dispatch key ctx (st\<lparr>jobs := js\<rparr>) = ((fst (dispatch key ctx st))\<lparr>jobs := js\<rparr>, snd (dispatch key ctx st))"
  by (simp add: dispatch_def journal_append_def decline_unrouted_def guard_modify_def respond_def Let_def
      split: option.splits prod.splits)

lemma job_step_jobs:
  "job_step cd j (st\<lparr>jobs := js\<rparr>) = ((fst (job_step cd j st))\<lparr>jobs := js\<rparr>, snd (job_step cd j st))"
proof (cases j)
  case (Transmit ctx ch)
  then show ?thesis
    by (simp add: transmit_def update_jobs Let_def split: option.splits)
next
  case (Reply key reply)
  then show ?thesis
    by (simp add: bank_reply_def journal_append_def guard_modify_def respond_def Let_def split: option.splits)
qed (simp_all add: dispatch_jobs record_stan_def stip_lookup_def stip_fallback_jobs reap_def reap_finish_def update_jobs Let_def split: option.splits)

lemma work_step:
  assumes "job_step cd j st = (st', j')"
  shows "engine_step cd h (st\<lparr>jobs := js1 @ j # js2\<rparr>) (st'\<lparr>jobs := js1 @ js2 @ option_list j'\<rparr>)"
proof -
  have "engine_step cd h (st\<lparr>jobs := js1 @ j # js2\<rparr>) (add_jobs (option_list j') (st'\<lparr>jobs := js1 @ js2\<rparr>))"
    using assms job_step_jobs [of cd j "js1 @ js2" st] by (intro engine_step.work [of _ js1 j js2]) simp_all
  then show ?thesis by simp
qed

lemma ingest_step:
  assumes "clears_screening st ctx tx" and "entry_of st (context_key ctx) = None" and "0 < workers st"
  shows "engine_step cd h (st\<lparr>jobs := js, ingress_queue := ctx # ingress_queue st\<rparr>)
    (st\<lparr>idempotency_guard := (context_key ctx, \<lparr>created_at = clock st, at_state = UpstreamSent,
         at_responder = ctx_responder ctx, transaction_data = to_pb tx, egress_stan = None\<rparr>) # idempotency_guard st,
       jobs := js @ [Dispatch (context_key ctx) (ctx\<lparr>ctx_transaction := tx, ctx_responder := None\<rparr>)]\<rparr>)"
    (is "engine_step cd h ?a ?b")
proof -
  let ?st = "st\<lparr>jobs := js\<rparr>" and ?k = "context_key ctx"
  let ?j = "Dispatch ?k (ctx\<lparr>ctx_transaction := tx, ctx_responder := None\<rparr>)"
  have "clears_screening ?st ctx tx" using assms(1) by (simp add: clears_screening_def)
  then have "admit ctx ?st = Ok (guard_or_duplicate ?k (ctx\<lparr>ctx_transaction := tx\<rparr>) ?st)" by (rule admit_clear)
  moreover have "?a\<lparr>ingress_queue := ingress_queue st\<rparr> = ?st" by (intro engine.equality) simp_all
  ultimately have "admit ctx (?a\<lparr>ingress_queue := ingress_queue st\<rparr>) = Ok (?b\<lparr>jobs := js\<rparr>, Some ?j)"
    using assms(2) by (simp add: guard_or_duplicate_def Let_def)
  from engine_step.ingest [OF _ _ this] show ?thesis using assms(3) by simp
qed

text \<open>The reaper and a late reply both finish with the entry of a key; the second to finish takes whatever is there.\<close>

lemma race_to_evict:
  assumes one: "entry_of st k = Some en" "expired st en" "reaper_scan st = [k]"
    and quiet: "jobs st = []" "bank_replies st = []"
    and key: "snd (bank_reply_key reply st) = k" and distinct: "keys_distinct st"
  shows "\<exists>st'. (engine_step cd h)\<^sup>*\<^sup>* st (st'\<lparr>jobs := [Evict k]\<rparr>) \<and> entry_of st' k = None \<and>
    ingress_queue st' = ingress_queue st \<and> workers st' = workers st \<and>
    compliance_cache st' = compliance_cache st \<and>
    (\<exists>nat. memory_state st' = (memory_state st)\<lparr>stan_nat := nat\<rparr>) \<and> held st' \<subseteq># held st"
proof -
  let ?es = "pb_stan reply"
  define st1 where "st1 = fst (reap k st)"
  define st2 where "st2 = nat_remove ?es st1"
  define st3 where "st3 = reap_finish k (egress_stan en) True st2"
  have sent: "at_state en = UpstreamSent" using one(2) by (simp add: expired_def)
  have reap: "job_step cd (Reap k) st = (st1, Some (ReapFinish k (egress_stan en) True))"
    using one(1) sent by (simp add: st1_def reap_def)
  have st1: "bank_replies st1 = []" "memory_state st1 = memory_state st" "ingress_queue st1 = ingress_queue st"
    "workers st1 = workers st" "compliance_cache st1 = compliance_cache st"
    using one(1) sent quiet(2)
    by (auto simp: st1_def reap_def send_reversal_def guard_modify_def respond_def Let_def
        split: option.splits route_destination.splits)
  have reversed: "\<exists>e. entry_of st1 k = Some e \<and> at_state e = Reversed"
    using one(1) sent by (simp add: st1_def reap_def)
  have "engine_step cd h st (add_jobs (map Reap (reaper_scan st)) st)" by (rule engine_step.reaper_wakes)
  then have "(engine_step cd h)\<^sup>*\<^sup>* st (st\<lparr>jobs := [] @ Reap k # []\<rparr>)" by (simp add: one(3) quiet(1) r_into_rtranclp)
  also have "engine_step cd h (st\<lparr>jobs := [] @ Reap k # []\<rparr>) (st1\<lparr>jobs := [ReapFinish k (egress_stan en) True]\<rparr>)"
    using work_step [OF reap, of h "[]" "[]"] by simp
  also have "engine_step cd h (st1\<lparr>jobs := [ReapFinish k (egress_stan en) True]\<rparr>)
      (st1\<lparr>jobs := [ReapFinish k (egress_stan en) True], bank_replies := [reply]\<rparr>)"
    using engine_step.bank_sends [of cd h "st1\<lparr>jobs := [ReapFinish k (egress_stan en) True]\<rparr>" reply]
    by (simp add: st1(1))
  also have "engine_step cd h \<dots> (st2\<lparr>jobs := [ReapFinish k (egress_stan en) True] @ Reply k reply # []\<rparr>)"
  proof -
    let ?a = "st1\<lparr>jobs := [ReapFinish k (egress_stan en) True], bank_replies := [reply]\<rparr>"
    have "bank_reply_key reply (?a\<lparr>bank_replies := []\<rparr>) = (st2\<lparr>jobs := [ReapFinish k (egress_stan en) True]\<rparr>, k)"
      using key st1(1,2) by (simp add: bank_reply_key_def st2_def nat_remove_def Let_def)
    from engine_step.reply_taken [OF _ this] show ?thesis by simp
  qed
  also have "engine_step cd h \<dots> (st2\<lparr>jobs := [] @ ReapFinish k (egress_stan en) True # [Evict k]\<rparr>)"
    using reversed work_step [of cd "Reply k reply" st2 st2 "Some (Evict k)" h "[ReapFinish k (egress_stan en) True]" "[]"]
    by (auto simp: bank_reply_def st2_def)
  also have "engine_step cd h \<dots> (st3\<lparr>jobs := [Evict k]\<rparr>)"
    using work_step [of cd "ReapFinish k (egress_stan en) True" st2 st3 None h "[]" "[Evict k]"] by (simp add: st3_def)
  finally have "(engine_step cd h)\<^sup>*\<^sup>* st (st3\<lparr>jobs := [Evict k]\<rparr>)" .
  moreover have "entry_of st3 k = None" "ingress_queue st3 = ingress_queue st" "workers st3 = workers st"
    "compliance_cache st3 = compliance_cache st" "\<exists>nat. memory_state st3 = (memory_state st)\<lparr>stan_nat := nat\<rparr>"
    using st1 by (auto simp: st3_def st2_def reap_finish_def guard_remove_def nat_remove_def delete_conv' Let_def
        split: option.splits)
  moreover have "evolves {#} st st3"
    using reap_evolves [OF reap [simplified]] evolves_then [OF evolves_nat_remove reap_finish_evolves] evolves_then
    unfolding st3_def st2_def by metis
  then have "held st3 \<subseteq># held st" using distinct by (simp add: evolves_def)
  ultimately show ?thesis by blast
qed

lemma tsp_intercept_nat [simp]: "tsp_intercept (g\<lparr>stan_nat := n\<rparr>) tx = tsp_intercept g tx"
  by (simp add: tsp_intercept_def)

section \<open>Properties\<close>

text \<open>
  C5. A waiting terminal is answered. In every run in which the journal accepts entries, the reaper
  keeps waking, the reaps it finds due are carried out and time passes, a terminal whose
  transaction is in the guard is answered, however the other threads interleave. Three things are
  assumed of the run: the journal never closes, no eviction of the key is still pending from an
  earlier transaction, and from then on no reversal is queued that names the STAN of the
  transaction (a reversal from any acquirer with that STAN marks the entry, which the reaper then
  leaves alone).
\<close>

theorem waiting_terminal_answered:
  assumes "run_of (live_step cd h) f" and "engine_inv (f n)"
    and "reaper_runs f" and "reaps_served cd f" and "time_passes f"
    and "entry_of (f n) k = Some en" and "at_state en = UpstreamSent" and "at_responder en = Some r"
    and "list_all (\<lambda>j. \<not> evicts k j) (jobs (f n))"
    and unmarked: "\<And>m ctx. n \<le> m \<Longrightarrow> ctx \<in> set (ingress_queue (f m)) \<Longrightarrow>
      \<not> reverses (pb_stan (transaction_data en)) ctx"
  shows "\<exists>m\<ge>n. answered r (f m)"
proof (rule terminal.run_leads_to [OF assms(1)])
  show "waiting k r (created_at en) (f n)"
    using assms(2,6-9) by (simp add: waiting_def guarded_def)
  assume wait: "\<And>m. n \<le> m \<Longrightarrow> waiting k r (created_at en) (f m)"
  have "transaction_data e = transaction_data en \<and> at_state e = UpstreamSent"
    if "n \<le> m" "entry_of (f m) k = Some e" for m e
    using that
  proof (induction m arbitrary: e rule: dec_induct)
    case (step m)
    then obtain e0 where e0: "entry_of (f m) k = Some e0"
      using wait [of m] by (auto simp: waiting_def guarded_def)
    note same = step.IH [OF e0]
    have "engine_step cd h (f m) (f (Suc m))" using run_of_step [OF assms(1)] by (simp add: live_step_def)
    then have "tracks k (f m) (f (Suc m))"
      using e0 unmarked [OF step.hyps(1)] same by (intro engine_step_tracks) auto
    then show ?case
      using e0 same step.prems step.hyps(1) wait [of "Suc m"] by (auto simp: tracks_def waiting_def guarded_def)
  qed (use assms(6,7) in simp)
  then show "\<exists>m\<ge>n. answered r (f (Suc m))"
    using fair_reaper_answers [OF assms(1,3,4,5) wait] by blast
qed

text \<open>A run in which the reaper finds one expired entry, reaps it, and idles ever after.\<close>

definition due_key :: rstring where
  "due_key = context_key sample_context"

definition due_run :: "nat \<Rightarrow> engine" where
  "due_run n =
     (let st = guarded_engine 2000; reaped = fst (reap due_key st);
          quiet = reap_finish due_key (Some (ascii ''000000'')) True reaped in
      if n = 0 then st
      else if n = 1 then add_jobs [Reap due_key] st
      else if n = 2 then add_jobs [ReapFinish due_key (Some (ascii ''000000'')) True] reaped
      else quiet\<lparr>clock := clock quiet + (n - 3) div 2\<rparr>)"

lemma due_state:
  "idempotency_guard (guarded_engine 2000) = [(due_key, sample_entry)]" "jobs (guarded_engine 2000) = []"
  "journal_open (guarded_engine 2000)" "answers (guarded_engine 2000) = []"
  "reaper_scan (guarded_engine 2000) = [due_key]"
  by (simp_all add: guarded_engine_def due_key_def sample_defs sample_entry_def reaper_scan_def expired_def)

lemma due_reaped:
  fixes st :: engine defines "st \<equiv> fst (reap due_key (guarded_engine 2000))"
  shows "reap due_key (guarded_engine 2000) = (st, Some (ReapFinish due_key (Some (ascii ''000000'')) True))"
    "jobs st = []" "journal_open st" "map fst (idempotency_guard st) = [due_key]"
proof -
  show reap: "reap due_key (guarded_engine 2000) = (st, Some (ReapFinish due_key (Some (ascii ''000000'')) True))"
    by (simp add: st_def reap_def due_state sample_entry_def)
  show "jobs st = []" using reap_evolves [OF reap] by (simp add: evolves_def due_state)
  show "journal_open st" "map fst (idempotency_guard st) = [due_key]"
    by (simp_all add: st_def reap_def due_state sample_entry_def guard_modify_def)
qed

lemma due_quiet:
  fixes st :: engine
  defines "st \<equiv> reap_finish due_key (Some (ascii ''000000'')) True (fst (reap due_key (guarded_engine 2000)))"
  shows "idempotency_guard st = []" "jobs st = []" "journal_open st"
proof -
  obtain e where "idempotency_guard (fst (reap due_key (guarded_engine 2000))) = [(due_key, e)]"
    using due_reaped(4) by auto
  then show "idempotency_guard st = []" by (simp add: st_def reap_finish_def guard_remove_def)
  show "jobs st = []" "journal_open st"
    using due_reaped(2,3) by (simp_all add: st_def reap_finish_def guard_remove_def nat_remove_def)
qed

text \<open>With an empty guard and no work, waking and the passing of time alternate.\<close>

lemma idle_step:
  assumes "idempotency_guard st = []" and "jobs st = []" and "journal_open st"
  shows "live_step cd h (st\<lparr>clock := clock st + i div 2\<rparr>) (st\<lparr>clock := clock st + Suc i div 2\<rparr>)"
proof -
  let ?a = "st\<lparr>clock := clock st + i div 2\<rparr>" and ?b = "st\<lparr>clock := clock st + Suc i div 2\<rparr>"
  have "engine_step cd h ?a ?b"
  proof (cases "even i")
    case True
    then have b: "?b = add_jobs (map Reap (reaper_scan ?a)) ?a" using assms by (simp add: reaper_scan_def)
    show ?thesis unfolding b by (rule engine_step.reaper_wakes)
  next
    case False
    then have b: "?b = ?a\<lparr>clock := clock ?a + 1\<rparr>" by (simp add: odd_Suc_div_two)
    show ?thesis unfolding b by (rule engine_step.time)
  qed
  then show ?thesis using assms(3) by (simp add: live_step_def)
qed

lemma no_jobs: "jobs st = [] \<Longrightarrow> st\<lparr>jobs := []\<rparr> = (st :: engine)"
  by (rule engine.equality) simp_all

lemma due_serves: "serves cd (Reap due_key) (due_run 1) (due_run 2)"
proof -
  let ?st = "fst (reap due_key (guarded_engine 2000))"
  have "jobs (due_run 1) = [] @ Reap due_key # []" "due_run 1\<lparr>jobs := [] @ []\<rparr> = guarded_engine 2000"
    by (simp_all add: due_run_def due_state Let_def)
  moreover have "job_step cd (Reap due_key) (due_run 1\<lparr>jobs := [] @ []\<rparr>)
      = (?st, Some (ReapFinish due_key (Some (ascii ''000000'')) True))"
    unfolding calculation(2) using due_reaped(1) by simp
  moreover have "due_run 2 = add_jobs (option_list (Some (ReapFinish due_key (Some (ascii ''000000'')) True))) ?st"
    by (simp add: due_run_def Let_def)
  ultimately show ?thesis unfolding serves_def by blast
qed

lemma upto_three:
  fixes n :: nat
  obtains "n = 0" | "n = 1" | "n = 2" | i where "n = 3 + i"
proof -
  have "n < 3 \<or> (\<exists>i. n = 3 + i)" using le_Suc_ex [of 3 n] by (cases "n < 3") auto
  then show thesis using that by (auto simp: numeral_3_eq_3 less_Suc_eq numeral_2_eq_2)
qed

lemma due_run_steps: "run_of (live_step cd h) due_run"
  unfolding run_of_def
proof
  fix n :: nat
  consider "n = 0" | "n = 1" | "n = 2" | i where "n = 3 + i" by (rule upto_three [of n])
  then show "live_step cd h (due_run n) (due_run (Suc n))"
  proof cases
    case 1
    have "engine_step cd h (guarded_engine 2000) (add_jobs (map Reap [due_key]) (guarded_engine 2000))"
      using engine_step.reaper_wakes [of cd h "guarded_engine 2000"] by (simp only: due_state)
    then show ?thesis using 1 by (simp add: due_run_def due_state live_step_def Let_def)
  next
    case 2
    then have "engine_step cd h (due_run n) (due_run (Suc n))"
      using serves_step [OF due_serves] by (simp add: numeral_2_eq_2)
    then show ?thesis using 2 by (simp add: due_run_def due_state due_reaped(3) live_step_def Let_def)
  next
    case 3
    let ?st = "fst (reap due_key (guarded_engine 2000))" and ?j = "ReapFinish due_key (Some (ascii ''000000'')) True"
    have "engine_step cd h (add_jobs [?j] ?st) (add_jobs (option_list None) (reap_finish due_key (Some (ascii ''000000'')) True ?st))"
      by (rule engine_step.work [of _ "[]" ?j "[]"]) (simp_all add: due_reaped(2) no_jobs)
    then show ?thesis using 3 by (simp add: due_run_def due_reaped(2,3) due_quiet no_jobs live_step_def Let_def)
  next
    case (4 i)
    then show ?thesis using idle_step [OF due_quiet, of cd h i] by (simp add: due_run_def Let_def)
  qed
qed

lemma due_run_quiet:
  "idempotency_guard (due_run (3 + i)) = []" "jobs (due_run (3 + i)) = []" "i \<le> clock (due_run (3 + 2 * i))"
  "due_run (Suc (3 + 2 * i)) = due_run (3 + 2 * i)"
  by (simp_all add: due_run_def due_quiet Let_def)

lemma due_run_ingress: "ingress_queue (due_run n) = []"
proof -
  have "ingress_queue (guarded_engine 2000) = []" by (simp add: guarded_engine_def sample_defs)
  then show ?thesis by (simp add: due_run_def reap_finish_def reap_def due_state sample_entry_def send_reversal_def
      guard_modify_def guard_remove_def nat_remove_def respond_def Let_def split: option.splits route_destination.splits)
qed

lemma due_run_jobs:
  "jobs (due_run 0) = []" "jobs (due_run 1) = [Reap due_key]"
  "jobs (due_run 2) = [ReapFinish due_key (Some (ascii ''000000'')) True]"
  by (simp_all add: due_run_def due_state due_reaped(2) Let_def)

lemma nat_in_idle: "(n :: nat) \<le> 3 + 2 * n"
  by simp

lemma due_run_fair: "reaper_runs due_run" "reaps_served cd due_run" "time_passes due_run"
proof -
  have "due_run (Suc (3 + 2 * n)) = add_jobs (map Reap (reaper_scan (due_run (3 + 2 * n)))) (due_run (3 + 2 * n))" for n
    using due_run_quiet(1,2) [of "2 * n"] due_run_quiet(4) [of n] by (simp add: reaper_scan_def)
  then show "reaper_runs due_run" unfolding reaper_runs_def using nat_in_idle by metis
  show "time_passes due_run" unfolding time_passes_def using due_run_quiet(3) by blast
  have "k = due_key \<and> n \<le> 1" if "Reap k \<in> set (jobs (due_run n))" for n k
  proof -
    consider "n = 0" | "n = 1" | "n = 2" | i where "n = 3 + i" by (rule upto_three [of n])
    then show ?thesis using that due_run_jobs due_run_quiet(2) by cases auto
  qed
  then show "reaps_served cd due_run"
    unfolding reaps_served_def using due_serves [of cd] by (metis One_nat_def numeral_2_eq_2)
qed

theorem waiting_terminal_answered_witness:
  "\<exists>m. answered 7 (due_run m)"
proof -
  have start: "due_run 0 = guarded_engine 2000" by (simp add: due_run_def Let_def)
  have "engine_inv (due_run 0)"
    by (simp add: start engine_inv_def held_def due_state)
       (simp add: guarded_engine_def sample_defs sample_entry_def)
  moreover have "entry_of (due_run 0) due_key = Some sample_entry" "list_all (\<lambda>j. \<not> evicts due_key j) (jobs (due_run 0))"
    by (simp_all add: start due_state)
  ultimately show ?thesis
    using waiting_terminal_answered [OF due_run_steps _ due_run_fair, of 0 due_key sample_entry 7] due_run_ingress
    by (auto simp: sample_entry_def)
qed

text \<open>
  C10. Every terminal sees the same simple protocol, whatever the threads do. From the start of the
  engine, a terminal is unknown until its request arrives, then pending; a pending request is
  served one answer, whose MTI is that of a response, or dropped; and a served answer is final.
\<close>

theorem terminal_protocol:
  assumes "(engine_step cd h)\<^sup>*\<^sup>* (engine_start db timeout threads) st" and "(engine_step cd h)\<^sup>*\<^sup>* st st'"
  shows "desk_step\<^sup>*\<^sup>* Unknown (desk_of r st) \<and> desk_step\<^sup>*\<^sup>* (desk_of r st) (desk_of r st') \<and>
    (\<forall>e. desk_of r st = Served e \<longrightarrow> desk_of r st' = Served e) \<and>
    (engine_step cd h st st' \<longrightarrow> desk_of r st' = desk_of r st \<or> desk_step (desk_of r st) (desk_of r st'))"
proof -
  have start: "desk_of r (engine_start db timeout threads) = Unknown"
    by (simp add: desk_of_def held_def engine_start_def)
  have inv: "engine_inv st" using assms(1) by (rule reachable_inv)
  have "desk_step\<^sup>*\<^sup>* Unknown (desk_of r st)" "desk_step\<^sup>*\<^sup>* (desk_of r st) (desk_of r st')"
    using desk.reaches [OF assms(1) engine_start_inv, of r] desk.reaches [OF assms(2) inv, of r] start by simp_all
  then show ?thesis using served_final desk_follows [OF inv] by metis
qed

theorem terminal_protocol_witness:
  "desk_step\<^sup>*\<^sup>* Unknown (desk_of 7 ((engine_start Map.empty 1500 4)\<lparr>ingress_queue := [sample_context]\<rparr>)) \<and>
    desk_of 7 ((engine_start Map.empty 1500 4)\<lparr>ingress_queue := [sample_context]\<rparr>) = Pending"
proof -
  let ?st = "engine_start Map.empty 1500 4"
  have "engine_step cd h ?st (?st\<lparr>ingress_queue := ingress_queue ?st @ [sample_context]\<rparr>)" for cd h
    by (rule engine_step.arrive) (simp add: held_def engine_start_def sample_context_def)
  then have "(engine_step cd h)\<^sup>*\<^sup>* ?st (?st\<lparr>ingress_queue := [sample_context]\<rparr>)" for cd h
    by (simp add: engine_start_def r_into_rtranclp)
  from terminal_protocol [OF this rtranclp.rtrancl_refl, of 7]
  have "desk_step\<^sup>*\<^sup>* Unknown (desk_of 7 (?st\<lparr>ingress_queue := [sample_context]\<rparr>))" by blast
  then show ?thesis by (simp add: desk_of_def held_def engine_start_def sample_context_def)
qed

text \<open>
  C27. A stale eviction loses a terminal. When the bank's reply to an expired transaction is taken
  between the two halves of its reaping, the reply worker and the reaper each go on to remove the
  entry. If the terminal, told of the timeout, repeats the request between the two removals, the
  second one removes the repeated request: its responder is gone, the terminal pending a moment
  ago is unknown, and no thread has failed.
\<close>

theorem stale_eviction_loses_terminal:
  assumes "engine_inv st" and "jobs st = []" and "bank_replies st = []" and "ingress_queue st = []" and "0 < workers st"
    and "entry_of st k = Some en" and "expired st en" and "reaper_scan st = [k]"
    and "snd (bank_reply_key reply st) = k"
    and "clears_screening st ctx tx" and "context_key ctx = k" and "ctx_responder ctx = Some r" and "r \<notin># held st"
  shows "\<exists>st1 st2. (engine_step cd h)\<^sup>*\<^sup>* st st1 \<and> desk_of r st1 = Pending \<and> engine_step cd h st1 st2 \<and>
    desk_of r st2 = Unknown \<and> entry_of st2 k = None \<and> workers st2 = workers st"
proof -
  obtain st0 nat where run: "(engine_step cd h)\<^sup>*\<^sup>* st (st0\<lparr>jobs := [Evict k]\<rparr>)"
    and st0: "entry_of st0 k = None" "ingress_queue st0 = []" "workers st0 = workers st"
      "compliance_cache st0 = compliance_cache st" "memory_state st0 = (memory_state st)\<lparr>stan_nat := nat\<rparr>"
      "held st0 \<subseteq># held st"
    using race_to_evict [OF assms(6,7,8,2,3,9)] assms(1,4) unfolding engine_inv_def by metis
  have clear: "clears_screening st0 ctx tx"
    using assms(10) st0(4,5) by (simp add: clears_screening_def)
  let ?a = "st0\<lparr>jobs := [Evict k]\<rparr>" and ?en = "\<lparr>created_at = clock st0, at_state = UpstreamSent,
    at_responder = Some r, transaction_data = to_pb tx, egress_stan = None\<rparr>"
  let ?j = "Dispatch k (ctx\<lparr>ctx_transaction := tx, ctx_responder := None\<rparr>)"
  let ?core = "st0\<lparr>idempotency_guard := (k, ?en) # idempotency_guard st0\<rparr>"
  have fresh: "r \<notin># held ?a" using assms(13) st0(6) by (auto dest: mset_subset_eqD)
  have "(engine_step cd h)\<^sup>*\<^sup>* st (st0\<lparr>jobs := [Evict k], ingress_queue := [ctx]\<rparr>)"
    using run engine_step.arrive [of ctx ?a cd h] fresh assms(12) st0(2) by (simp add: rtranclp.rtrancl_into_rtrancl)
  also have "engine_step cd h \<dots> (?core\<lparr>jobs := [] @ Evict k # [?j]\<rparr>)"
    using ingest_step [OF clear, of cd h "[Evict k]"] st0 assms(5,11,12) by simp
  finally have pending: "(engine_step cd h)\<^sup>*\<^sup>* st (?core\<lparr>jobs := [] @ Evict k # [?j]\<rparr>)" .
  have lost: "engine_step cd h (?core\<lparr>jobs := [] @ Evict k # [?j]\<rparr>) ((guard_remove k ?core)\<lparr>jobs := [?j]\<rparr>)"
    using work_step [of cd "Evict k" ?core "guard_remove k ?core" None h "[]" "[?j]"] by simp
  have "r \<notin># held st0" using fresh by simp
  then have "desk_of r (?core\<lparr>jobs := [] @ Evict k # [?j]\<rparr>) = Pending"
    and "desk_of r ((guard_remove k ?core)\<lparr>jobs := [?j]\<rparr>) = Unknown"
    using st0(1) answered_held [of r st0]
    by (auto simp: desk_of_def held_def guard_remove_def answered_def delete_absent map_of_eq_None_iff split: option.splits)
  moreover have "entry_of ((guard_remove k ?core)\<lparr>jobs := [?j]\<rparr>) k = None"
    and "workers ((guard_remove k ?core)\<lparr>jobs := [?j]\<rparr>) = workers st"
    using st0(3) by (simp_all add: guard_remove_def delete_conv')
  ultimately show ?thesis using pending lost by blast
qed

definition silent_hsm :: hsm where
  "silent_hsm = \<lparr>verify_mac = (\<lambda>_ _. Err ()), verify_pin = (\<lambda>_ _ _. Err ()), translate_pin = (\<lambda>_ _. Err ())\<rparr>"

theorem stale_eviction_loses_terminal_witness:
  "\<exists>st1 st2. (engine_step sample_codec silent_hsm)\<^sup>*\<^sup>* ((guarded_engine 2000)\<lparr>memory_state := (memory_state (guarded_engine 2000))
      \<lparr>stan_nat := [ascii ''000000'' \<mapsto> stan sample_event]\<rparr>\<rparr>) st1 \<and>
    desk_of 8 st1 = Pending \<and> engine_step sample_codec silent_hsm st1 st2 \<and> desk_of 8 st2 = Unknown"
proof -
  let ?st = "(guarded_engine 2000)\<lparr>memory_state := (memory_state (guarded_engine 2000))
      \<lparr>stan_nat := [ascii ''000000'' \<mapsto> stan sample_event]\<rparr>\<rparr>"
  let ?ctx = "sample_context\<lparr>ctx_responder := Some 8\<rparr>"
  have frame: "idempotency_guard ?st = [(due_key, sample_entry)]" "jobs ?st = []" "answers ?st = []"
    "reaper_scan ?st = [due_key]" "ingress_queue ?st = []" "bank_replies ?st = []" "hsm_queue ?st = []" "workers ?st = 4"
    using due_state by (simp_all add: reaper_scan_def expired_def) (simp_all add: guarded_engine_def sample_defs)
  have inv: "engine_inv ?st" and fresh: "8 \<notin># held ?st"
    by (simp_all add: engine_inv_def held_def frame sample_entry_def)
  have due: "entry_of ?st due_key = Some sample_entry" "expired ?st sample_entry"
    by (simp_all add: frame) (simp add: expired_def sample_entry_def guarded_engine_def sample_defs)
  have key: "snd (bank_reply_key sample_reply ?st) = due_key"
    by (simp add: bank_reply_key_def sample_reply_def due_key_def context_key_def sample_context_def to_pb_def Let_def)
  have "clears_screening (guarded_engine 2000) sample_context sample_event"
    using sample_clears by (simp add: clears_screening_def guarded_engine_def)
  then have clear: "clears_screening ?st ?ctx sample_event"
    by (simp add: clears_screening_def compliance_evaluate_def)
  have "context_key ?ctx = due_key" "ctx_responder ?ctx = Some 8" by (simp_all add: due_key_def context_key_def)
  then show ?thesis
    using stale_eviction_loses_terminal [OF inv frame(2,6,5) _ due frame(4) key clear _ _ fresh, of sample_codec silent_hsm]
      frame(8) by auto
qed

end
