(* ===== verification/Pin_Flow.thy ===== *)
theory Pin_Flow
  imports Engine_Properties Hsm_Client Edge
begin

text \<open>
  Transactions with a PIN: the engine's HSM worker on top of the HSM client and an HSM. What the
  worker needs of the service is the locale \<open>pin_service\<close>; the client talking to the mock HSM
  provides it. Such a transaction is forwarded under the terminal's own STAN, past the STAN
  translation of the others.
\<close>

section \<open>A request over the client\<close>

text \<open>
  A whole client method for receiver 0: register and queue the command, let the service answer it
  or not, hand the answer to the receiver under its header, and finish.
\<close>

definition hsm_call ::
  "(thales_message \<Rightarrow> thales_message option) \<Rightarrow> (hsm_client \<Rightarrow> (hsm_error, rstring) outcome \<times> hsm_client)
    \<Rightarrow> (rstring \<Rightarrow> wait_result \<Rightarrow> hsm_client \<Rightarrow> (hsm_error, 'a) outcome \<times> hsm_client)
    \<Rightarrow> hsm_client \<Rightarrow> (unit, 'a) outcome" where
  "hsm_call serve send finish c =
     (case send c of
        (Ok hdr, c1) \<Rightarrow>
          let (w, c2) = (case serve (last (outbox c1)) of
                None \<Rightarrow> (TimedOut, c1)
              | Some resp \<Rightarrow> (if correlation_map c1 (header resp) = Some 0 then Response resp else TimedOut,
                              read_response resp c1))
          in (case fst (finish hdr w c2) of Ok a \<Rightarrow> Ok a | Err _ \<Rightarrow> Err () | Panic \<Rightarrow> Panic)
      | (Err _, c1) \<Rightarrow> Err ()
      | (Panic, c1) \<Rightarrow> Panic)"

definition hsm_of :: "(thales_message \<Rightarrow> thales_message option) \<Rightarrow> hsm_client \<Rightarrow> hsm" where
  "hsm_of serve c =
     \<lparr> verify_mac = (\<lambda>mac pan. hsm_call serve (send_verify_mac 0 mac pan) finish_verify_mac c),
       verify_pin = (\<lambda>pin pan pvv. hsm_call serve (send_verify_pin 0 pin pan pvv) finish_verify_pin c),
       translate_pin = (\<lambda>pin pan. hsm_call serve (send_translate_pin 0 pin pan) finish_translate_pin c) \<rparr>"

text \<open>The mock HSM; a panic there ends the connection without an answer.\<close>

definition serve_mock :: "thales_message \<Rightarrow> thales_message option" where
  "serve_mock msg = (case process_hsm_command msg of Ok resp \<Rightarrow> Some resp | _ \<Rightarrow> None)"

section \<open>The contract of the HSM\<close>

locale pin_service =
  fixes h :: hsm and f :: "rstring \<Rightarrow> rstring"
  assumes translates: "is_ascii pin \<Longrightarrow> length pin = 16 \<Longrightarrow> is_ascii pan \<Longrightarrow> 13 \<le> length pan \<Longrightarrow>
      translate_pin h pin pan = Ok (f pin)"
    and translated_ascii: "is_ascii pin \<Longrightarrow> is_ascii (f pin)"
    and translated_length: "length (f pin) = length pin"
begin

lemma process_forwards:
  fixes ctx :: transaction_context
  defines "tx \<equiv> ctx_transaction ctx"
  defines "sent \<equiv> ctx\<lparr>ctx_transaction := tx\<lparr>pin_block := f (pin_block tx)\<rparr>\<rparr>"
  assumes "trie_find (router (memory_state st)) (fpan tx) = Some rt" and "destination rt = ExternalNode n"
    and "select_node (memory_state st) n (failover_node rt) = Some ch" and "connected (channels st ch)"
    and "journal_open st" and "mac_data tx = None"
    and "is_ascii (fpan tx)" and "13 \<le> length (fpan tx)" and "is_ascii (pin_block tx)" and "length (pin_block tx) = 16"
  shows "hsm_process h ctx st = st\<lparr>journal := journal st @ [to_pb (ctx_transaction sent)],
    channels := (channels st)(ch := (channels st ch)\<lparr>queue := queue (channels st ch) @ [sent]\<rparr>)\<rparr>"
proof -
  have "from_utf8_lossy (fpan tx) = fpan tx" "from_utf8_lossy (pin_block tx) = pin_block tx" "pin_block tx \<noteq> []"
    using assms(9,11,12) by (auto simp: valid_utf8_ascii)
  then have "hsm_check h (memory_state st) tx = Ok (True, tx\<lparr>pin_block := f (pin_block tx)\<rparr>, Some ch)"
    using assms(3-5,8) translates [OF assms(11,12,9,10)]
    by (simp add: hsm_check_def hsm_external_def mac_valid_def Let_def)
  then show ?thesis
    using assms(6,7)
    by (simp add: hsm_process_def tx_def [symmetric] journal_append_def send_blocking_def sent_def)
qed

end

lemma mock_call:
  assumes "dispatch_request 0 cmd pan build c = (Ok hdr, c1)" and "process_hsm_command (last (outbox c1)) = Ok resp"
    and "header resp = hdr"
  shows "hsm_call serve_mock (dispatch_request 0 cmd pan build) finish c =
    (case fst (finish hdr (Response resp) (read_response resp c1)) of Ok a \<Rightarrow> Ok a | Err _ \<Rightarrow> Err () | Panic \<Rightarrow> Panic)"
proof -
  have "correlation_map c1 hdr = Some 0"
    using assms(1) by (auto simp: dispatch_request_def next_header_def Let_def split: outcome.splits if_splits)
  then show ?thesis using assms by (simp add: hsm_call_def serve_mock_def)
qed

lemma mock_translates:
  assumes "is_ascii pin" and "length pin = 16" and "is_ascii pan" and "13 \<le> length pan" and "outbox_open c"
  shows "translate_pin (hsm_of serve_mock c) pin pan = Ok (rev pin)"
proof -
  obtain fp where fp: "formatted_pan pan = Ok fp" "length fp = 12" "is_ascii fp"
    using formatted_pan_ascii [OF assms(3,4)] by blast
  let ?hdr = "format_padded 4 (unat (counter c) mod 10000)"
  let ?c1 = "snd (dispatch_request 0 (ascii ''CA'') pan (translate_pin_payload pin) c)"
  let ?resp = "\<lparr>header = ?hdr, command = ascii ''CB'', payload = ascii ''00'' @ rev pin\<rparr>"
  have "dispatch_request 0 (ascii ''CA'') pan (translate_pin_payload pin) c = (Ok ?hdr, ?c1)"
    "last (outbox ?c1) = \<lparr>header = ?hdr, command = ascii ''CA'', payload = translate_pin_payload pin fp\<rparr>"
    by (simp_all add: dispatched [OF fp(1) assms(5)] Let_def)
  moreover have "fst (finish_translate_pin hdr (Response ?resp) c2) = Ok (rev pin)" for hdr c2
    using translated_payload [OF assms(1)] by (simp add: finish_translate_pin_def ascii_lengths)
  ultimately show ?thesis
    using mock_call [of "ascii ''CA''" pan "translate_pin_payload pin" c ?hdr ?c1 ?resp finish_translate_pin]
      translate_command_answer [OF assms(1,2) fp(3), of ?hdr]
    by (simp add: hsm_of_def send_translate_pin_def)
qed

interpretation mock: pin_service "hsm_of serve_mock hsm_connect" rev
  by unfold_locales (auto simp: mock_translates hsm_connect_def list_all_iff)

section \<open>A transaction with a PIN\<close>

definition pin_guarded :: "transaction_context \<Rightarrow> event \<Rightarrow> engine \<Rightarrow> engine" where
  "pin_guarded ctx tx st =
     st\<lparr>idempotency_guard := (context_key ctx, \<lparr>created_at = clock st, at_state = UpstreamSent,
          at_responder = ctx_responder ctx, transaction_data = to_pb tx, egress_stan = None\<rparr>) # idempotency_guard st,
        hsm_queue := hsm_queue st @ [\<lparr>ctx_transaction = tx, ctx_responder = None\<rparr>]\<rparr>"

lemma process_pin:
  assumes "clears_screening st ctx tx" and "entry_of st (context_key ctx) = None" and "pin_block tx \<noteq> []"
  shows "process_transaction cd ctx st = pin_guarded ctx tx st"
  using assms
  by (simp add: process_transaction_def admit_clear guard_or_duplicate_def run_job_simps dispatch_def
      pin_guarded_def Let_def)

lemma exact_pin:
  assumes "exact_event tx" and "length p = 16"
  shows "exact_event (tx\<lparr>pin_block := p\<rparr>)"
proof -
  have "wire_exact tx" "off_wire_blank tx" using assms(1) by (simp_all add: exact_event_def)
  then have "wire_exact (tx\<lparr>pin_block := p\<rparr>)" and "off_wire_blank (tx\<lparr>pin_block := p\<rparr>)"
    using assms(2)
    by (simp_all add: wire_exact_def wire_wf_def lengths_wf_def off_wire_blank_def split: option.splits)
  then show ?thesis using assms(1) by (simp add: exact_event_def)
qed

lemma pin_reply_key:
  assumes "clears_screening st ctx tx" and "stan_nat (memory_state st') (stan tx) = None"
    and "pb_stan reply = stan tx" and "pb_rrn reply = rrn tx" and "pb_acquirer_id reply = from_utf8_lossy (acquirer_id tx)"
  shows "snd (bank_reply_key reply st') = context_key ctx"
proof -
  have "rrn tx = rrn (ctx_transaction ctx)" "stan tx = stan (ctx_transaction ctx)"
    "acquirer_id tx = acquirer_id (ctx_transaction ctx)"
    using assms(1) tsp_intercept_keeps by (auto simp: clears_screening_def)
  then show ?thesis using assms(2-5) by (simp add: bank_reply_key_def context_key_def Let_def)
qed

section \<open>Properties\<close>

text \<open>
  C14. A transaction with a PIN end to end. Guarded by the ingress worker, its PIN block translated
  by the HSM over the client, forwarded to the routed node, decided by the bank and read back, it
  ends in one answer to its terminal with the bank's decision. The bank receives the translated
  PIN block, never the terminal's own, and the STAN is the terminal's at both ends, because this
  path skips the STAN translation; it must therefore not be an egress STAN in use.
\<close>

theorem pin_authorization_end_to_end:
  assumes "clears_screening st ctx tx" and "entry_of st (context_key ctx) = None" and "hsm_queue st = []"
    and "journal_open st" and "ctx_responder ctx = Some r"
    and "exact_event tx" and "mti tx = ascii ''0100''"
    and "is_ascii (fpan tx)" and "13 \<le> length (fpan tx)" and "is_ascii (pin_block tx)" and "length (pin_block tx) = 16"
    and "trie_find (router (memory_state st)) (fpan tx) = Some rt" and "destination rt = ExternalNode n"
    and "select_node (memory_state st) n (failover_node rt) = Some ch" and "connected (channels st ch)"
    and "stan_nat (memory_state st) (stan tx) = None"
  shows "\<exists>ctx' st2 sent msg reply answer.
    hsm_queue (process_transaction cd ctx st) = [ctx'] \<and>
    st2 = hsm_process (hsm_of serve_mock hsm_connect) ctx' ((process_transaction cd ctx st)\<lparr>hsm_queue := []\<rparr>) \<and>
    queue (channels st2 ch) = queue (channels st ch) @ [sent] \<and>
    pin_block (ctx_transaction sent) = rev (pin_block tx) \<and> stan (ctx_transaction sent) = stan tx \<and>
    bank_receive Connex (egress_encode (ctx_transaction sent)) = Ok (Some msg) \<and>
    egress_read msg = Ok (Some reply) \<and>
    answers (process_bank_reply cd reply st2) = answers st @ [(r, answer)] \<and>
    mti answer = ascii ''0110'' \<and> stan answer = stan tx \<and> rrn answer = rrn tx \<and>
    response_code answer = (if amount tx > 50000 then ascii ''51''
      else if ends_with (fpan tx) (ascii ''9999'') then ascii ''59'' else ascii ''00'')"
proof -
  let ?ctx = "\<lparr>ctx_transaction = tx, ctx_responder = None\<rparr> :: transaction_context"
  let ?st1 = "(pin_guarded ctx tx st)\<lparr>hsm_queue := []\<rparr>"
  let ?sent = "tx\<lparr>pin_block := rev (pin_block tx)\<rparr>"
  let ?st2 = "hsm_process (hsm_of serve_mock hsm_connect) ?ctx ?st1"
  have "pin_block tx \<noteq> []" using assms(11) by auto
  then have run: "process_transaction cd ctx st = pin_guarded ctx tx st" by (rule process_pin [OF assms(1,2)])
  have "mac_data tx = None" using assms(6) by (simp add: exact_event_def off_wire_blank_def)
  then have hsm: "?st2 = ?st1\<lparr>journal := journal st @ [to_pb ?sent],
      channels := (channels st)(ch := (channels st ch)\<lparr>queue := queue (channels st ch) @ [?ctx\<lparr>ctx_transaction := ?sent\<rparr>]\<rparr>)\<rparr>"
    using assms(4,8-15)
    by (subst mock.process_forwards [where rt = rt and n = n and ch = ch]) (simp_all add: pin_guarded_def)
  have "exact_event ?sent" "mti ?sent = ascii ''0100''" using exact_pin [OF assms(6)] assms(7,11) by simp_all
  then obtain msg where msg: "bank_receive Connex (egress_encode ?sent) = Ok (Some msg)"
    "egress_read msg = Ok (Some (to_pb (?sent\<lparr>mti := ascii ''0110'', response_code := bank_verdict ?sent\<rparr>)))"
    using bank_exchange by blast
  let ?reply = "to_pb (?sent\<lparr>mti := ascii ''0110'', response_code := bank_verdict ?sent\<rparr>)"
  let ?en = "\<lparr>created_at = clock st, at_state = UpstreamSent, at_responder = Some r,
    transaction_data = to_pb tx, egress_stan = None\<rparr>"
  have st2: "memory_state ?st2 = memory_state st" "answers ?st2 = answers st" "journal_open ?st2"
    "entry_of ?st2 (context_key ctx) = Some ?en"
    unfolding hsm using assms(4,5) by (simp_all add: pin_guarded_def)
  have key: "snd (bank_reply_key ?reply ?st2) = context_key ctx"
    by (rule pin_reply_key [OF assms(1)]) (simp_all only: st2(1) assms(16), simp_all add: to_pb_def)
  have answered: "answers (process_bank_reply cd ?reply ?st2) = answers st @ [(r, approval_of ?reply)]"
    using process_bank_reply_delivered(1) [OF key st2(4) _ st2(3), of cd] by (simp only: st2(2)) simp
  have "hsm_queue (process_transaction cd ctx st) = [?ctx]" using assms(3) by (simp add: run pin_guarded_def)
  moreover have "queue (channels ?st2 ch) = queue (channels st ch) @ [?ctx\<lparr>ctx_transaction := ?sent\<rparr>]" by (simp add: hsm)
  moreover have "mti (approval_of ?reply) = ascii ''0110'' \<and> stan (approval_of ?reply) = stan tx \<and>
      rrn (approval_of ?reply) = rrn tx \<and> response_code (approval_of ?reply) = (if amount tx > 50000 then ascii ''51''
      else if ends_with (fpan tx) (ascii ''9999'') then ascii ''59'' else ascii ''00'')"
    by (simp add: approval_of_def from_pb_def to_pb_def bank_verdict_def)
  ultimately show ?thesis
    using msg answered unfolding run
    by (intro exI [of _ ?ctx] exI [of _ ?st2] exI [of _ "?ctx\<lparr>ctx_transaction := ?sent\<rparr>"] exI [of _ msg]
        exI [of _ ?reply] exI [of _ "approval_of ?reply"]) simp
qed

definition pin_payment :: event where
  "pin_payment = sample_event\<lparr>fpan := ascii ''4111111111111111'', pin_block := ascii ''1234567890ABCDEF''\<rparr>"

lemma pin_payment_exact: "exact_event pin_payment" "mti pin_payment = ascii ''0100''"
  by (simp_all add: exact_event_def wire_exact_def wire_wf_def lengths_wf_def off_wire_blank_def fits_def
      pin_payment_def sample_event_def blank_event_def class_of_mti_def reversal_mti_def ascii_def valid_utf8_ascii)

lemma pin_payment_ascii:
  "is_ascii (fpan pin_payment)" "13 \<le> length (fpan pin_payment)"
  "is_ascii (pin_block pin_payment)" "length (pin_block pin_payment) = 16"
  by (simp_all add: pin_payment_def ascii_def)

theorem pin_authorization_end_to_end_witness:
  "\<exists>ctx' st2 reply answer.
    hsm_queue (process_transaction sample_codec \<lparr>ctx_transaction = pin_payment, ctx_responder = Some 7\<rparr> sample_engine) = [ctx'] \<and>
    answers (process_bank_reply sample_codec reply st2) = [(7, answer)] \<and>
    response_code answer = ascii ''00'' \<and> stan answer = ascii ''123456''"
proof -
  let ?ctx = "\<lparr>ctx_transaction = pin_payment, ctx_responder = Some 7\<rparr> :: transaction_context"
  have clears: "clears_screening sample_engine ?ctx pin_payment"
    by (simp add: clears_screening_def sample_defs pin_payment_def compliance_evaluate_def ascii_def valid_utf8_ascii
        tsp_intercept_def risk_declined_def str_slice_def is_char_boundary_def is_cont_def)
  have "\<exists>rt. trie_find (router (memory_state sample_engine)) (fpan pin_payment) = Some rt \<and>
      destination rt = ExternalNode (ascii ''MockVisaNode'') \<and>
      select_node (memory_state sample_engine) (ascii ''MockVisaNode'') (failover_node rt) = Some 0"
    by (simp add: sample_defs pin_payment_def trie_find_compiled rows_map_def row_route_def
        row_destination_def ascii_def select_node_def is_online_def)
  then obtain rt where rt: "trie_find (router (memory_state sample_engine)) (fpan pin_payment) = Some rt"
      "destination rt = ExternalNode (ascii ''MockVisaNode'')"
      "select_node (memory_state sample_engine) (ascii ''MockVisaNode'') (failover_node rt) = Some 0" by blast
  have state: "entry_of sample_engine (context_key ?ctx) = None" "hsm_queue sample_engine = []" "journal_open sample_engine"
    "connected (channels sample_engine 0)" "stan_nat (memory_state sample_engine) (stan pin_payment) = None"
    "answers sample_engine = []" "ctx_responder ?ctx = Some 7"
    by (simp_all add: sample_defs)
  have "\<not> amount pin_payment > 50000" "\<not> ends_with (fpan pin_payment) (ascii ''9999'')" "stan pin_payment = ascii ''123456''"
    by (simp_all add: pin_payment_def sample_event_def blank_event_def ends_with_def ascii_def)
  then show ?thesis
    using pin_authorization_end_to_end [OF clears state(1-3,7) pin_payment_exact pin_payment_ascii rt state(4,5), of sample_codec]
      state(6) by auto
qed

text \<open>A reply whose key has no guard entry only consumes the translation of its STAN.\<close>

lemma reply_without_entry:
  assumes "snd (bank_reply_key reply st) = key" and "entry_of st key = None"
  shows "process_bank_reply cd reply st = nat_remove (pb_stan reply) st"
  using assms
  by (auto simp: process_bank_reply_def bank_reply_key_def run_job_simps bank_reply_def Let_def)

text \<open>A transaction with a PIN through both workers that handle it.\<close>

definition pin_run :: "codec \<Rightarrow> transaction_context \<Rightarrow> engine \<Rightarrow> engine" where
  "pin_run cd ctx st =
     (let st1 = process_transaction cd ctx st in
      case hsm_queue st1 of
        [] \<Rightarrow> st1
      | c # rest \<Rightarrow> hsm_process (hsm_of serve_mock hsm_connect) c (st1\<lparr>hsm_queue := rest\<rparr>))"

definition reply_to :: "transaction \<Rightarrow> event \<Rightarrow> bool" where
  "reply_to reply tx \<longleftrightarrow> pb_stan reply = stan tx \<and> pb_rrn reply = rrn tx \<and>
     pb_acquirer_id reply = from_utf8_lossy (acquirer_id tx)"

definition held_for :: "engine \<Rightarrow> transaction_context \<Rightarrow> bool" where
  "held_for st ctx \<longleftrightarrow> map_option at_responder (entry_of st (context_key ctx)) = Some (ctx_responder ctx)"

lemma clears_forwarded: "clears_screening (forwarded ctx tx ch c st) = clears_screening st"
  by (simp add: fun_eq_iff clears_screening_def forwarded_def translated_def tsp_intercept_def Let_def)

lemma pin_run_forwards:
  assumes "clears_screening st ctx tx" and "entry_of st (context_key ctx) = None" and "hsm_queue st = []"
    and "journal_open st" and "mac_data tx = None"
    and "is_ascii (fpan tx)" and "13 \<le> length (fpan tx)" and "is_ascii (pin_block tx)" and "length (pin_block tx) = 16"
    and "trie_find (router (memory_state st)) (fpan tx) = Some rt" and "destination rt = ExternalNode n"
    and "select_node (memory_state st) n (failover_node rt) = Some ch" and "connected (channels st ch)"
  shows "pin_run cd ctx st = (pin_guarded ctx tx st)\<lparr>hsm_queue := [],
    journal := journal st @ [to_pb (tx\<lparr>pin_block := rev (pin_block tx)\<rparr>)],
    channels := (channels st)(ch := (channels st ch)\<lparr>queue := queue (channels st ch)
      @ [\<lparr>ctx_transaction = tx\<lparr>pin_block := rev (pin_block tx)\<rparr>, ctx_responder = None\<rparr>]\<rparr>)\<rparr>"
proof -
  let ?ctx = "\<lparr>ctx_transaction = tx, ctx_responder = None\<rparr> :: transaction_context"
  let ?st = "(pin_guarded ctx tx st)\<lparr>hsm_queue := []\<rparr>"
  have "pin_block tx \<noteq> []" using assms(9) by auto
  then have "process_transaction cd ctx st = pin_guarded ctx tx st" by (rule process_pin [OF assms(1,2)])
  moreover have "hsm_queue (pin_guarded ctx tx st) = [?ctx]" using assms(3) by (simp add: pin_guarded_def)
  ultimately have "pin_run cd ctx st = hsm_process (hsm_of serve_mock hsm_connect) ?ctx ?st"
    by (simp add: pin_run_def)
  also have "\<dots> = ?st\<lparr>journal := journal st @ [to_pb (tx\<lparr>pin_block := rev (pin_block tx)\<rparr>)],
    channels := (channels st)(ch := (channels st ch)\<lparr>queue := queue (channels st ch)
      @ [?ctx\<lparr>ctx_transaction := tx\<lparr>pin_block := rev (pin_block tx)\<rparr>\<rparr>]\<rparr>)\<rparr>"
    using assms(4-13)
    by (subst mock.process_forwards [where rt = rt and n = n and ch = ch]) (simp_all add: pin_guarded_def)
  finally show ?thesis by simp
qed

lemma select_node_nat:
  "select_node (g\<lparr>stan_counter := c, stan_nat := m\<rparr>) node failover = select_node g node failover"
proof -
  have "is_online (g\<lparr>stan_counter := c, stan_nat := m\<rparr>) = is_online g"
    by (simp add: fun_eq_iff is_online_def)
  then show ?thesis by (auto simp: select_node_def split: option.splits)
qed

lemma collision_replies:
  assumes "stan_nat (memory_state st) es = Some s" and "pb_stan reply1 = es" and "pb_stan reply2 = es"
    and "entry_of st (guard_key (pb_rrn reply1) es (pb_acquirer_id reply1)) = None"
    and "entry_of st (guard_key (pb_rrn reply2) s (pb_acquirer_id reply2)) = None"
  shows "process_bank_reply cd reply1 (process_bank_reply cd reply2 st) = nat_remove es st"
proof -
  have "process_bank_reply cd reply2 st = nat_remove es st"
    using reply_without_entry [of reply2 st] assms(1,3,5) by (simp add: bank_reply_key_def Let_def)
  moreover have "process_bank_reply cd reply1 (nat_remove es st) = nat_remove es (nat_remove es st)"
    using reply_without_entry [of reply1 "nat_remove es st"] assms(2,4) by (simp add: bank_reply_key_def Let_def)
  ultimately show ?thesis by (simp add: nat_remove_def)
qed

text \<open>
  C28. A terminal's STAN that equals an egress STAN in use loses two answers. A transaction without
  a PIN is forwarded under an egress STAN. A second one, with a PIN and with that very STAN from its
  own terminal, goes through the ingress worker and the HSM worker, which forwards it under the
  terminal's STAN untranslated: the banks hold two requests with one STAN. The reply to the second is
  looked up under the first's ingress STAN, finds no entry, and uses up the translation, so that the
  reply to the first finds no entry either. Nothing is answered or journaled, and both responders
  stay in the guard. (The two wrong keys must not belong to further transactions.)
\<close>

theorem stan_collision_loses_replies:
  assumes "clears_screening st ctx1 tx1" and "entry_of st (context_key ctx1) = None"
    and "pin_block tx1 = []" and "mac_data tx1 = None" and "journal_open st"
    and "select_egress (memory_state st) tx1 = Some ch1"
    and "try_send (outbound st tx1) (channels st ch1) = Some c1"
    and "clears_screening st ctx2 tx2" and "stan tx2 = next_egress_stan (memory_state st)"
    and "entry_of st (context_key ctx2) = None" and "context_key ctx2 \<noteq> context_key ctx1" and "hsm_queue st = []"
    and "mac_data tx2 = None" and "is_ascii (fpan tx2)" and "13 \<le> length (fpan tx2)"
    and "is_ascii (pin_block tx2)" and "length (pin_block tx2) = 16"
    and "trie_find (router (memory_state st)) (fpan tx2) = Some rt" and "destination rt = ExternalNode n"
    and "select_node (memory_state st) n (failover_node rt) = Some ch2" and "connected (channels st ch2)"
    and "reply_to reply1 (tx1\<lparr>stan := stan tx2\<rparr>)" and "reply_to reply2 tx2"
    and "wrong1 = guard_key (rrn tx1) (stan tx2) (from_utf8_lossy (acquirer_id tx1))"
    and "wrong2 = guard_key (rrn tx2) (stan tx1) (from_utf8_lossy (acquirer_id tx2))"
    and "{wrong1, wrong2} \<inter> {context_key ctx1, context_key ctx2} = {}"
    and "entry_of st wrong1 = None" and "entry_of st wrong2 = None"
  shows "let st1 = process_transaction cd ctx1 st; st2 = pin_run cd ctx2 st1;
      st' = process_bank_reply cd reply1 (process_bank_reply cd reply2 st2) in
    (\<exists>sent. queue (channels st1 ch1) = queue (channels st ch1) @ [sent] \<and> stan (ctx_transaction sent) = stan tx2) \<and>
    (\<exists>sent. queue (channels st2 ch2) = queue (channels st1 ch2) @ [sent] \<and> stan (ctx_transaction sent) = stan tx2) \<and>
    answers st' = answers st \<and> journal st' = journal st2 \<and> held_for st' ctx1 \<and> held_for st' ctx2"
proof -
  let ?es = "next_egress_stan (memory_state st)" and ?st1 = "forwarded ctx1 tx1 ch1 c1 st"
  let ?sent = "\<lparr>ctx_transaction = tx2\<lparr>pin_block := rev (pin_block tx2)\<rparr>, ctx_responder = None\<rparr> :: transaction_context"
  let ?st2 = "(pin_guarded ctx2 tx2 ?st1)\<lparr>hsm_queue := [],
    journal := journal ?st1 @ [to_pb (tx2\<lparr>pin_block := rev (pin_block tx2)\<rparr>)],
    channels := (channels ?st1)(ch2 := (channels ?st1 ch2)\<lparr>queue := queue (channels ?st1 ch2) @ [?sent]\<rparr>)\<rparr>"
  have run1: "process_transaction cd ctx1 st = ?st1" using assms(1-7) by (rule process_forwarded)
  have st1: "memory_state ?st1 = (memory_state st)\<lparr>stan_counter := stan_counter (memory_state st) + 1,
      stan_nat := (stan_nat (memory_state st))(?es \<mapsto> stan tx1)\<rparr>"
    "hsm_queue ?st1 = hsm_queue st" "journal_open ?st1 = journal_open st" "answers ?st1 = answers st"
    "channels ?st1 = (channels st)(ch1 := c1)"
    "entry_of ?st1 k = (if k = context_key ctx1 then Some \<lparr>created_at = clock st, at_state = UpstreamSent,
       at_responder = ctx_responder ctx1, transaction_data = to_pb tx1, egress_stan = Some ?es\<rparr> else entry_of st k)" for k
    by (simp_all add: forwarded_def translated_def Let_def)
  have c1: "queue c1 = queue (channels st ch1) @ [outbound st tx1]" "connected c1"
    using assms(7) by (auto simp: try_send_def split: if_splits)
  have run2: "pin_run cd ctx2 ?st1 = ?st2"
    using assms(8,10,11,12,5,13-21) c1(2)
    by (intro pin_run_forwards) (simp_all add: clears_forwarded st1 select_node_nat)
  have st2: "memory_state ?st2 = memory_state ?st1" "answers ?st2 = answers st"
    "held_for ?st2 ctx1" "held_for ?st2 ctx2"
    using assms(11) st1(6) by (simp_all add: pin_guarded_def held_for_def st1(4))
  have nat: "stan_nat (memory_state ?st2) ?es = Some (stan tx1)" by (simp add: st2(1) st1(1))
  have "entry_of ?st2 wrong1 = None" "entry_of ?st2 wrong2 = None"
    using assms(26-28) st1(6) by (auto simp: pin_guarded_def)
  then have lost: "process_bank_reply cd reply1 (process_bank_reply cd reply2 ?st2) = nat_remove ?es ?st2"
    using assms(9,22-25) by (intro collision_replies [OF nat]) (simp_all add: reply_to_def)
  have "held_for (nat_remove ?es ?st2) ctx1" "held_for (nat_remove ?es ?st2) ctx2"
    using st2(3,4) by (simp_all add: held_for_def)
  then show ?thesis
    unfolding Let_def run1 run2 lost using assms(9) st2(2) c1(1)
    by (simp add: st1(5)) (simp add: outbound_def)
qed

text \<open>The first terminal asks under 123456, the second under 000000, the first egress STAN.\<close>

definition collision_payment :: event where
  "collision_payment = pin_payment\<lparr>stan := ascii ''000000'', rrn := ascii ''000000000042''\<rparr>"

definition collision_context :: transaction_context where
  "collision_context = \<lparr>ctx_transaction = collision_payment, ctx_responder = Some 8\<rparr>"

theorem stan_collision_loses_replies_witness:
  "answers (process_bank_reply sample_codec (to_pb (sample_event\<lparr>stan := ascii ''000000''\<rparr>))
      (process_bank_reply sample_codec (to_pb collision_payment)
        (pin_run sample_codec collision_context (process_transaction sample_codec sample_context sample_engine)))) = []"
proof -
  let ?tx = "collision_payment" and ?ctx = "collision_context"
  have clears: "clears_screening sample_engine ?ctx ?tx"
    by (simp add: clears_screening_def sample_defs collision_context_def collision_payment_def pin_payment_def
        compliance_evaluate_def ascii_def valid_utf8_ascii tsp_intercept_def risk_declined_def str_slice_def
        is_char_boundary_def is_cont_def)
  have "\<exists>rt. trie_find (router (memory_state sample_engine)) (fpan ?tx) = Some rt \<and>
      destination rt = ExternalNode (ascii ''MockVisaNode'') \<and>
      select_node (memory_state sample_engine) (ascii ''MockVisaNode'') (failover_node rt) = Some 0"
    by (simp add: sample_defs collision_payment_def pin_payment_def trie_find_compiled rows_map_def row_route_def
        row_destination_def ascii_def select_node_def is_online_def)
  then obtain rt where rt: "trie_find (router (memory_state sample_engine)) (fpan ?tx) = Some rt"
      "destination rt = ExternalNode (ascii ''MockVisaNode'')"
      "select_node (memory_state sample_engine) (ascii ''MockVisaNode'') (failover_node rt) = Some 0" by blast
  have state: "hsm_queue sample_engine = []" "connected (channels sample_engine 0)" "entry_of sample_engine k = None" for k
    by (simp_all add: sample_defs)
  have tx: "mac_data ?tx = None" "is_ascii (fpan ?tx)" "13 \<le> length (fpan ?tx)" "is_ascii (pin_block ?tx)"
    "length (pin_block ?tx) = 16" "stan ?tx = ascii ''000000''"
    by (simp_all add: collision_payment_def pin_payment_def ascii_def sample_event_def blank_event_def)
  have keys: "context_key ?ctx \<noteq> context_key sample_context"
    "{guard_key (rrn sample_event) (stan ?tx) (from_utf8_lossy (acquirer_id sample_event)),
      guard_key (rrn ?tx) (stan sample_event) (from_utf8_lossy (acquirer_id ?tx))}
      \<inter> {context_key sample_context, context_key ?ctx} = {}"
    by (simp_all add: context_key_def guard_key_def collision_context_def collision_payment_def pin_payment_def
        sample_context_def sample_event_def blank_event_def ascii_def valid_utf8_ascii)
  have replies: "reply_to (to_pb (sample_event\<lparr>stan := ascii ''000000''\<rparr>)) (sample_event\<lparr>stan := stan ?tx\<rparr>)"
    "reply_to (to_pb ?tx) ?tx"
    by (simp_all add: reply_to_def to_pb_def tx(6))
  show ?thesis
    using stan_collision_loses_replies [OF sample_clears sample_forwardable(1-4) sample_route sample_room clears _
        state(3) keys(1) state(1) tx(1-5) rt state(2) replies refl refl keys(2) state(3) state(3), of sample_codec]
      sample_stan sample_forwardable(5) by (simp add: tx(6) Let_def)
qed

end
