(* ===== verification/Upstream.thy ===== *)
theory Upstream
  imports Edge Runs "HOL-Library.Sublist"
begin

text \<open>
  The upstream clients of \<open>edge-egress/src/client.rs\<close> as the daemon runs them: one per bank, each
  with its channel, its connections and its store-and-forward task, all over one store
  (\<open>payment-daemon/src/main.rs\<close>). Tokio tasks are the rules of a step relation. A connection
  keeps its sink task after the client has given it up, and a send task keeps the sender of the
  connection it was started on.
\<close>

section \<open>Clients and their tasks\<close>

record connection =
  sink_open :: bool
  sink_buffer :: "bytes list"
  conn_wire :: "bytes list"

record upstream_client =
  host :: rstring
  rx :: "transaction_context list"
  online :: bool
  conns :: "connection list"
  send_tasks :: "(nat \<times> event) list"
  keys_to_remove :: "bytes list"
  saf_wire :: "bytes list"

record egress_world =
  clients :: "upstream_client list"
  saf_db :: "(bytes, bytes) dashmap"
  reply_tx :: "transaction list"

definition upstream_new :: "rstring \<Rightarrow> upstream_client" where
  "upstream_new h = \<lparr>host = h, rx = [], online = False, conns = [], send_tasks = [],
     keys_to_remove = [], saf_wire = []\<rparr>"

text \<open>The daemon's two clients, over the store it opens once.\<close>

definition egress_start :: "(bytes, bytes) dashmap \<Rightarrow> egress_world" where
  "egress_start db =
     \<lparr>clients = [upstream_new (ascii ''127.0.0.1:9188''), upstream_new (ascii ''127.0.0.1:9200'')],
      saf_db = db, reply_tx = []\<rparr>"

definition sink_capacity :: nat where
  "sink_capacity = 100000"

definition put_conn :: "nat \<Rightarrow> connection \<Rightarrow> upstream_client \<Rightarrow> upstream_client" where
  "put_conn k conn c = c\<lparr>conns := (conns c)[k := conn]\<rparr>"

type_synonym client_state = "upstream_client \<times> (bytes, bytes) dashmap \<times> transaction list"

text \<open>
  The main loop connects; while connected it takes contexts and
  starts a send task for each, and it notices a broken connection only when its channel is empty;
  while the bank is away it takes contexts and stores the reversals and advices among them. A
  send task hands its payload to the sink of its connection, or stores it when that is closed. The
  sink task writes payloads; when a write fails it drops the payload, and it ends, with all that it
  has buffered, when the payload was the first of its round. The store-and-forward task iterates
  over the store, writes row after row to a connection of its own and afterwards removes those
  written, key by key; every write waits for the socket, so that the other tasks run in between and
  the store changes under the iteration (the rules leave its order open). The reader passes on the
  bank's messages.
\<close>

inductive client_step ::
  "(transaction \<Rightarrow> bytes) \<Rightarrow> (bytes \<Rightarrow> transaction option) \<Rightarrow> client_state \<Rightarrow> client_state \<Rightarrow> bool"
  for enc dec where
  connect: "\<not> online c \<Longrightarrow> client_step enc dec (c, db, rs)
    (c\<lparr>online := True, conns := conns c @ [\<lparr>sink_open = True, sink_buffer = [], conn_wire = []\<rparr>]\<rparr>, db, rs)"
| take: "online c \<Longrightarrow> rx c = ctx # ctxs \<Longrightarrow> client_step enc dec (c, db, rs)
    (c\<lparr>rx := ctxs, send_tasks := send_tasks c @ [(length (conns c) - 1, ctx_transaction ctx)]\<rparr>, db, rs)"
| send: "send_tasks c = before @ (k, tx) # after \<Longrightarrow> k < length (conns c) \<Longrightarrow>
    (sink_open (conns c ! k) \<longrightarrow> length (sink_buffer (conns c ! k)) < sink_capacity) \<Longrightarrow>
    egress_send enc (sink_open (conns c ! k)) tx (sink_buffer (conns c ! k), db) = (buf, db') \<Longrightarrow>
    client_step enc dec (c, db, rs)
      (put_conn k ((conns c ! k)\<lparr>sink_buffer := buf\<rparr>) (c\<lparr>send_tasks := before @ after\<rparr>), db', rs)"
| feed: "k < length (conns c) \<Longrightarrow> sink_open (conns c ! k) \<Longrightarrow> sink_buffer (conns c ! k) = p # ps \<Longrightarrow>
    client_step enc dec (c, db, rs)
      (put_conn k ((conns c ! k)\<lparr>sink_buffer := ps, conn_wire := conn_wire (conns c ! k) @ [p]\<rparr>) c, db, rs)"
| feed_fails: "k < length (conns c) \<Longrightarrow> sink_open (conns c ! k) \<Longrightarrow> sink_buffer (conns c ! k) = p # ps \<Longrightarrow>
    client_step enc dec (c, db, rs)
      (put_conn k ((conns c ! k)\<lparr>sink_open := False, sink_buffer := []\<rparr>) c, db, rs)"
| extra_fails: "k < length (conns c) \<Longrightarrow> sink_open (conns c ! k) \<Longrightarrow> sink_buffer (conns c ! k) = p # ps \<Longrightarrow>
    client_step enc dec (c, db, rs) (put_conn k ((conns c ! k)\<lparr>sink_buffer := ps\<rparr>) c, db, rs)"
| broken: "online c \<Longrightarrow> rx c = [] \<Longrightarrow> client_step enc dec (c, db, rs) (c\<lparr>online := False\<rparr>, db, rs)"
| offline: "\<not> online c \<Longrightarrow> rx c = ctx # ctxs \<Longrightarrow> client_step enc dec (c, db, rs)
    (c\<lparr>rx := ctxs\<rparr>, egress_offline enc (ctx_transaction ctx) db, rs)"
| saf_write: "map_of db key = Some v \<Longrightarrow> key \<notin> set (keys_to_remove c) \<Longrightarrow>
    saf_rows dec write_ok [(key, v)] = (out, keys) \<Longrightarrow>
    client_step enc dec (c, db, rs)
      (c\<lparr>keys_to_remove := keys_to_remove c @ keys, saf_wire := saf_wire c @ [out]\<rparr>, db, rs)"
| saf_remove: "keys_to_remove c = key # keys \<Longrightarrow>
    client_step enc dec (c, db, rs) (c\<lparr>keys_to_remove := keys\<rparr>, AList.delete key db, rs)"
| reply: "egress_read msg = Ok (Some pb) \<Longrightarrow> client_step enc dec (c, db, rs) (c, db, rs @ [pb])"

text \<open>With the engine at the other end of the channel.\<close>

inductive egress_move ::
  "(transaction \<Rightarrow> bytes) \<Rightarrow> (bytes \<Rightarrow> transaction option) \<Rightarrow> client_state \<Rightarrow> client_state \<Rightarrow> bool"
  for enc dec where
  enqueue: "egress_move enc dec (c, db, rs) (c\<lparr>rx := rx c @ [ctx]\<rparr>, db, rs)"
| act: "client_step enc dec s s' \<Longrightarrow> egress_move enc dec s s'"

definition egress_step ::
  "(transaction \<Rightarrow> bytes) \<Rightarrow> (bytes \<Rightarrow> transaction option) \<Rightarrow> egress_world \<Rightarrow> egress_world \<Rightarrow> bool" where
  "egress_step enc dec w w' \<longleftrightarrow> (\<exists>i < length (clients w). \<exists>c db rs.
     egress_move enc dec (clients w ! i, saf_db w, reply_tx w) (c, db, rs) \<and>
     w' = \<lparr>clients = (clients w)[i := c], saf_db = db, reply_tx = rs\<rparr>)"

inductive_cases egress_moveE: "egress_move enc dec (c, db, rs) (c', db', rs')"

section \<open>What the store keeps\<close>

definition saf_frame :: "event \<Rightarrow> bytes" where
  "saf_frame tx = (case upstream_encode (egress_encode (from_pb (to_pb tx))) [] of Ok frm \<Rightarrow> frm | _ \<Rightarrow> [])"

text \<open>A frame that the store-and-forward task of some client has written to its bank.\<close>

definition forwarded_by :: "upstream_client \<Rightarrow> bytes \<Rightarrow> bool" where
  "forwarded_by c frm \<longleftrightarrow> (\<exists>out \<in> set (saf_wire c). sublist frm out)"

definition forwarded_to_some :: "egress_world \<Rightarrow> bytes \<Rightarrow> bool" where
  "forwarded_to_some w frm \<longleftrightarrow> (\<exists>c \<in> set (clients w). forwarded_by c frm)"

text \<open>Another row has taken the key.\<close>

definition replaced :: "egress_world \<Rightarrow> bytes \<Rightarrow> bytes \<Rightarrow> bool" where
  "replaced w key v \<longleftrightarrow> (\<exists>v'. map_of (saf_db w) key = Some v' \<and> v' \<noteq> v)"

text \<open>
  A row in the store that no client is about to remove, and whose value the store-and-forward task
  turns into the frame.
\<close>

definition safe_row :: "bytes \<Rightarrow> bytes \<Rightarrow> egress_world \<Rightarrow> bool" where
  "safe_row key v w \<longleftrightarrow> distinct (map fst (saf_db w)) \<and> map_of (saf_db w) key = Some v \<and>
     (\<forall>c \<in> set (clients w). key \<notin> set (keys_to_remove c))"

definition frames_as :: "(bytes \<Rightarrow> transaction option) \<Rightarrow> bytes \<Rightarrow> bytes \<Rightarrow> bool" where
  "frames_as dec v frm \<longleftrightarrow> (\<exists>pb. dec v = Some pb \<and> upstream_encode (egress_encode (from_pb pb)) [] = Ok frm)"

lemma saf_store_cases:
  assumes "distinct (map fst db)" and "map_of db key = Some v"
  shows "distinct (map fst (saf_store enc tx db)) \<and>
    (map_of (saf_store enc tx db) key = Some v \<or> (\<exists>v'. map_of (saf_store enc tx db) key = Some v' \<and> v' \<noteq> v))"
  using assms by (auto simp: saf_store_def distinct_update update_conv' simp del: map_of_eq_Some_iff)

lemma saf_write_row:
  assumes "map_of db key = Some v" and "dec v = Some pb"
    and "upstream_encode (egress_encode (from_pb pb)) [] = Ok frm"
    and "map_of db key' = Some v'" and "saf_rows dec write_ok [(key', v')] = (out, keys)" and "key \<in> set keys"
  shows "sublist frm out"
proof -
  obtain v'' pb' frm' where row: "(key, v'') \<in> set [(key', v')]" "dec v'' = Some pb'"
    "upstream_encode (egress_encode (from_pb pb')) [] = Ok frm'" "write_ok frm'"
    using saf_keys_written [OF assms(5,6)] by blast
  then have "v'' = v" "(key, v) \<in> set [(key', v')]" using assms(1,4) by (auto simp del: map_of_eq_Some_iff)
  then have "write_ok frm" using row assms(2,3) by auto
  from saf_rows_sends [OF assms(5) \<open>(key, v) \<in> set [(key', v')]\<close> assms(2,3) this]
  show ?thesis by (auto simp: sublist_def)
qed

lemma client_keeps_row:
  assumes "client_step enc dec (c, db, rs) (c', db', rs')"
    and "distinct (map fst db)" and "map_of db key = Some v" and "key \<notin> set (keys_to_remove c)"
    and "dec v = Some pb" and "upstream_encode (egress_encode (from_pb pb)) [] = Ok frm"
  shows "distinct (map fst db') \<and> (map_of db' key = Some v \<and> key \<notin> set (keys_to_remove c') \<or>
    forwarded_by c' frm \<or> (\<exists>v'. map_of db' key = Some v' \<and> v' \<noteq> v))"
  using assms(1)
proof (cases rule: client_step.cases)
  case (send before k tx after buf)
  then have "db' = db \<or> db' = saf_store enc tx db" "keys_to_remove c' = keys_to_remove c"
    by (auto simp: egress_send_def put_conn_def split: if_splits)
  then show ?thesis using assms(2-4) saf_store_cases [OF assms(2,3), of enc tx] by auto
next
  case (offline ctx ctxs)
  then show ?thesis
    using assms(2-4) saf_store_cases [OF assms(2,3), of enc "ctx_transaction ctx"]
    by (auto simp: egress_offline_def)
next
  case (saf_write key' v' write_ok out keys)
  then show ?thesis
    using assms(2-4) saf_write_row [OF assms(3,5,6) \<open>map_of db key' = Some v'\<close> \<open>saf_rows dec write_ok [(key', v')] = (out, keys)\<close>]
    by (auto simp: forwarded_by_def)
next
  case (saf_remove key' keys)
  then show ?thesis using assms(2-4) by (simp add: distinct_delete delete_conv' del: map_of_eq_Some_iff)
qed (use assms in \<open>simp_all add: put_conn_def\<close>)

lemma move_keeps_row:
  assumes "egress_move enc dec (c, db, rs) (c', db', rs')"
    and "distinct (map fst db)" and "map_of db key = Some v" and "key \<notin> set (keys_to_remove c)"
    and "dec v = Some pb" and "upstream_encode (egress_encode (from_pb pb)) [] = Ok frm"
  shows "distinct (map fst db') \<and> (map_of db' key = Some v \<and> key \<notin> set (keys_to_remove c') \<or>
    forwarded_by c' frm \<or> (\<exists>v'. map_of db' key = Some v' \<and> v' \<noteq> v))"
  using assms(1)
proof (cases rule: egress_move.cases)
  case act
  then show ?thesis using client_keeps_row assms(2-6) by blast
qed (use assms in simp)

lemma step_keeps_row:
  assumes "egress_step enc dec w w'" and "safe_row key v w \<and> frames_as dec v frm"
  shows "safe_row key v w' \<and> frames_as dec v frm \<or> forwarded_to_some w' frm \<or> replaced w' key v"
proof -
  obtain i c db rs where i: "i < length (clients w)"
    and step: "egress_move enc dec (clients w ! i, saf_db w, reply_tx w) (c, db, rs)"
    and w': "w' = \<lparr>clients = (clients w)[i := c], saf_db = db, reply_tx = rs\<rparr>"
    using assms(1) by (auto simp: egress_step_def)
  have mem: "clients w ! i \<in> set (clients w)" "c \<in> set (clients w')" using i by (simp_all add: w' set_update_memI)
  have "distinct (map fst db) \<and> (map_of db key = Some v \<and> key \<notin> set (keys_to_remove c) \<or>
      forwarded_by c frm \<or> (\<exists>v'. map_of db key = Some v' \<and> v' \<noteq> v))"
  proof -
    obtain pb where "dec v = Some pb" "upstream_encode (egress_encode (from_pb pb)) [] = Ok frm"
      using assms(2) by (auto simp: frames_as_def)
    with assms(2) mem(1) show ?thesis
      by (intro move_keeps_row [OF step]) (simp_all add: safe_row_def)
  qed
  moreover have "safe_row key v w'" if "distinct (map fst db)" "map_of db key = Some v" "key \<notin> set (keys_to_remove c)"
    using that assms(2) set_update_subset_insert [of "clients w" i c] by (auto simp: safe_row_def w')
  ultimately consider "safe_row key v w'" | "forwarded_by c frm" | "\<exists>v'. map_of db key = Some v' \<and> v' \<noteq> v"
    by blast
  then show ?thesis
  proof cases
    case 2
    then show ?thesis using mem(2) by (auto simp: forwarded_to_some_def)
  next
    case 3
    then show ?thesis by (simp add: replaced_def w' del: map_of_eq_Some_iff)
  qed (use assms(2) in simp)
qed

interpretation stored: unless_step "egress_step enc dec" "\<lambda>w. safe_row key v w \<and> frames_as dec v frm"
    "\<lambda>w. forwarded_to_some w frm \<or> replaced w key v" for enc dec key v frm
  by unfold_locales (use step_keeps_row in blast)

text \<open>What has been written stays written.\<close>

lemma client_wire_grows: "client_step enc dec (c, db, rs) (c', db', rs') \<Longrightarrow> set (saf_wire c) \<subseteq> set (saf_wire c')"
  by (erule client_step.cases) (auto simp: put_conn_def)

lemma move_wire_grows: "egress_move enc dec (c, db, rs) (c', db', rs') \<Longrightarrow> set (saf_wire c) \<subseteq> set (saf_wire c')"
  by (auto elim!: egress_moveE dest: client_wire_grows)

lemma forwarded_stays:
  assumes "(egress_step enc dec)\<^sup>*\<^sup>* w w'" and "forwarded_to_some w frm"
  shows "forwarded_to_some w' frm"
  using assms
proof (induction rule: rtranclp_induct)
  case (step y z)
  then obtain i c db rs where i: "i < length (clients y)"
    and step: "egress_move enc dec (clients y ! i, saf_db y, reply_tx y) (c, db, rs)"
    and z: "z = \<lparr>clients = (clients y)[i := c], saf_db = db, reply_tx = rs\<rparr>"
    by (auto simp: egress_step_def)
  from step.IH step.prems obtain j where j: "j < length (clients y)" "forwarded_by (clients y ! j) frm"
    by (auto simp: forwarded_to_some_def in_set_conv_nth)
  then have "forwarded_by (clients z ! j) frm" "j < length (clients z)"
    using move_wire_grows [OF step] i by (auto simp: z forwarded_by_def nth_list_update)
  then show ?case by (auto simp: forwarded_to_some_def)
qed

lemma egress_stepI:
  "client_step enc dec (clients w ! i, saf_db w, reply_tx w) (c, db, rs) \<Longrightarrow> i < length (clients w) \<Longrightarrow>
    egress_step enc dec w \<lparr>clients = (clients w)[i := c], saf_db = db, reply_tx = rs\<rparr>"
  by (auto simp: egress_step_def intro: egress_move.act)

text \<open>A client that removes the keys it has collected, one after the other, with nothing in between.\<close>

lemma removes_collected:
  assumes "i < length (clients w)"
  shows "(egress_step enc dec)\<^sup>*\<^sup>* w (w\<lparr>clients := (clients w)[i := (clients w ! i)\<lparr>keys_to_remove := []\<rparr>],
    saf_db := foldl (\<lambda>d k. AList.delete k d) (saf_db w) (keys_to_remove (clients w ! i))\<rparr>)"
  using assms
proof (induction "keys_to_remove (clients w ! i)" arbitrary: w)
  case Nil
  have "w\<lparr>clients := (clients w)[i := (clients w ! i)\<lparr>keys_to_remove := []\<rparr>], saf_db := saf_db w\<rparr> = w"
    using Nil by (metis (no_types, lifting) egress_world.surjective egress_world.update_convs(1,2) list_update_id
        upstream_client.surjective upstream_client.update_convs(6))
  then show ?case using Nil(1) [symmetric] by simp
next
  case (Cons k ks)
  let ?c = "clients w ! i"
  let ?w = "w\<lparr>clients := (clients w)[i := ?c\<lparr>keys_to_remove := ks\<rparr>], saf_db := AList.delete k (saf_db w)\<rparr>"
  have "client_step enc dec (?c, saf_db w, reply_tx w) (?c\<lparr>keys_to_remove := ks\<rparr>, AList.delete k (saf_db w), reply_tx w)"
    using Cons.hyps(2) by (intro client_step.saf_remove) simp
  from egress_stepI [OF this Cons.prems] have "egress_step enc dec w ?w" by (cases w) simp
  moreover have "(egress_step enc dec)\<^sup>*\<^sup>* ?w (?w\<lparr>clients := (clients ?w)[i := (clients ?w ! i)\<lparr>keys_to_remove := []\<rparr>],
      saf_db := foldl (\<lambda>d k. AList.delete k d) (saf_db ?w) (keys_to_remove (clients ?w ! i))\<rparr>)"
    by (rule Cons.hyps(1)) (use Cons.prems in simp_all)
  ultimately show ?case
    using Cons.prems Cons.hyps(2) [symmetric] by (simp add: converse_rtranclp_into_rtranclp)
qed

section \<open>Properties\<close>

text \<open>
  C12. A reversal taken while its bank is away is stored under its STAN and RRN. If no
  store-and-forward task has a row with that key waiting to be removed, it survives everything the
  clients do: after any further steps of any clients, in any order, with any failing writes, it is
  still stored, or the store-and-forward task of a client has written its frame to that client's
  bank, or another message has been stored under the same STAN and RRN in between. If a task does
  have the key waiting, from an earlier message with the same STAN and RRN, it can lose the new
  reversal: it goes on to remove it, and nothing has been written.
\<close>

theorem offline_reversal_survives:
  fixes w :: egress_world and ctx :: transaction_context and ctxs :: "transaction_context list"
    and i :: nat and enc :: "transaction \<Rightarrow> bytes"
  defines "tx \<equiv> ctx_transaction ctx" and "c \<equiv> clients w ! i"
  defines "w1 \<equiv> w\<lparr>clients := (clients w)[i := c\<lparr>rx := ctxs\<rparr>], saf_db := egress_offline enc tx (saf_db w)\<rparr>"
  assumes "i < length (clients w)" and "\<not> online c" and "rx c = ctx # ctxs"
    and "mti tx = ascii ''0420'' \<or> mti tx = ascii ''0220''"
    and "distinct (map fst (saf_db w))"
    and "dec (enc (to_pb tx)) = Some (to_pb tx)"
    and "upstream_encode (egress_encode (from_pb (to_pb tx))) [] = Ok frm"
  shows "egress_step enc dec w w1 \<and>
    ((\<forall>c \<in> set (clients w). saf_key tx \<notin> set (keys_to_remove c)) \<longrightarrow>
      (\<forall>w'. (egress_step enc dec)\<^sup>*\<^sup>* w1 w' \<longrightarrow>
        map_of (saf_db w') (saf_key tx) = Some (enc (to_pb tx)) \<or> forwarded_to_some w' frm \<or>
        (\<exists>t. (egress_step enc dec)\<^sup>*\<^sup>* w1 t \<and> (egress_step enc dec)\<^sup>*\<^sup>* t w' \<and>
          replaced t (saf_key tx) (enc (to_pb tx))))) \<and>
    ((\<exists>c \<in> set (clients w). saf_key tx \<in> set (keys_to_remove c)) \<longrightarrow>
      (\<exists>w'. (egress_step enc dec)\<^sup>*\<^sup>* w1 w' \<and> map_of (saf_db w') (saf_key tx) = None \<and>
        map saf_wire (clients w') = map saf_wire (clients w)))"
proof (intro conjI impI allI)
  have "client_step enc dec (c, saf_db w, reply_tx w)
      (c\<lparr>rx := ctxs\<rparr>, egress_offline enc tx (saf_db w), reply_tx w)"
    unfolding tx_def by (rule client_step.offline) (use assms in simp_all)
  from egress_stepI [OF this [unfolded c_def] assms(4)]
  show "egress_step enc dec w w1" by (cases w) (simp add: w1_def c_def)
  have "egress_offline enc tx (saf_db w) = AList.update (saf_key tx) (enc (to_pb tx)) (saf_db w)"
    using assms(7) by (simp add: egress_offline_def saf_store_def saf_worthy_mti)
  then have row: "safe_row (saf_key tx) (enc (to_pb tx)) w1 \<and> frames_as dec (enc (to_pb tx)) frm"
    if free: "\<forall>d \<in> set (clients w). saf_key tx \<notin> set (keys_to_remove d)"
  proof -
    have "\<forall>d \<in> set (clients w1). saf_key tx \<notin> set (keys_to_remove d)"
      using assms(4) free set_update_subset_insert [of "clients w" i "c\<lparr>rx := ctxs\<rparr>"] by (auto simp: w1_def c_def)
    then show ?thesis
      using assms(8-10) \<open>egress_offline enc tx (saf_db w) = _\<close>
      by (simp add: safe_row_def frames_as_def w1_def distinct_update update_conv')
  qed
  fix w' assume "\<forall>c \<in> set (clients w). saf_key tx \<notin> set (keys_to_remove c)" and reach: "(egress_step enc dec)\<^sup>*\<^sup>* w1 w'"
  from stored.reached_unless [OF reach row [OF this(1)]]
  show "map_of (saf_db w') (saf_key tx) = Some (enc (to_pb tx)) \<or> forwarded_to_some w' frm \<or>
     (\<exists>t. (egress_step enc dec)\<^sup>*\<^sup>* w1 t \<and> (egress_step enc dec)\<^sup>*\<^sup>* t w' \<and> replaced t (saf_key tx) (enc (to_pb tx)))"
    by (auto simp: safe_row_def dest: forwarded_stays)
next
  assume "\<exists>c \<in> set (clients w). saf_key tx \<in> set (keys_to_remove c)"
  then obtain j where j: "j < length (clients w)" "saf_key tx \<in> set (keys_to_remove (clients w ! j))"
    by (metis in_set_conv_nth)
  let ?w = "w1\<lparr>clients := (clients w1)[j := (clients w1 ! j)\<lparr>keys_to_remove := []\<rparr>],
    saf_db := foldl (\<lambda>d k. AList.delete k d) (saf_db w1) (keys_to_remove (clients w1 ! j))\<rparr>"
  have same: "keys_to_remove (clients w1 ! j) = keys_to_remove (clients w ! j)" "length (clients w1) = length (clients w)"
    "map saf_wire (clients w1) = map saf_wire (clients w)" "saf_wire (clients w1 ! j) = saf_wire (clients w ! j)"
    using assms(4) j(1) by (auto simp: w1_def c_def nth_list_update map_update list_update_same_conv)
  have "(egress_step enc dec)\<^sup>*\<^sup>* w1 ?w" by (rule removes_collected) (simp add: same(2) j(1))
  moreover have "map_of (saf_db ?w) (saf_key tx) = None" using j(2) by (simp add: same(1) map_of_deletes)
  moreover have "map saf_wire (clients ?w) = map saf_wire (clients w)"
    using j(1) by (simp add: map_update same(3,4) list_update_same_conv)
  ultimately show "\<exists>w'. (egress_step enc dec)\<^sup>*\<^sup>* w1 w' \<and> map_of (saf_db w') (saf_key tx) = None \<and>
      map saf_wire (clients w') = map saf_wire (clients w)" by blast
qed

definition awaiting :: "transaction_context \<Rightarrow> egress_world" where
  "awaiting ctx = (egress_start [])\<lparr>clients :=
     [(upstream_new (ascii ''127.0.0.1:9188''))\<lparr>rx := [ctx]\<rparr>, upstream_new (ascii ''127.0.0.1:9200'')]\<rparr>"

definition sample_advice_context :: transaction_context where
  "sample_advice_context = \<lparr>ctx_transaction = sample_advice, ctx_responder = None\<rparr>"

lemma sample_advice_facts:
  "mti sample_advice = ascii ''0420''" "saf_key sample_advice = ascii ''000042-000000000001''"
  "saf_sample_enc (to_pb sample_advice) = ascii ''000042''"
  "saf_sample_dec (ascii ''000042'') = Some (to_pb sample_advice)"
  by (simp_all add: sample_advice_def sample_authorization_def blank_event_def saf_key_def saf_sample_enc_def
      saf_sample_dec_def to_pb_def ascii_def)

lemma upstream_encode_ok: "upstream_encode p [] = Ok (length_prefixed p)"
  by (simp add: upstream_encode_def length_prefixed_def Let_def)

theorem offline_reversal_survives_witness:
  "egress_step saf_sample_enc saf_sample_dec (awaiting sample_advice_context)
     (egress_start [(ascii ''000042-000000000001'', ascii ''000042'')])"
proof -
  have "egress_offline saf_sample_enc sample_advice [] = [(ascii ''000042-000000000001'', ascii ''000042'')]"
    by (simp add: egress_offline_def saf_store_def saf_worthy_mti sample_advice_facts)
  then show ?thesis
    using offline_reversal_survives [of 0 "awaiting sample_advice_context" sample_advice_context "[]"
        saf_sample_dec saf_sample_enc, OF _ _ _ _ _ _ upstream_encode_ok]
    by (simp add: awaiting_def egress_start_def upstream_new_def sample_advice_context_def sample_advice_facts)
qed

lemma egress_two:
  "client_step enc dec (a, db, rs) (a', db', rs') \<Longrightarrow>
    egress_step enc dec \<lparr>clients = [a, b], saf_db = db, reply_tx = rs\<rparr> \<lparr>clients = [a', b], saf_db = db', reply_tx = rs'\<rparr>"
  "client_step enc dec (b, db, rs) (b', db', rs') \<Longrightarrow>
    egress_step enc dec \<lparr>clients = [a, b], saf_db = db, reply_tx = rs\<rparr> \<lparr>clients = [a, b'], saf_db = db', reply_tx = rs'\<rparr>"
  by (drule egress_stepI [of enc dec "\<lparr>clients = [a, b], saf_db = db, reply_tx = rs\<rparr>" 0, simplified], simp)
     (drule egress_stepI [of enc dec "\<lparr>clients = [a, b], saf_db = db, reply_tx = rs\<rparr>" 1, simplified], simp)

text \<open>
  The store is shared, and so is what it holds. A reversal that the Visa client stores because
  its bank is away can be written to the Mastercard bank by the other client's store-and-forward
  task, which then removes it: the Visa bank is never told.
\<close>

theorem shared_store_reaches_other_bank:
  assumes "mti (ctx_transaction ctx) = ascii ''0420'' \<or> mti (ctx_transaction ctx) = ascii ''0220''"
    and "dec (enc (to_pb (ctx_transaction ctx))) = Some (to_pb (ctx_transaction ctx))"
  shows "\<exists>w'. (egress_step enc dec)\<^sup>*\<^sup>* (awaiting ctx) w' \<and>
    clients w' = [upstream_new (ascii ''127.0.0.1:9188''), (upstream_new (ascii ''127.0.0.1:9200''))
      \<lparr>saf_wire := [length_prefixed (egress_encode (from_pb (to_pb (ctx_transaction ctx))))]\<rparr>] \<and>
    saf_db w' = []"
proof -
  let ?tx = "ctx_transaction ctx"
  let ?visa = "upstream_new (ascii ''127.0.0.1:9188'')" and ?mc = "upstream_new (ascii ''127.0.0.1:9200'')"
  let ?db = "[(saf_key ?tx, enc (to_pb ?tx))]" and ?frm = "length_prefixed (egress_encode (from_pb (to_pb ?tx)))"
  let ?w = "\<lambda>v m db. \<lparr>clients = [v, m], saf_db = db, reply_tx = []\<rparr>"
  have db: "egress_offline enc ?tx [] = ?db"
    using assms(1) by (simp add: egress_offline_def saf_store_def saf_worthy_mti)
  have "client_step enc dec (?visa\<lparr>rx := [ctx]\<rparr>, [], []) (?visa, ?db, [])"
    using client_step.offline [of "?visa\<lparr>rx := [ctx]\<rparr>" ctx "[]" enc dec "[]" "[]"] db
    by (simp add: upstream_new_def)
  moreover have "client_step enc dec (?mc, ?db, []) (?mc\<lparr>keys_to_remove := [saf_key ?tx], saf_wire := [?frm]\<rparr>, ?db, [])"
    using client_step.saf_write [of ?db "saf_key ?tx" "enc (to_pb ?tx)" ?mc dec "\<lambda>_. True" ?frm "[saf_key ?tx]" enc "[]"] assms(2)
    by (simp add: upstream_new_def upstream_encode_ok)
  moreover have "client_step enc dec (?mc\<lparr>keys_to_remove := [saf_key ?tx], saf_wire := [?frm]\<rparr>, ?db, [])
      (?mc\<lparr>saf_wire := [?frm]\<rparr>, [], [])"
    using client_step.saf_remove [of "?mc\<lparr>keys_to_remove := [saf_key ?tx], saf_wire := [?frm]\<rparr>" "saf_key ?tx" "[]" enc dec ?db "[]"]
    by (simp add: upstream_new_def)
  ultimately have "(egress_step enc dec)\<^sup>*\<^sup>* (?w (?visa\<lparr>rx := [ctx]\<rparr>) ?mc []) (?w ?visa (?mc\<lparr>saf_wire := [?frm]\<rparr>) [])"
    by (meson converse_rtranclp_into_rtranclp egress_two rtranclp.rtrancl_refl)
  moreover have "awaiting ctx = ?w (?visa\<lparr>rx := [ctx]\<rparr>) ?mc []" by (simp add: awaiting_def egress_start_def)
  ultimately show ?thesis by (intro exI [of _ "?w ?visa (?mc\<lparr>saf_wire := [?frm]\<rparr>) []"]) simp
qed

theorem shared_store_reaches_other_bank_witness:
  "\<exists>w'. (egress_step saf_sample_enc saf_sample_dec)\<^sup>*\<^sup>* (awaiting sample_advice_context) w' \<and>
    saf_wire (clients w' ! 0) = [] \<and> length (saf_wire (clients w' ! 1)) = 1 \<and> saf_db w' = []"
  using shared_store_reaches_other_bank [of sample_advice_context saf_sample_dec saf_sample_enc]
  by (force simp: sample_advice_context_def sample_advice_facts upstream_new_def)

text \<open>
  C26. A reversal taken while the bank is connected is not safe. It is handed to the connection's
  sink; when the write then fails, the sink task drops it, and it is in no bank's connection, no
  queue and not in the store, whose purpose is to keep exactly these messages.
\<close>

theorem buffered_reversal_lost:
  "\<exists>w'. (egress_step enc dec)\<^sup>*\<^sup>* (awaiting ctx) w' \<and>
    clients w' = [(upstream_new (ascii ''127.0.0.1:9188''))
        \<lparr>conns := [\<lparr>sink_open = False, sink_buffer = [], conn_wire = []\<rparr>]\<rparr>,
      upstream_new (ascii ''127.0.0.1:9200'')] \<and>
    saf_db w' = []"
proof -
  let ?visa = "upstream_new (ascii ''127.0.0.1:9188'')" and ?mc = "upstream_new (ascii ''127.0.0.1:9200'')"
  let ?p = "egress_encode (ctx_transaction ctx)"
  let ?conn = "\<lambda>op buf. \<lparr>sink_open = op, sink_buffer = buf, conn_wire = []\<rparr>"
  let ?c0 = "?visa\<lparr>rx := [ctx]\<rparr>"
  let ?c1 = "?visa\<lparr>rx := [ctx], online := True, conns := [?conn True []]\<rparr>"
  let ?c2 = "?visa\<lparr>online := True, conns := [?conn True []], send_tasks := [(0, ctx_transaction ctx)]\<rparr>"
  let ?c3 = "?visa\<lparr>online := True, conns := [?conn True [?p]]\<rparr>"
  let ?c4 = "?visa\<lparr>online := True, conns := [?conn False []]\<rparr>"
  let ?c5 = "?visa\<lparr>conns := [?conn False []]\<rparr>"
  let ?w = "\<lambda>v. \<lparr>clients = [v, ?mc], saf_db = [], reply_tx = []\<rparr>"
  have "client_step enc dec (?c0, [], []) (?c1, [], [])"
    using client_step.connect [of ?c0 enc dec "[]" "[]"] by (simp add: upstream_new_def)
  moreover have "client_step enc dec (?c1, [], []) (?c2, [], [])"
    using client_step.take [of ?c1 ctx "[]" enc dec "[]" "[]"] by (simp add: upstream_new_def)
  moreover have "client_step enc dec (?c2, [], []) (?c3, [], [])"
    using client_step.send [of ?c2 "[]" 0 "ctx_transaction ctx" "[]" enc "[]" "[?p]" "[]" dec "[]"]
    by (simp add: upstream_new_def sink_capacity_def egress_send_def put_conn_def)
  moreover have "client_step enc dec (?c3, [], []) (?c4, [], [])"
    using client_step.feed_fails [of 0 ?c3 ?p "[]" enc dec "[]" "[]"] by (simp add: upstream_new_def put_conn_def)
  moreover have "client_step enc dec (?c4, [], []) (?c5, [], [])"
    using client_step.broken [of ?c4 enc dec "[]" "[]"] by (simp add: upstream_new_def)
  ultimately have "(egress_step enc dec)\<^sup>*\<^sup>* (?w ?c0) (?w ?c5)"
    by (meson converse_rtranclp_into_rtranclp egress_two(1) rtranclp.rtrancl_refl)
  moreover have "awaiting ctx = ?w ?c0" by (simp add: awaiting_def egress_start_def)
  ultimately show ?thesis by (intro exI [of _ "?w ?c5"]) simp
qed

end
