(* ===== verification/Daemon.thy ===== *)
theory Daemon
  imports Upstream Engine_Liveness Standard_Dialect Interac_Dialect Uk_Fps_Dialect
begin

text \<open>
  The running daemon (\<open>payment-daemon/src/main.rs\<close>): the engine, the connections of the three
  ingress servers (\<open>edge-ingress/src/server.rs\<close>) and the two upstream clients, as one step
  relation. The engine's egress channels are the clients' receivers, and the clients' replies go to
  the engine's reply channel. The engine's part of every run is a run of the engine alone, so what
  holds of its reachable states holds of the daemon.
\<close>

section \<open>Connections\<close>

datatype dialect = StandardDialect | InteracDialect | UkFpsDialect

fun dialect_parse :: "dialect \<Rightarrow> bytes \<Rightarrow> event parsed" where
  "dialect_parse StandardDialect = standard_parse"
| "dialect_parse InteracDialect = interac_parse"
| "dialect_parse UkFpsDialect = uk_parse"

fun dialect_build_response :: "dialect \<Rightarrow> event \<Rightarrow> bytes" where
  "dialect_build_response StandardDialect = standard_build_response"
| "dialect_build_response InteracDialect = interac_build_response"
| "dialect_build_response UkFpsDialect = uk_build_response"

text \<open>
  A connection: the reader with its buffer; the tasks spawned for parsed messages, first those
  that still have to hand their context to the engine, then those that wait for the answer; the
  queue of replies; and the frames handed to the socket. Tasks and replies carry the number of
  their responder.
\<close>

record connection_state =
  conn_dialect :: dialect
  reading :: bool
  recv_buffer :: bytes
  spawned :: "(nat \<times> event) list"
  conn_waiting :: "(nat \<times> event) list"
  reply_queue :: "(nat \<times> bytes) list"
  sent_frames :: "(nat \<times> bytes) list"

definition connection_new :: "dialect \<Rightarrow> connection_state" where
  "connection_new dl = \<lparr>conn_dialect = dl, reading = True, recv_buffer = [], spawned = [],
     conn_waiting = [], reply_queue = [], sent_frames = []\<rparr>"

record daemon =
  core :: engine
  upstreams :: "upstream_client list"
  saf_queue_db :: "(bytes, bytes) dashmap"
  sockets :: "connection_state list"
  current_conns :: nat
  next_responder :: nat

definition daemon_start :: "(bytes \<rightharpoonup> bytes) \<Rightarrow> (bytes, bytes) dashmap \<Rightarrow> nat \<Rightarrow> daemon" where
  "daemon_start db saf threads =
     \<lparr>core = engine_start db 1500 threads, upstreams = clients (egress_start saf), saf_queue_db = saf,
      sockets = [], current_conns = 0, next_responder = 0\<rparr>"

definition put_socket :: "nat \<Rightarrow> connection_state \<Rightarrow> daemon \<Rightarrow> daemon" where
  "put_socket k s d = d\<lparr>sockets := (sockets d)[k := s]\<rparr>"

definition submit :: "transaction_context \<Rightarrow> daemon \<Rightarrow> daemon" where
  "submit ctx d = d\<lparr>core := (core d)\<lparr>ingress_queue := ingress_queue (core d) @ [ctx]\<rparr>\<rparr>"

definition hang_up :: "nat \<Rightarrow> connection_state \<Rightarrow> daemon \<Rightarrow> daemon" where
  "hang_up k s d = (put_socket k (s\<lparr>reading := False\<rparr>) d)\<lparr>current_conns := current_conns d - 1\<rparr>"

text \<open>The reader's turn: one frame of the buffer, parsed by the dialect of the port.\<close>

definition read_frame :: "nat \<Rightarrow> connection_state \<Rightarrow> daemon \<Rightarrow> daemon" where
  "read_frame k s d =
     (case iso8583_decode (recv_buffer s) of
        Ok (Some msg, rest) \<Rightarrow>
          let s1 = s\<lparr>recv_buffer := rest\<rparr> in
          (case server_receive (dialect_parse (conn_dialect s)) msg (next_responder d) of
             Ok (Some ctx) \<Rightarrow> (put_socket k (s1\<lparr>spawned := spawned s @ [(next_responder d, ctx_transaction ctx)]\<rparr>) d)
                 \<lparr>next_responder := next_responder d + 1\<rparr>
           | Ok None \<Rightarrow> put_socket k s1 d
           | _ \<Rightarrow> hang_up k s1 d)
      | Ok (None, _) \<Rightarrow> d
      | _ \<Rightarrow> hang_up k s d)"

text \<open>The tasks of a connection. A reply is taken from the log of answers; a responder that the
  engine has dropped ends the task.\<close>

inductive task_step :: "nat \<Rightarrow> connection_state \<Rightarrow> daemon \<Rightarrow> daemon \<Rightarrow> bool" for k s d where
  handed: "spawned s = before @ (r, tx) # after \<Longrightarrow>
    task_step k s d (put_socket k (s\<lparr>spawned := before @ after, conn_waiting := conn_waiting s @ [(r, tx)]\<rparr>)
      (submit \<lparr>ctx_transaction = tx, ctx_responder = Some r\<rparr> d))"
| answered: "conn_waiting s = before @ (r, tx) # after \<Longrightarrow> (r, e) \<in> set (answers (core d)) \<Longrightarrow>
    task_step k s d (put_socket k (s\<lparr>conn_waiting := before @ after,
      reply_queue := reply_queue s @ [(r, dialect_build_response (conn_dialect s) e)]\<rparr>) d)"
| forgotten: "conn_waiting s = before @ (r, tx) # after \<Longrightarrow> r \<notin># held (core d) \<Longrightarrow>
    task_step k s d (put_socket k (s\<lparr>conn_waiting := before @ after\<rparr>) d)"
| dropped: "\<not> reading s \<Longrightarrow> conn_waiting s = before @ (r, tx) # after \<Longrightarrow>
    task_step k s d (put_socket k (s\<lparr>conn_waiting := before @ after\<rparr>) (submit (server_disconnect tx) d))"
| written: "reply_queue s = (r, m) # ms \<Longrightarrow> iso8583_encode m [] = Ok frm \<Longrightarrow>
    task_step k s d (put_socket k (s\<lparr>reply_queue := ms, sent_frames := sent_frames s @ [(r, frm)]\<rparr>) d)"
| unwritten: "reply_queue s = (r, m) # ms \<Longrightarrow> task_step k s d (put_socket k (s\<lparr>reply_queue := ms\<rparr>) d)"

section \<open>The daemon\<close>

text \<open>
  The engine's own steps: those that neither queue an arrival or a bank reply nor take from an
  egress channel, which is for the connections and the clients to do.
\<close>

definition own_step :: "codec \<Rightarrow> hsm \<Rightarrow> engine \<Rightarrow> engine \<Rightarrow> bool" where
  "own_step cd h st st' \<longleftrightarrow> engine_step cd h st st' \<and>
     length (ingress_queue st') \<le> length (ingress_queue st) \<and>
     length (bank_replies st') \<le> length (bank_replies st) \<and>
     (\<forall>ch. length (queue (channels st ch)) \<le> length (queue (channels st' ch)))"

definition put_channel :: "nat \<Rightarrow> transaction_context list \<Rightarrow> transaction list \<Rightarrow> engine \<Rightarrow> engine" where
  "put_channel i q rs st =
     st\<lparr>channels := (channels st)(i := (channels st i)\<lparr>queue := q\<rparr>), bank_replies := rs\<rparr>"

inductive daemon_step ::
  "codec \<Rightarrow> hsm \<Rightarrow> (transaction \<Rightarrow> bytes) \<Rightarrow> (bytes \<Rightarrow> transaction option) \<Rightarrow> daemon \<Rightarrow> daemon \<Rightarrow> bool"
  for cd h enc dec where
  accept: "daemon_step cd h enc dec d
    (d\<lparr>sockets := sockets d @ [connection_new dl], current_conns := current_conns d + 1\<rparr>)"
| chunk: "k < length (sockets d) \<Longrightarrow> reading (sockets d ! k) \<Longrightarrow> daemon_step cd h enc dec d
    (put_socket k ((sockets d ! k)\<lparr>recv_buffer := recv_buffer (sockets d ! k) @ bytes\<rparr>) d)"
| frame: "k < length (sockets d) \<Longrightarrow> reading (sockets d ! k) \<Longrightarrow>
    daemon_step cd h enc dec d (read_frame k (sockets d ! k) d)"
| eof: "k < length (sockets d) \<Longrightarrow> reading (sockets d ! k) \<Longrightarrow>
    daemon_step cd h enc dec d (hang_up k (sockets d ! k) d)"
| task: "k < length (sockets d) \<Longrightarrow> task_step k (sockets d ! k) d d' \<Longrightarrow> daemon_step cd h enc dec d d'"
| engine: "own_step cd h (core d) st \<Longrightarrow> daemon_step cd h enc dec d (d\<lparr>core := st\<rparr>)"
| client: "i < length (upstreams d) \<Longrightarrow>
    client_step enc dec ((upstreams d ! i)\<lparr>rx := queue (channels (core d) i)\<rparr>, saf_queue_db d, bank_replies (core d))
      (c, db, rs) \<Longrightarrow>
    daemon_step cd h enc dec d (d\<lparr>core := put_channel i (rx c) rs (core d),
      upstreams := (upstreams d)[i := c], saf_queue_db := db\<rparr>)"

section \<open>The invariant\<close>

text \<open>The responder numbers a connection accounts for, each in one place only.\<close>

definition tickets :: "connection_state \<Rightarrow> nat multiset" where
  "tickets s = mset (map fst (spawned s)) + mset (map fst (conn_waiting s)) +
     mset (map fst (reply_queue s)) + mset (map fst (sent_frames s))"

definition all_tickets :: "connection_state list \<Rightarrow> nat multiset" where
  "all_tickets ss = \<Sum>\<^sub># (image_mset tickets (mset ss))"

definition connection_ok :: "engine \<Rightarrow> nat \<Rightarrow> connection_state \<Rightarrow> bool" where
  "connection_ok st n s \<longleftrightarrow>
     (\<forall>r \<in># tickets s. r < n) \<and>
     (\<forall>(r, tx) \<in> set (spawned s). r \<notin># held st) \<and>
     (\<forall>(r, m) \<in> set (reply_queue s). \<exists>e. (r, e) \<in> set (answers st) \<and>
        m = dialect_build_response (conn_dialect s) e) \<and>
     (\<forall>(r, f) \<in> set (sent_frames s). \<exists>e. (r, e) \<in> set (answers st) \<and>
        server_reply (dialect_build_response (conn_dialect s)) e = Ok f)"

definition daemon_inv :: "daemon \<Rightarrow> bool" where
  "daemon_inv d \<longleftrightarrow>
     engine_inv (core d) \<and> (\<forall>r \<in># held (core d). r < next_responder d) \<and>
     (\<forall>s \<in> set (sockets d). connection_ok (core d) (next_responder d) s) \<and>
     (\<forall>r. count (all_tickets (sockets d)) r \<le> 1) \<and>
     current_conns d = length (filter reading (sockets d))"

lemma all_tickets_update:
  assumes "k < length ss"
  shows "all_tickets (ss[k := s]) + tickets (ss ! k) = all_tickets ss + tickets s"
proof -
  have "mset ss = add_mset (ss ! k) (mset ss - {#ss ! k#})" using assms by simp
  then have "all_tickets ss = tickets (ss ! k) + \<Sum>\<^sub># (image_mset tickets (mset ss - {#ss ! k#}))"
    unfolding all_tickets_def by (metis image_mset_add_mset sum_mset.add_mset)
  then show ?thesis using assms by (simp add: all_tickets_def mset_update)
qed

lemma tickets_all: "s \<in> set ss \<Longrightarrow> tickets s \<subseteq># all_tickets ss"
  by (induction ss) (auto simp: all_tickets_def intro: subset_mset.trans)

lemma tickets_bound:
  assumes "daemon_inv d" and "r \<in># all_tickets (sockets d)"
  shows "r < next_responder d"
  using assms by (auto simp: daemon_inv_def all_tickets_def connection_ok_def)

lemma reading_update:
  assumes "k < length ss"
  shows "length (filter reading (ss[k := s])) + (if reading (ss ! k) then 1 else 0)
    = length (filter reading ss) + (if reading s then 1 else 0)"
proof -
  have "filter reading ss = filter reading (take k ss) @ filter reading [ss ! k] @ filter reading (drop (Suc k) ss)"
    by (subst id_take_nth_drop [OF assms]) simp
  then show ?thesis using assms by (simp add: upd_conv_take_nth_drop)
qed

text \<open>A ticket of one connection is not on another.\<close>

lemma tickets_disjoint:
  assumes "\<forall>r. count (all_tickets ss) r \<le> 1" and "k < length ss" and "l < length ss" and "k \<noteq> l"
    and "r \<in># tickets (ss ! k)"
  shows "r \<notin># tickets (ss ! l)"
proof -
  let ?rest = "take k ss @ drop (Suc k) ss"
  have split: "all_tickets ss = tickets (ss ! k) + all_tickets ?rest"
    by (subst id_take_nth_drop [OF assms(2)]) (simp add: all_tickets_def)
  have "ss ! l \<in> set ?rest"
  proof (cases "l < k")
    case True
    then have "ss ! l = take k ss ! l" by simp
    then show ?thesis using True assms(3) by (metis Un_iff length_take min_less_iff_conj nth_mem set_append)
  next
    case False
    then have "ss ! l = drop (Suc k) ss ! (l - Suc k)" "l - Suc k < length (drop (Suc k) ss)"
      using assms(3,4) by simp_all
    then show ?thesis using nth_mem [of "l - Suc k" "drop (Suc k) ss"] by simp
  qed
  then have "count (tickets (ss ! l)) r \<le> count (all_tickets ?rest) r"
    by (intro mset_subset_eq_count tickets_all)
  moreover have "count (tickets (ss ! k)) r + count (all_tickets ?rest) r \<le> 1"
    using assms(1) split by (metis count_union)
  moreover have "1 \<le> count (tickets (ss ! k)) r" using assms(5) by simp
  ultimately have "count (tickets (ss ! l)) r = 0" by linarith
  then show ?thesis by (simp add: not_in_iff)
qed

section \<open>Every step keeps it\<close>

lemma daemon_inv_core:
  assumes "daemon_inv d" and "engine_inv st" and "set_mset (held st) \<subseteq> set_mset (held (core d))"
    and "set (answers (core d)) \<subseteq> set (answers st)"
  shows "daemon_inv (d\<lparr>core := st\<rparr>)"
proof -
  have "connection_ok st (next_responder d) s" if "s \<in> set (sockets d)" for s
  proof -
    have ok: "connection_ok (core d) (next_responder d) s" using that assms(1) by (simp add: daemon_inv_def)
    have "\<forall>(r, tx) \<in> set (spawned s). r \<notin># held st" using ok assms(3) by (auto simp: connection_ok_def)
    moreover have "\<forall>(r, m) \<in> set (reply_queue s). \<exists>e. (r, e) \<in> set (answers st) \<and>
        m = dialect_build_response (conn_dialect s) e"
      using ok assms(4) unfolding connection_ok_def by blast
    moreover have "\<forall>(r, f) \<in> set (sent_frames s). \<exists>e. (r, e) \<in> set (answers st) \<and>
        server_reply (dialect_build_response (conn_dialect s)) e = Ok f"
      using ok assms(4) unfolding connection_ok_def by blast
    ultimately show ?thesis using ok by (simp add: connection_ok_def)
  qed
  then show ?thesis using assms by (auto simp: daemon_inv_def)
qed

lemma daemon_inv_put:
  assumes "daemon_inv d" and "k < length (sockets d)" and "connection_ok (core d) (next_responder d) s"
    and "tickets s \<subseteq># tickets (sockets d ! k)" and "reading s = reading (sockets d ! k)"
  shows "daemon_inv (put_socket k s d)"
proof -
  have "count (all_tickets ((sockets d)[k := s])) r \<le> 1" for r
  proof -
    have "count (all_tickets ((sockets d)[k := s])) r + count (tickets (sockets d ! k)) r
        = count (all_tickets (sockets d)) r + count (tickets s) r"
      using all_tickets_update [OF assms(2), of s] by (metis count_union)
    moreover have "count (tickets s) r \<le> count (tickets (sockets d ! k)) r"
      using assms(4) by (rule mset_subset_eq_count)
    moreover have "count (all_tickets (sockets d)) r \<le> 1" using assms(1) by (simp add: daemon_inv_def)
    ultimately show ?thesis by linarith
  qed
  moreover have "length (filter reading ((sockets d)[k := s])) = length (filter reading (sockets d))"
    using reading_update [OF assms(2), of s] assms(5) by simp
  ultimately show ?thesis
    using assms set_update_subset_insert [of "sockets d" k s] by (auto simp: daemon_inv_def put_socket_def)
qed

lemma hang_up_inv:
  assumes "daemon_inv d" and "k < length (sockets d)" and "reading (sockets d ! k)"
    and "connection_ok (core d) (next_responder d) s" and "tickets s = tickets (sockets d ! k)"
  shows "daemon_inv (hang_up k s d)"
proof -
  let ?s = "s\<lparr>reading := False\<rparr>"
  have same: "tickets ?s = tickets s" "connection_ok st n ?s = connection_ok st n s" for st n
    by (simp_all add: tickets_def connection_ok_def)
  have "all_tickets ((sockets d)[k := ?s]) = all_tickets (sockets d)"
    using all_tickets_update [OF assms(2), of ?s] same assms(5) by simp
  moreover have "length (filter reading ((sockets d)[k := ?s])) = length (filter reading (sockets d)) - 1"
    using reading_update [OF assms(2), of ?s] assms(3) by simp
  ultimately show ?thesis
    using assms same set_update_subset_insert [of "sockets d" k ?s]
    by (auto simp: daemon_inv_def hang_up_def put_socket_def)
qed

lemma connection_ok_buffer [simp]:
  "connection_ok st n (s\<lparr>recv_buffer := b\<rparr>) = connection_ok st n s" "tickets (s\<lparr>recv_buffer := b\<rparr>) = tickets s"
  by (simp_all add: connection_ok_def tickets_def)

lemma connection_ok_mono: "connection_ok st n s \<Longrightarrow> connection_ok st (n + 1) s"
  by (auto simp: connection_ok_def less_SucI)

lemma read_frame_inv:
  assumes "daemon_inv d" and k: "k < length (sockets d)" and "reading (sockets d ! k)"
  shows "daemon_inv (read_frame k (sockets d ! k) d)"
proof -
  let ?s = "sockets d ! k" and ?n = "next_responder d"
  have ok: "connection_ok (core d) ?n ?s" using assms by (simp add: daemon_inv_def)
  have "read_frame k ?s d = d \<or> read_frame k ?s d = hang_up k ?s d \<or>
    (\<exists>rest. read_frame k ?s d = hang_up k (?s\<lparr>recv_buffer := rest\<rparr>) d) \<or>
    (\<exists>rest. read_frame k ?s d = put_socket k (?s\<lparr>recv_buffer := rest\<rparr>) d) \<or>
    (\<exists>rest tx. read_frame k ?s d = (put_socket k (?s\<lparr>recv_buffer := rest, spawned := spawned ?s @ [(?n, tx)]\<rparr>) d)
        \<lparr>next_responder := ?n + 1\<rparr>)"
    unfolding read_frame_def Let_def by (simp split: outcome.splits option.splits prod.splits) blast
  then consider "read_frame k ?s d = d" | "read_frame k ?s d = hang_up k ?s d"
    | rest where "read_frame k ?s d = hang_up k (?s\<lparr>recv_buffer := rest\<rparr>) d"
    | rest where "read_frame k ?s d = put_socket k (?s\<lparr>recv_buffer := rest\<rparr>) d"
    | rest tx where "read_frame k ?s d = (put_socket k (?s\<lparr>recv_buffer := rest, spawned := spawned ?s @ [(?n, tx)]\<rparr>) d)
        \<lparr>next_responder := ?n + 1\<rparr>"
    by blast
  then show ?thesis
  proof cases
    case 4
    then show ?thesis using assms ok by (simp add: daemon_inv_put)
  next
    case (5 rest tx)
    let ?s' = "?s\<lparr>recv_buffer := rest, spawned := spawned ?s @ [(?n, tx)]\<rparr>"
    have fresh: "?n \<notin># held (core d)" "?n \<notin># all_tickets (sockets d)"
      using assms(1) tickets_bound [OF assms(1), of ?n] by (auto simp: daemon_inv_def)
    have add: "tickets ?s' = add_mset ?n (tickets ?s)" by (simp add: tickets_def)
    then have "all_tickets ((sockets d)[k := ?s']) = add_mset ?n (all_tickets (sockets d))"
      using all_tickets_update [OF k, of ?s'] by simp
    then have "count (all_tickets ((sockets d)[k := ?s'])) r \<le> 1" for r
      using assms(1) fresh(2) by (auto simp: daemon_inv_def not_in_iff)
    moreover have "connection_ok (core d) (?n + 1) ?s'"
      using ok fresh add by (auto simp: connection_ok_def)
    moreover have "connection_ok (core d) (?n + 1) s" if "s \<in> set (sockets d)" for s
      using assms(1) that by (simp add: daemon_inv_def connection_ok_mono [simplified])
    moreover have "length (filter reading ((sockets d)[k := ?s'])) = length (filter reading (sockets d))"
      using reading_update [OF k, of ?s'] by simp
    ultimately show ?thesis
      using assms(1) 5 set_update_subset_insert [of "sockets d" k ?s']
      by (auto simp: daemon_inv_def put_socket_def)
  qed (use assms ok in \<open>simp_all add: hang_up_inv\<close>)
qed

text \<open>An answer-less submission leaves the responders alone; that of a spawned task holds its own.\<close>

lemma submit_engine:
  "set (option_list (ctx_responder ctx)) \<inter> set_mset (held (core d)) = {} \<Longrightarrow> engine_step cd h (core d) (core (submit ctx d))"
  using engine_step.arrive [of ctx "core d" cd h] by (simp add: submit_def)

lemma submitted_inv:
  assumes "daemon_inv d" and "set (option_list (ctx_responder ctx)) \<inter> set_mset (held (core d)) = {}"
  shows "engine_inv (core (submit ctx d))"
  using engine_step_inv [OF submit_engine [OF assms(2)]] assms(1) by (simp add: daemon_inv_def)

lemma submit_quiet_inv:
  assumes "daemon_inv d" and "ctx_responder ctx = None"
  shows "daemon_inv (submit ctx d)"
proof -
  let ?st = "core (submit ctx d)"
  have "held ?st = held (core d)" "answers ?st = answers (core d)"
    using assms(2) by (simp_all add: submit_def held_def)
  moreover have "engine_inv ?st" using submitted_inv assms by simp
  moreover have "submit ctx d = d\<lparr>core := ?st\<rparr>" by (simp add: submit_def)
  ultimately show ?thesis using daemon_inv_core [OF assms(1), of ?st] by simp
qed

text \<open>A task that hands its context to the engine moves its ticket from the spawned to the waiting.\<close>

text \<open>A responder that is handed to the engine is pending in no other task of any connection.\<close>

lemma handed_alone:
  assumes "daemon_inv d" and k: "k < length (sockets d)" and l: "l < length (sockets d)"
    and sp: "spawned (sockets d ! k) = before @ (r, tx) # after"
  shows "r \<notin> fst ` set (if l = k then before @ after else spawned (sockets d ! l))"
proof (cases "l = k")
  case True
  have "count (tickets (sockets d ! k)) r \<le> 1"
    using mset_subset_eq_count [OF tickets_all [of "sockets d ! k" "sockets d"], of r] assms(1) k
    by (simp add: daemon_inv_def) (meson le_trans)
  then have "count (mset (map fst (spawned (sockets d ! k)))) r \<le> 1" by (simp add: tickets_def)
  then show ?thesis using True sp by (auto simp: count_eq_zero_iff)
next
  case False
  have "r \<in># tickets (sockets d ! k)" using sp by (simp add: tickets_def)
  then have "r \<notin># tickets (sockets d ! l)"
    using tickets_disjoint [OF _ k l] False assms(1) by (simp add: daemon_inv_def)
  then show ?thesis using False by (auto simp: tickets_def)
qed

lemma handed_inv:
  assumes "daemon_inv d" and k: "k < length (sockets d)"
    and sp: "spawned (sockets d ! k) = before @ (r, tx) # after"
  shows "daemon_inv (put_socket k ((sockets d ! k)\<lparr>spawned := before @ after,
      conn_waiting := conn_waiting (sockets d ! k) @ [(r, tx)]\<rparr>)
    (submit \<lparr>ctx_transaction = tx, ctx_responder = Some r\<rparr> d))"
proof -
  let ?s = "sockets d ! k" and ?ctx = "\<lparr>ctx_transaction = tx, ctx_responder = Some r\<rparr>"
  let ?s' = "?s\<lparr>spawned := before @ after, conn_waiting := conn_waiting ?s @ [(r, tx)]\<rparr>"
  let ?st = "core (submit ?ctx d)"
  have ok: "connection_ok (core d) (next_responder d) ?s" using assms(1) k by (simp add: daemon_inv_def)
  have fresh: "r \<notin># held (core d)" "r < next_responder d"
    using ok sp by (auto simp: connection_ok_def tickets_def)
  have held: "held ?st = add_mset r (held (core d))" and ans: "answers ?st = answers (core d)"
    by (simp_all add: submit_def held_def)
  have same: "tickets ?s' = tickets ?s" by (simp add: tickets_def sp)
  have "connection_ok ?st (next_responder d) s" if mem: "s \<in> set ((sockets d)[k := ?s'])" for s
  proof -
    obtain l where l: "l < length (sockets d)" "s = (if l = k then ?s' else sockets d ! l)"
      using mem by (auto simp: in_set_conv_nth nth_list_update)
    have "r \<notin> fst ` set (spawned s)" using handed_alone [OF assms(1) k l(1) sp] l(2) by (auto split: if_splits)
    then have "(r, b) \<notin> set (spawned s)" for b by force
    moreover have "connection_ok (core d) (next_responder d) (sockets d ! l)"
      using assms(1) l(1) by (simp add: daemon_inv_def)
    then have "connection_ok (core d) (next_responder d) s"
      using l(2) same sp by (auto simp: connection_ok_def split: if_splits)
    ultimately show ?thesis by (auto simp: connection_ok_def held ans)
  qed
  moreover have "engine_inv ?st" using submitted_inv [OF assms(1)] fresh(1) by simp
  moreover have "all_tickets ((sockets d)[k := ?s']) = all_tickets (sockets d)"
    using all_tickets_update [OF k, of ?s'] same by simp
  moreover have "length (filter reading ((sockets d)[k := ?s'])) = length (filter reading (sockets d))"
    using reading_update [OF k, of ?s'] by simp
  ultimately show ?thesis
    using assms(1) fresh(2) held by (auto simp: daemon_inv_def put_socket_def submit_def)
qed

lemma task_step_inv:
  assumes "daemon_inv d" and k: "k < length (sockets d)" and "task_step k (sockets d ! k) d d'"
  shows "daemon_inv d'"
proof -
  let ?s = "sockets d ! k"
  have ok: "connection_ok (core d) (next_responder d) ?s" using assms(1) k by (simp add: daemon_inv_def)
  note put = daemon_inv_put [OF assms(1) k]
  show ?thesis
    using assms(3)
  proof cases
    case (handed before r tx after)
    then show ?thesis using handed_inv [OF assms(1) k] by simp
  next
    case (answered before r tx after e)
    show ?thesis
      unfolding answered(1) by (rule put) (use answered ok in \<open>auto simp: connection_ok_def tickets_def\<close>)
  next
    case (forgotten before r tx after)
    show ?thesis
      unfolding forgotten(1) by (rule put) (use forgotten ok in \<open>auto simp: connection_ok_def tickets_def\<close>)
  next
    case (dropped before r tx after)
    let ?d = "submit (server_disconnect tx) d"
    have inv: "daemon_inv ?d" by (rule submit_quiet_inv [OF assms(1)]) (simp add: server_disconnect_def)
    have same: "sockets ?d = sockets d" by (simp add: submit_def)
    then have "connection_ok (core ?d) (next_responder ?d) ?s" using inv k by (simp add: daemon_inv_def)
    then show ?thesis
      unfolding dropped(1) by (intro daemon_inv_put [OF inv]) (use dropped k same in \<open>auto simp: connection_ok_def tickets_def\<close>)
  next
    case (written r m ms frm)
    show ?thesis
      unfolding written(1)
      by (rule put) (use written ok in \<open>auto simp: connection_ok_def tickets_def server_reply_def\<close>)
  next
    case (unwritten r m ms)
    show ?thesis
      unfolding unwritten(1) by (rule put) (use unwritten ok in \<open>auto simp: connection_ok_def tickets_def\<close>)
  qed
qed

lemma own_step_inv:
  assumes "daemon_inv d" and "own_step cd h (core d) st"
  shows "daemon_inv (d\<lparr>core := st\<rparr>)"
proof -
  have step: "engine_step cd h (core d) st" and inv: "engine_inv (core d)"
    using assms by (simp_all add: own_step_def daemon_inv_def)
  have "held st \<subseteq># held (core d)"
    using engine_step_held [OF step inv] assms(2) by (auto simp: own_step_def)
  then show ?thesis
    using daemon_inv_core [OF assms(1)] engine_step_inv [OF step inv] engine_step_extends [OF step]
    by (metis set_mono_prefix set_mset_mono)
qed

lemma client_core:
  assumes "client_step enc dec (c0\<lparr>rx := queue (channels st i)\<rparr>, db, bank_replies st) (c, db', rs)"
  shows "put_channel i (rx c) rs st = st \<or> engine_step cd h st (put_channel i (rx c) rs st)"
proof -
  have id: "put_channel i (queue (channels st i)) (bank_replies st) st = st"
    by (simp add: put_channel_def)
  have takes: "engine_step cd h st (put_channel i rest (bank_replies st) st)"
    if "queue (channels st i) = ctx # rest" for ctx rest
    using engine_step.egress_takes [OF that, of cd h] by (simp add: put_channel_def)
  have sends: "engine_step cd h st (put_channel i (queue (channels st i)) (bank_replies st @ [pb]) st)" for pb
    using engine_step.bank_sends [of cd h st pb] by (simp add: put_channel_def)
  show ?thesis
    using assms by cases (use id takes sends in \<open>auto simp: put_conn_def\<close>)
qed

lemma put_channel_frame [simp]:
  "held (put_channel i q rs st) = held st" "answers (put_channel i q rs st) = answers st"
  by (simp_all add: put_channel_def held_def)

lemma daemon_step_core:
  assumes "daemon_inv d" and "daemon_step cd h enc dec d d'"
  shows "core d' = core d \<or> engine_step cd h (core d) (core d')"
  using assms(2)
proof cases
  case (frame k)
  then show ?thesis
    by (auto simp: read_frame_def hang_up_def put_socket_def Let_def split: outcome.splits option.splits)
next
  case (task k)
  have ok: "connection_ok (core d) (next_responder d) (sockets d ! k)" using assms(1) task(1) by (simp add: daemon_inv_def)
  show ?thesis
    using task(2)
  proof cases
    case (handed before r tx after)
    have "r \<notin># held (core d)" using ok handed(2) by (simp add: connection_ok_def)
    then show ?thesis
      using submit_engine [of "\<lparr>ctx_transaction = tx, ctx_responder = Some r\<rparr>" d cd h] handed(1) by (simp add: put_socket_def)
  next
    case (dropped before r tx after)
    then show ?thesis
      using submit_engine [of "server_disconnect tx" d cd h] by (simp add: put_socket_def server_disconnect_def)
  qed (simp_all add: put_socket_def)
next
  case (engine st)
  then show ?thesis by (simp add: own_step_def)
next
  case (client i c db rs)
  then show ?thesis using client_core [OF client(3)] by simp
qed (simp_all add: hang_up_def put_socket_def)

lemma daemon_step_inv:
  assumes "daemon_inv d" and "daemon_step cd h enc dec d d'"
  shows "daemon_inv d'"
  using assms(2)
proof cases
  case (accept dl)
  then show ?thesis
    using assms(1) by (auto simp: daemon_inv_def all_tickets_def tickets_def connection_ok_def connection_new_def)
next
  case (chunk k bytes)
  have "connection_ok (core d) (next_responder d) (sockets d ! k)" using assms(1) chunk(2) by (simp add: daemon_inv_def)
  then show ?thesis unfolding chunk(1) by (intro daemon_inv_put [OF assms(1) chunk(2)]) simp_all
next
  case (frame k)
  then show ?thesis using read_frame_inv [OF assms(1)] by simp
next
  case (eof k)
  then show ?thesis using hang_up_inv [OF assms(1)] assms(1) by (simp add: daemon_inv_def)
next
  case (task k)
  then show ?thesis using task_step_inv [OF assms(1)] by simp
next
  case (engine st)
  then show ?thesis using own_step_inv [OF assms(1)] by simp
next
  case (client i c db rs)
  let ?st = "put_channel i (rx c) rs (core d)"
  have "engine_inv (core d)" using assms(1) by (simp add: daemon_inv_def)
  then have "engine_inv ?st"
    using client_core [OF client(3), of undefined undefined] engine_step_inv by metis
  then have "daemon_inv (d\<lparr>core := ?st\<rparr>)" by (intro daemon_inv_core [OF assms(1)]) simp_all
  then show ?thesis unfolding client(1) by (simp add: daemon_inv_def)
qed

interpretation daemon_core: simulation "daemon_step cd h enc dec" daemon_inv "engine_step cd h" core
  for cd h enc dec
  by unfold_locales (rule daemon_step_inv, assumption+, rule daemon_step_core)

lemma daemon_start_inv: "daemon_inv (daemon_start db saf threads)"
  using engine_start_inv [of db 1500 threads]
  by (simp add: daemon_inv_def daemon_start_def all_tickets_def engine_start_def held_def)

section \<open>Properties\<close>

text \<open>
  C7. The daemon runs the engine. Whatever the connections, tasks and clients do, what happens to
  the engine inside the daemon is a run of the engine from its start, so every statement about the
  engine's reachable states holds in the daemon; and the gauge of open connections is their number,
  so it never underflows.
\<close>

theorem daemon_runs_engine:
  assumes "(daemon_step cd h enc dec)\<^sup>*\<^sup>* (daemon_start db saf threads) d"
  shows "(engine_step cd h)\<^sup>*\<^sup>* (engine_start db 1500 threads) (core d) \<and>
    current_conns d = length (filter reading (sockets d))"
  using daemon_core.reaches [OF assms daemon_start_inv] by (simp add: daemon_inv_def daemon_start_def)

text \<open>
  Frames are unique: every frame written to a connection is the dialect's response for the one
  answer the engine gave to its responder, and no responder has two frames, on this connection or
  another. That the responder was issued for a message of this connection is shown in
  \<open>Daemon_History\<close>.
\<close>

theorem frames_answer_their_connection:
  assumes "(daemon_step cd h enc dec)\<^sup>*\<^sup>* (daemon_start db saf threads) d"
    and "k < length (sockets d)" and "(r, frm) \<in> set (sent_frames (sockets d ! k))"
  shows "(\<exists>e. {a. (r, a) \<in> set (answers (core d))} = {e} \<and> mti e \<in> response_mtis \<and>
      server_reply (dialect_build_response (conn_dialect (sockets d ! k))) e = Ok frm) \<and>
    distinct (map fst (sent_frames (sockets d ! k))) \<and>
    (\<forall>l < length (sockets d). l \<noteq> k \<longrightarrow> r \<notin> fst ` set (sent_frames (sockets d ! l)))"
proof -
  let ?s = "sockets d ! k" and ?st = "core d"
  have inv: "daemon_inv d" using daemon_core.reaches [OF assms(1) daemon_start_inv] by blast
  then have einv: "engine_inv ?st" and ok: "connection_ok ?st (next_responder d) ?s"
    and once: "\<forall>r. count (all_tickets (sockets d)) r \<le> 1"
    using assms(2) by (simp_all add: daemon_inv_def)
  obtain e where e: "(r, e) \<in> set (answers ?st)" "server_reply (dialect_build_response (conn_dialect ?s)) e = Ok frm"
    using ok assms(3) by (fastforce simp: connection_ok_def)
  have "{a. (r, a) \<in> set (answers ?st)} = {e}"
    using e(1) eq_key_imp_eq_value [OF inv_answers_distinct [OF einv]] by blast
  moreover have "mti e \<in> response_mtis" using einv e(1) by (auto simp: engine_inv_def list_all_iff)
  moreover have "count (mset (map fst (sent_frames ?s))) x \<le> 1" for x
  proof -
    have "count (mset (map fst (sent_frames ?s))) x \<le> count (tickets ?s) x" by (simp add: tickets_def)
    also have "\<dots> \<le> count (all_tickets (sockets d)) x"
      using assms(2) by (intro mset_subset_eq_count tickets_all) simp
    finally show ?thesis using once order_trans by blast
  qed
  then have "distinct (map fst (sent_frames ?s))"
    unfolding distinct_count_atmost_1 by (metis count_mset_0_iff le_antisym less_one not_less)
  moreover have "r \<notin> fst ` set (sent_frames (sockets d ! l))" if "l < length (sockets d)" "l \<noteq> k" for l
  proof -
    have "r \<in># tickets ?s" using assms(3) by (force simp: tickets_def)
    then have "r \<notin># tickets (sockets d ! l)"
      using tickets_disjoint [OF once assms(2) that(1)] that(2) by blast
    then show ?thesis by (simp add: tickets_def)
  qed
  ultimately show ?thesis using e(2) by blast
qed

text \<open>A run that serves an echo request on the standard port, as far as the frame on the wire.\<close>

definition sample_echo :: event where
  "sample_echo = (blank_event NetworkManagement (ascii ''0800'') False False)
     \<lparr>stan := ascii ''000007'', rrn := ascii ''000000000007''\<rparr>"

definition sample_echo_reply :: event where
  "sample_echo_reply = sample_echo\<lparr>mti := ascii ''0810'', response_code := ascii ''00'',
     message_class := NetworkManagementResponse\<rparr>"

definition echo_socket :: connection_state where
  "echo_socket = connection_new StandardDialect"

definition echo_daemon :: "connection_state \<Rightarrow> (engine \<Rightarrow> engine) \<Rightarrow> nat \<Rightarrow> daemon" where
  "echo_daemon s f n = (daemon_start Map.empty [] 1)\<lparr>core := f (engine_start Map.empty 1500 1), sockets := [s],
     current_conns := 1, next_responder := n\<rparr>"

lemma echo_daemon_simps [simp]:
  "sockets (echo_daemon s f n) = [s]" "core (echo_daemon s f n) = f (engine_start Map.empty 1500 1)"
  "next_responder (echo_daemon s f n) = n" "put_socket 0 s' (echo_daemon s f n) = echo_daemon s' f n"
  by (simp_all add: echo_daemon_def put_socket_def)

lemma standard_build_short: "length (standard_build_response e) < 65536"
proof -
  have "standard_build_response e = egress_encode e"
    by (simp add: standard_build_response_def egress_encode_def universal_encode_def standard_segments_eq
        split: prod.splits)
  then show ?thesis using egress_encode_fits [of e] by simp
qed

lemma sample_echo_parses: "standard_parse (standard_build_response sample_echo) = Ok sample_echo"
proof -
  have "exact_event sample_echo"
    by (simp add: exact_event_def wire_exact_def wire_wf_def lengths_wf_def off_wire_blank_def fits_def
        sample_echo_def blank_event_def class_of_mti_def reversal_mti_def ascii_def valid_utf8_ascii)
  then have "wire_wf sample_echo" "universal_view sample_echo = sample_echo"
    by (simp_all add: exact_event_def wire_exact_def universal_view_exact)
  then show ?thesis using standard_adapter.response_parses by (simp add: standard_view_eq)
qed

lemma sample_echo_admitted:
  "ctx_transaction ctx = sample_echo \<Longrightarrow> ctx_responder ctx = Some r \<Longrightarrow>
    admit ctx (engine_start Map.empty 1500 1) = Ok ((engine_start Map.empty 1500 1)\<lparr>answers := [(r, sample_echo_reply)]\<rparr>, None)"
  by (simp add: admit_def compliance_ascii tsp_intercept_def risk_declined_def admit_screened_def for_switch_def
      sample_echo_def sample_echo_reply_def blank_event_def engine_start_def respond_def starts_with_def ascii_def Let_def)

definition echo_context :: transaction_context where
  "echo_context = \<lparr>ctx_transaction = sample_echo, ctx_responder = Some 0\<rparr>"

definition echo_queued :: daemon where
  "echo_queued = echo_daemon (echo_socket\<lparr>conn_waiting := [(0, sample_echo)]\<rparr>)
     (\<lambda>st. st\<lparr>ingress_queue := [echo_context]\<rparr>) 1"

definition echo_answer :: "engine \<Rightarrow> engine" where
  "echo_answer st = st\<lparr>answers := [(0, sample_echo_reply)]\<rparr>"

definition echo_served :: daemon where
  "echo_served = echo_daemon (echo_socket\<lparr>sent_frames :=
     [(0, length_prefixed (standard_build_response sample_echo_reply))]\<rparr>) echo_answer 1"

lemma echo_socket_simps [simp]:
  "reading echo_socket" "recv_buffer echo_socket = []" "spawned echo_socket = []" "conn_waiting echo_socket = []"
  "reply_queue echo_socket = []" "sent_frames echo_socket = []" "conn_dialect echo_socket = StandardDialect"
  "echo_socket\<lparr>recv_buffer := [], spawned := x\<rparr> = echo_socket\<lparr>spawned := x\<rparr>"
  "echo_socket\<lparr>spawned := [], conn_waiting := y\<rparr> = echo_socket\<lparr>conn_waiting := y\<rparr>"
  "echo_socket\<lparr>conn_waiting := [], reply_queue := z\<rparr> = echo_socket\<lparr>reply_queue := z\<rparr>"
  "echo_socket\<lparr>reply_queue := [], sent_frames := w\<rparr> = echo_socket\<lparr>sent_frames := w\<rparr>"
  by (simp_all add: echo_socket_def connection_new_def)

lemma echo_request: "(daemon_step cd h enc dec)\<^sup>*\<^sup>* (daemon_start Map.empty [] 1) echo_queued"
proof -
  let ?step = "daemon_step cd h enc dec" and ?s = echo_socket
  let ?f = "length_prefixed (standard_build_response sample_echo)"
  let ?d1 = "echo_daemon ?s id 0" and ?d2 = "echo_daemon (?s\<lparr>recv_buffer := ?f\<rparr>) id 0"
  let ?d3 = "echo_daemon (?s\<lparr>spawned := [(0, sample_echo)]\<rparr>) id 1"
  have "?step (daemon_start Map.empty [] 1) ?d1"
    using daemon_step.accept [of cd h enc dec "daemon_start Map.empty [] 1" StandardDialect]
    by (simp add: echo_daemon_def echo_socket_def daemon_start_def)
  moreover have "?step ?d1 ?d2" using daemon_step.chunk [of 0 ?d1 cd h enc dec ?f] by simp
  moreover have "?step ?d2 ?d3"
  proof -
    have "read_frame 0 (?s\<lparr>recv_buffer := ?f\<rparr>) ?d2 = ?d3"
      by (simp add: read_frame_def decode_length_prefixed standard_build_short server_receive_def
          sample_echo_parses echo_daemon_def put_socket_def)
    then show ?thesis using daemon_step.frame [of 0 ?d2 cd h enc dec] by simp
  qed
  moreover have "?step ?d3 echo_queued"
  proof -
    have "submit echo_context ?d3 = echo_daemon (?s\<lparr>spawned := [(0, sample_echo)]\<rparr>)
        (\<lambda>st. st\<lparr>ingress_queue := [echo_context]\<rparr>) 1"
      by (simp add: submit_def echo_daemon_def engine_start_def)
    then have "task_step 0 (sockets ?d3 ! 0) ?d3 echo_queued"
      using task_step.handed [of "sockets ?d3 ! 0" "[]" 0 sample_echo "[]" 0 ?d3]
      by (simp add: echo_queued_def flip: echo_context_def)
    then show ?thesis by (intro daemon_step.task [of 0]) simp
  qed
  ultimately show ?thesis by (meson converse_rtranclp_into_rtranclp rtranclp.rtrancl_refl)
qed

lemma echo_reply: "(daemon_step cd h enc dec)\<^sup>*\<^sup>* echo_queued echo_served"
proof -
  let ?step = "daemon_step cd h enc dec" and ?m = "standard_build_response sample_echo_reply"
  let ?st = "(engine_start Map.empty 1500 1)\<lparr>ingress_queue := [echo_context]\<rparr>" and ?st' = "echo_answer (engine_start Map.empty 1500 1)"
  let ?d5 = "echo_daemon (echo_socket\<lparr>conn_waiting := [(0, sample_echo)]\<rparr>) echo_answer 1"
  let ?d6 = "echo_daemon (echo_socket\<lparr>reply_queue := [(0, ?m)]\<rparr>) echo_answer 1"
  have "?step echo_queued ?d5"
  proof -
    have "engine_step cd h ?st ?st'"
      using engine_step.ingest [of ?st echo_context "[]" ?st' None cd h] sample_echo_admitted [of echo_context 0]
      by (simp add: engine_start_def echo_answer_def echo_context_def)
    then have "own_step cd h ?st ?st'" by (simp add: own_step_def engine_start_def echo_answer_def)
    then have "?step echo_queued (echo_queued\<lparr>core := ?st'\<rparr>)"
      by (intro daemon_step.engine) (simp add: echo_queued_def)
    then show ?thesis by (simp add: echo_queued_def echo_daemon_def daemon_start_def)
  qed
  moreover have "?step ?d5 ?d6"
  proof -
    have "task_step 0 (sockets ?d5 ! 0) ?d5 ?d6"
      using task_step.answered [of "sockets ?d5 ! 0" "[]" 0 sample_echo "[]" sample_echo_reply ?d5 0]
      by (simp add: echo_answer_def)
    then show ?thesis by (intro daemon_step.task [of 0]) simp
  qed
  moreover have "?step ?d6 echo_served"
  proof -
    have "task_step 0 (sockets ?d6 ! 0) ?d6 echo_served"
      using task_step.written [of "sockets ?d6 ! 0" 0 ?m "[]" "length_prefixed ?m" 0 ?d6]
      by (simp add: iso8583_encode_def length_prefixed_def echo_served_def Let_def)
    then show ?thesis by (intro daemon_step.task [of 0]) simp
  qed
  ultimately show ?thesis by (meson converse_rtranclp_into_rtranclp rtranclp.rtrancl_refl)
qed

lemmas echo_run = rtranclp_trans [OF echo_request echo_reply]

theorem daemon_runs_engine_witness:
  "(engine_step sample_codec silent_hsm)\<^sup>*\<^sup>* (engine_start Map.empty 1500 1) (echo_answer (engine_start Map.empty 1500 1))"
  using daemon_runs_engine [OF echo_run] by (simp add: echo_served_def)

theorem frames_answer_their_connection_witness:
  "server_reply standard_build_response sample_echo_reply
    = Ok (length_prefixed (standard_build_response sample_echo_reply))"
  using frames_answer_their_connection [OF echo_run, of 0 0]
  by (auto simp: echo_served_def echo_answer_def)

end
