(* ===== verification/Pollers.thy ===== *)
theory Pollers
  imports Switch_State Ledger Control_Plane "HOL-Library.Multiset"
begin

text \<open>
  What is read from the operations database: the compliance poller
  (\<open>switch-core/src/compliance.rs\<close>), the poller of the ledger's caches
  (\<open>switch-core/src/ledger_worker.rs\<close>) and the lists of the control plane
  (\<open>ops-control-plane/src/main.rs\<close>); and the loader of card profiles. Whether a connection, a statement or a query succeeds is an
  input. One round of a poller is a function; the loop repeats it every minute.
\<close>

section \<open>Sanctions\<close>

record sanction_row =
  list_type :: rstring
  list_value :: rstring
  sanction_action :: rstring
  sanction_is_live :: bool

definition blocking_rows :: "sanction_row list \<Rightarrow> (rstring \<times> rstring) list" where
  "blocking_rows rows = map (\<lambda>row. (list_type row, list_value row))
     (filter (\<lambda>row. sanction_is_live row \<and> sanction_action row = ascii ''block'') rows)"

definition poll_compliance ::
  "bool \<Rightarrow> bool \<Rightarrow> bool \<Rightarrow> sanction_row list \<Rightarrow> (rstring \<rightharpoonup> rstring) \<Rightarrow> (rstring \<rightharpoonup> rstring)" where
  "poll_compliance opened prepared queried rows cache =
     (if opened \<and> prepared \<and> queried then sync_compliance (blocking_rows rows) cache else cache)"

text \<open>The rows that \<open>schema.sql\<close> and \<open>seed.sql\<close> insert when the control plane starts.\<close>

definition seed_sanctions :: "sanction_row list" where
  "seed_sanctions =
     [\<lparr>list_type = ascii ''currency'', list_value = ascii ''RUB'', sanction_action = ascii ''block'', sanction_is_live = True\<rparr>,
      \<lparr>list_type = ascii ''country'', list_value = ascii ''IR'', sanction_action = ascii ''block'', sanction_is_live = True\<rparr>,
      \<lparr>list_type = ascii ''Country'', list_value = ascii ''NK'', sanction_action = ascii ''Block'', sanction_is_live = True\<rparr>,
      \<lparr>list_type = ascii ''Country'', list_value = ascii ''SY'', sanction_action = ascii ''Block'', sanction_is_live = True\<rparr>,
      \<lparr>list_type = ascii ''Currency'', list_value = ascii ''CUP'', sanction_action = ascii ''Block'', sanction_is_live = True\<rparr>,
      \<lparr>list_type = ascii ''BIN'', list_value = ascii ''420000'', sanction_action = ascii ''Alert'', sanction_is_live = True\<rparr>,
      \<lparr>list_type = ascii ''Merchant'', list_value = ascii ''5933'', sanction_action = ascii ''Block'', sanction_is_live = True\<rparr>]"

section \<open>Caches of the ledger\<close>

text \<open>
  Each query runs only when its statement could be prepared. Rows are inserted; nothing is
  removed from the caches.
\<close>

definition poll_ledger ::
  "bool \<Rightarrow> bool \<Rightarrow> bool \<Rightarrow> 'f fee_row list \<Rightarrow> coa_row list
    \<Rightarrow> (rstring \<rightharpoonup> 'f fee_rule) \<times> (rstring \<rightharpoonup> account_mapping)
    \<Rightarrow> (rstring \<rightharpoonup> 'f fee_rule) \<times> (rstring \<rightharpoonup> account_mapping)" where
  "poll_ledger opened fees_prepared accounts_prepared fee_rows coa_rows caches =
     (if opened then
        (if fees_prepared then poll_fees fee_rows (fst caches) else fst caches,
         if accounts_prepared then poll_accounts coa_rows (snd caches) else snd caches)
      else caches)"

section \<open>Lists of the control plane\<close>

text \<open>
  The live routing rules, newest first; as for the publication, a NULL id that cannot be decoded
  fails the query. The ledger shows its 200 newest rows; SQLite leaves the order of rows booked at
  the same time open, and here the later row comes first.
\<close>

definition get_active_routes :: "nat option \<Rightarrow> bool \<Rightarrow> route_row row list \<Rightarrow> route_row row list" where
  "get_active_routes null_id db_ok t =
     (if \<not> db_ok \<or> null_id = None \<and> list_ex (\<lambda>r. row_id r = None) (live_rows t) then []
      else rev (live_rows t))"

definition get_ledger_transactions :: "bool \<Rightarrow> (nat \<times> ledger_row) list \<Rightarrow> (nat \<times> ledger_row) list" where
  "get_ledger_transactions db_ok rows = (if db_ok then take 200 (rev (sort_key fst rows)) else [])"

section \<open>The STIP loader\<close>

text \<open>
  \<open>switch-core/src/bin/stip_loader.rs\<close>: every record of the CSV file becomes a card profile; the first
  record that cannot be read ends the program, with the records before it stored. Without a file
  name it only prints its usage.
\<close>

fun load_records ::
  "(card_profile \<Rightarrow> bytes) \<Rightarrow> (unit, rstring \<times> i64 \<times> rstring) outcome list \<Rightarrow> (bytes \<rightharpoonup> bytes) \<times> nat
    \<Rightarrow> (unit, nat) outcome \<times> (bytes \<rightharpoonup> bytes)" where
  "load_records ser [] (db, n) = (Ok n, db)"
| "load_records ser (Ok (pan, bal, status) # rs) (db, n) =
     load_records ser rs (db(pan \<mapsto> ser (load_profile bal status)), n + 1)"
| "load_records ser (_ # rs) (db, n) = (Err (), db)"

definition stip_loader_main ::
  "(card_profile \<Rightarrow> bytes) \<Rightarrow> rstring list \<Rightarrow> (rstring \<Rightarrow> (unit, rstring \<times> i64 \<times> rstring) outcome list option)
    \<Rightarrow> (bytes \<rightharpoonup> bytes) \<Rightarrow> (unit, nat) outcome \<times> (bytes \<rightharpoonup> bytes)" where
  "stip_loader_main ser args from_path db =
     (if length args < 2 then (Ok 0, db)
      else case from_path (args ! 1) of
        None \<Rightarrow> (Err (), db)
      | Some records \<Rightarrow> load_records ser records (db, 0))"

section \<open>Lemmas\<close>

text \<open>The loader stores the records before the first one it cannot read.\<close>

lemma load_records_prefix:
  "load_records ser (map Ok good @ Err e # rest) (db, n) = (Err (), stip_load ser good db)"
  "load_records ser (map Ok good) (db, n) = (Ok (n + length good), stip_load ser good db)"
  by (induction good arbitrary: db n) (auto simp: stip_load_def)

lemma poll_fees_lookup:
  "poll_fees rows cache k =
     (if k \<in> fee_key ` set rows
      then Some (fee_rule (last (filter (\<lambda>row. fee_key row = k) rows))) else cache k)"
  unfolding poll_fees_def by (induction rows rule: rev_induct) auto

text \<open>The ledger list holds the newest rows: none that is left out is newer than one that is shown.\<close>

lemma ledger_list_newest:
  assumes "shown \<in> set (get_ledger_transactions True rows)"
    and "hidden \<in># mset rows - mset (get_ledger_transactions True rows)"
  shows "fst hidden \<le> fst shown"
proof -
  let ?s = "rev (sort_key fst rows)"
  have "mset rows = mset (take 200 ?s @ drop 200 ?s)" unfolding append_take_drop_id by simp
  then have "mset rows = mset (take 200 ?s) + mset (drop 200 ?s)" by (simp only: mset_append)
  then have "hidden \<in> set (drop 200 ?s)" using assms(2) by (simp add: get_ledger_transactions_def)
  moreover have "sorted_wrt (\<lambda>x y. fst y \<le> fst x) ?s"
    using sorted_sort_key [of fst rows] by (simp add: sorted_wrt_rev sorted_map)
  then have "sorted_wrt (\<lambda>x y. fst y \<le> fst x) (take 200 ?s @ drop 200 ?s)" by simp
  ultimately show ?thesis
    using assms(1) unfolding sorted_wrt_append by (simp add: get_ledger_transactions_def)
qed

section \<open>Properties\<close>

text \<open>
  C31. After a successful round of the poller the sanctions table is what is enforced: a transaction
  with an ASCII card number is blocked iff it has at least six digits and some live row whose action
  is exactly \<open>block\<close> lists its first six. The rows that the repository seeds, whose actions and types
  are spelt otherwise, block nothing.
\<close>

theorem sanctions_table_enforced:
  assumes "list_all (\<lambda>b. b < 0x80) (fpan (ctx_transaction ctx))"
  shows "compliance_evaluate (poll_compliance True True True rows cache) ctx =
      Ok (6 \<le> length (fpan (ctx_transaction ctx)) \<and>
        (\<exists>row \<in> set rows. sanction_is_live row \<and> sanction_action row = ascii ''block'' \<and>
           sanction_key (list_type row, list_value row) = ascii ''bin:'' @ take 6 (fpan (ctx_transaction ctx)))) \<and>
    compliance_evaluate (poll_compliance True True True seed_sanctions cache) ctx = Ok False"
proof -
  have general: "compliance_evaluate (poll_compliance True True True rows cache) ctx =
      Ok (6 \<le> length (fpan (ctx_transaction ctx)) \<and>
        (\<exists>row \<in> set rows. sanction_is_live row \<and> sanction_action row = ascii ''block'' \<and>
           sanction_key (list_type row, list_value row) = ascii ''bin:'' @ take 6 (fpan (ctx_transaction ctx))))" for rows
    unfolding compliance_ascii [OF assms]
    by (auto simp: poll_compliance_def sync_compliance_keys blocking_rows_def image_iff)
  then show ?thesis
    by (simp add: seed_sanctions_def sanction_key_def to_lowercase_def to_uppercase_def ascii_def)
qed

definition sample_sanction :: sanction_row where
  "sample_sanction = \<lparr>list_type = ascii ''BIN'', list_value = ascii ''411111'',
     sanction_action = ascii ''block'', sanction_is_live = True\<rparr>"

theorem sanctions_table_enforced_witness:
  "compliance_evaluate (poll_compliance True True True [sample_sanction] Map.empty)
     \<lparr>ctx_transaction = (blank_event Authorization [] False False)\<lparr>fpan := ascii ''4111111''\<rparr>,
      ctx_responder = None\<rparr> = Ok True"
proof -
  let ?ctx = "\<lparr>ctx_transaction = (blank_event Authorization [] False False)\<lparr>fpan := ascii ''4111111''\<rparr>,
    ctx_responder = None\<rparr>"
  have "sanction_key (ascii ''BIN'', ascii ''411111'') = ascii ''bin:411111''"
    by (simp add: sanction_key_def to_lowercase_def to_uppercase_def ascii_def)
  then show ?thesis
    using sanctions_table_enforced [of ?ctx "[sample_sanction]" Map.empty]
    by (simp add: sample_sanction_def ascii_def)
qed

text \<open>
  The ledger's caches only grow. A round of polling gives every key of the live fee rules the
  rule of its last row, and leaves every other key as it was: a rule that has been retired in the
  database keeps pricing transactions until the switch restarts.
\<close>

theorem retired_fee_rule_stays:
  "fst (poll_ledger True True accounts_prepared fee_rows coa_rows (fees, accounts)) k =
     (if k \<in> fee_key ` set fee_rows
      then Some (fee_rule (last (filter (\<lambda>row. fee_key row = k) fee_rows)))
      else fees k)"
  by (simp add: poll_ledger_def poll_fees_lookup)

end
