(* ===== verification/Mock_Servers.thy ===== *)
theory Mock_Servers
  imports Edge Hsm_Client "HOL-Library.Multiset"
begin

text \<open>
  The connections of the two mock servers. The mock HSM
  (\<open>ISO8583PaymentSimulator/src/bin/mock_hsm.rs\<close>) answers one command after the other and gives a
  connection up at the first frame it cannot decode. The mock bank
  (\<open>ISO8583PaymentSimulator/mock-bank-node/src/main.rs\<close>) answers every message in a task of its own,
  so its replies may overtake each other.
\<close>

section \<open>Mock HSM\<close>

text \<open>What a connection answers to the bytes it has received. A panic ends the connection's task.\<close>

function mock_hsm_serve :: "bytes \<Rightarrow> bytes" where
  "mock_hsm_serve src =
     (case thales_decode src of
        Ok (Some request, rest) \<Rightarrow>
          if length rest < length src then
            (case process_hsm_command request of
               Ok response \<Rightarrow>
                 (case thales_encode response [] of
                    Ok frm \<Rightarrow> frm @ mock_hsm_serve rest
                  | _ \<Rightarrow> [])
             | _ \<Rightarrow> [])
          else []
      | _ \<Rightarrow> [])"
  by pat_completeness auto
termination by (relation "measure length") auto

declare mock_hsm_serve.simps [simp del]

section \<open>Mock bank\<close>

text \<open>The replies to the frames of a connection, in the order in which their tasks finish.\<close>

definition bank_reply_to :: "dialect_router \<Rightarrow> bytes \<Rightarrow> bytes option" where
  "bank_reply_to d msg = (case bank_receive d msg of Ok r \<Rightarrow> r | _ \<Rightarrow> None)"

definition bank_session :: "dialect_router \<Rightarrow> bytes \<Rightarrow> bytes list \<Rightarrow> bool" where
  "bank_session d src replies \<longleftrightarrow> (\<exists>msgs rest. drain iso8583_decode src = Ok (msgs, rest) \<and>
     mset replies = mset (List.map_filter (bank_reply_to d) msgs))"

text \<open>The connections of the two networks' ports.\<close>

definition visa_mock :: "bytes \<Rightarrow> bytes list \<Rightarrow> bool" where
  "visa_mock = bank_session Connex"

definition mastercard_mock :: "bytes \<Rightarrow> bytes list \<Rightarrow> bool" where
  "mastercard_mock = bank_session Base24"

section \<open>Lemmas\<close>

lemma sendable_ascii:
  "valid_utf8 h \<Longrightarrow> length h = 4 \<Longrightarrow> is_ascii c \<Longrightarrow> length c = 2 \<Longrightarrow> is_ascii p \<Longrightarrow> length p \<le> 65529 \<Longrightarrow>
    thales_sendable \<lparr>header = h, command = c, payload = p\<rparr>"
  by (simp add: thales_sendable_def valid_utf8_ascii)

text \<open>Every command in ASCII is answered, under its own header, with a message that can be framed.\<close>

lemma hsm_answers:
  assumes "thales_sendable m" and "is_ascii (command m)" and "is_ascii (payload m)"
  shows "\<exists>r. process_hsm_command m = Ok r \<and> header r = header m \<and> thales_sendable r"
proof -
  have m: "m = \<lparr>header = header m, command = command m, payload = payload m\<rparr>" by simp
  have hdr: "valid_utf8 (header m)" "length (header m) = 4" "length (command m) = 2"
    using assms(1) by (simp_all add: thales_sendable_def)
  have codes: "is_ascii (ascii ''CB'')" "is_ascii (ascii ''DB'')" "is_ascii (ascii ''M1'')" "is_ascii (ascii ''00'')"
    "is_ascii (ascii ''01'')" "is_ascii (ascii ''05'')" "is_ascii (ascii ''15'')" "is_ascii (ascii ''B'')"
    "length (ascii ''CB'') = 2" "length (ascii ''DB'') = 2" "length (ascii ''M1'') = 2" "length (ascii ''00'') = 2"
    "length (ascii ''01'') = 2" "length (ascii ''05'') = 2" "length (ascii ''15'') = 2" "length (ascii ''B'') = 1"
    by (simp_all add: ascii_def)
  have pin: "is_ascii (take n (drop k (payload m)))" for n k
    using assms(3) by (auto simp: list_all_iff dest: in_set_takeD in_set_dropD)
  obtain b1 b2 where cmd: "command m = [b1, b2]" using hdr(3) by (auto simp: length_Suc_conv numeral_2_eq_2)
  have "\<exists>c p. process_hsm_command m = Ok \<lparr>header = header m, command = c, payload = p\<rparr> \<and>
      is_ascii c \<and> length c = 2 \<and> is_ascii p \<and> length p \<le> 18"
  proof -
    have rev: "reverse_chars (take 16 (drop 34 (payload m))) = rev (take 16 (drop 34 (payload m)))"
      by (rule reverse_chars_ascii [OF pin])
    have chars: "utf8_chars (command m) = [[b1], [b2]]" using assms(2) by (simp add: utf8_chars_ascii cmd)
    show ?thesis
      using assms(2,3) codes pin [of 16 34]
      by (subst m) (auto simp: process_hsm_command_def str_slice_ascii rev chars cmd Let_def split: if_splits)
  qed
  then obtain c p where r: "process_hsm_command m = Ok \<lparr>header = header m, command = c, payload = p\<rparr>"
    "is_ascii c" "length c = 2" "is_ascii p" "length p \<le> 18" by blast
  then show ?thesis using sendable_ascii [OF hdr(1,2) r(2,3,4)] by simp
qed

lemma hsm_serve_frames:
  assumes "\<forall>m \<in> set ms. thales_sendable m \<and> is_ascii (command m) \<and> is_ascii (payload m)"
  shows "\<exists>frames rs. (\<forall>dst. send_all thales_encode ms dst = Ok (dst @ frames)) \<and>
    drain thales_decode (mock_hsm_serve frames) = Ok (rs, []) \<and>
    list_all2 (\<lambda>m r. process_hsm_command m = Ok r \<and> header r = header m) ms rs"
  using assms
proof (induction ms)
  case Nil
  have "mock_hsm_serve [] = []" by (subst mock_hsm_serve.simps) (simp add: thales.decode_nil)
  then show ?case by (simp add: thales.drain_waits [OF thales.decode_nil])
next
  case (Cons m ms)
  then obtain frames rs where rest: "\<forall>dst. send_all thales_encode ms dst = Ok (dst @ frames)"
    "drain thales_decode (mock_hsm_serve frames) = Ok (rs, [])"
    "list_all2 (\<lambda>m r. process_hsm_command m = Ok r \<and> header r = header m) ms rs" by auto
  have m: "thales_sendable m" "is_ascii (command m)" "is_ascii (payload m)" using Cons.prems by simp_all
  obtain r where r: "process_hsm_command m = Ok r" "header r = header m" "thales_sendable r"
    using hsm_answers [OF m] by blast
  obtain f where f: "\<forall>dst. thales_encode m dst = Ok (dst @ f)" "\<forall>rest. thales_decode (f @ rest) = Ok (Some m, rest)"
    using thales.encode_frame [OF m(1)] by blast
  obtain g where g: "\<forall>dst. thales_encode r dst = Ok (dst @ g)" "\<forall>rest. thales_decode (g @ rest) = Ok (Some r, rest)"
    using thales.encode_frame [OF r(3)] by blast
  have "length frames < length (f @ frames)" using thales.decode_consumes [OF f(2) [rule_format]] .
  then have "mock_hsm_serve (f @ frames) = g @ mock_hsm_serve frames"
    using f(2) g(1) r(1) by (subst mock_hsm_serve.simps) simp
  then have "drain thales_decode (mock_hsm_serve (f @ frames)) = Ok (r # rs, [])"
    using g(2) rest(2) by (simp add: thales.drain_step)
  then show ?case
    using f(1) rest(1,3) r(1,2) by (intro exI [of _ "f @ frames"] exI [of _ "r # rs"]) simp
qed

text \<open>
  The two ports answer alike: their dialects are the same on the wire, so that a switch which
  sends a message to the wrong network's port is not found out.
\<close>

lemma bank_rules_dialect: "process_bank_rules tx d = process_bank_rules tx Connex"
  by (auto simp: process_bank_rules_def router_simps split: option.splits)

lemma bank_reply_dialect: "bank_reply_to d = bank_reply_to Connex"
  by (simp add: fun_eq_iff bank_reply_to_def bank_receive_def router_simps bank_rules_dialect [of _ d]
      split: outcome.splits)

lemma bank_session_dialect: "bank_session d = bank_session Connex"
  by (simp add: fun_eq_iff bank_session_def bank_reply_dialect [of d])

lemma mock_ports_alike: "mastercard_mock = visa_mock"
  by (simp add: mastercard_mock_def visa_mock_def bank_session_dialect [of Base24])

section \<open>Properties\<close>

text \<open>
  An HSM session answers every command in order. Whatever list of commands in ASCII a client
  sends on one connection, reading the connection back yields one response per command, in the
  order of the commands, each the response to its command and under its header.
\<close>

theorem hsm_session_in_order:
  assumes "\<forall>m \<in> set ms. thales_sendable m \<and> is_ascii (command m) \<and> is_ascii (payload m)"
    and "send_all thales_encode ms [] = Ok stream"
  shows "\<exists>rs. drain thales_decode (mock_hsm_serve stream) = Ok (rs, []) \<and>
    list_all2 (\<lambda>m r. process_hsm_command m = Ok r \<and> header r = header m) ms rs"
  using hsm_serve_frames [OF assms(1)] assms(2) by auto

theorem hsm_session_in_order_witness:
  "\<exists>stream rs. send_all thales_encode [\<lparr>header = ascii ''0001'', command = ascii ''M0'', payload = ascii ''X''\<rparr>,
      \<lparr>header = ascii ''0002'', command = ascii ''ZZ'', payload = []\<rparr>] [] = Ok stream \<and>
    drain thales_decode (mock_hsm_serve stream) = Ok (rs, []) \<and> map header rs = [ascii ''0001'', ascii ''0002'']"
proof -
  let ?ms = "[\<lparr>header = ascii ''0001'', command = ascii ''M0'', payload = ascii ''X''\<rparr>,
    \<lparr>header = ascii ''0002'', command = ascii ''ZZ'', payload = []\<rparr>]"
  have ok: "\<forall>m \<in> set ?ms. thales_sendable m \<and> is_ascii (command m) \<and> is_ascii (payload m)"
    by (simp add: thales_sendable_def valid_utf8_ascii ascii_def)
  then obtain stream where "send_all thales_encode ?ms [] = Ok stream"
    using thales.send_all_succeeds [of ?ms "[]"] by blast
  with hsm_session_in_order [OF ok this] show ?thesis
    by (auto simp: list_all2_Cons1)
qed

text \<open>
  A bank session answers every authorization once. For any list of exact 0100 events that the
  switch writes on one connection, the replies, in whatever order the bank's tasks finish, read back
  as one 0110 per request with the request's fields and the bank's verdict.
\<close>

theorem bank_session_answers_all:
  assumes "\<forall>tx \<in> set txs. exact_event tx \<and> mti tx = ascii ''0100''"
    and "send_all iso8583_encode (map egress_encode txs) [] = Ok stream"
    and "bank_session d stream replies"
  shows "mset (map egress_read replies) = mset (map (\<lambda>tx. Ok (Some (to_pb
    (tx\<lparr>mti := ascii ''0110'', response_code := bank_verdict tx\<rparr>)))) txs)"
proof -
  let ?reply = "\<lambda>tx. the (bank_reply_to Connex (egress_encode tx))"
  have reply: "bank_reply_to Connex (egress_encode tx) = Some (?reply tx)"
    "egress_read (?reply tx) = Ok (Some (to_pb (tx\<lparr>mti := ascii ''0110'', response_code := bank_verdict tx\<rparr>)))"
    if "tx \<in> set txs" for tx
    using bank_exchange [of tx] assms(1) that by (auto simp: bank_reply_to_def)
  have "\<forall>m \<in> set (map egress_encode txs). length m \<le> 65535"
    using le_trans [OF egress_encode_fits, of 65535] by simp
  from iso8583.drain_frames [OF this assms(2) iso8583.decode_nil]
  have "drain iso8583_decode stream = Ok (map egress_encode txs, [])" by simp
  then have "mset replies = mset (List.map_filter (bank_reply_to Connex) (map egress_encode txs))"
    using assms(3) by (auto simp: bank_session_dialect [of d] bank_session_def)
  moreover have "List.map_filter (bank_reply_to Connex) (map egress_encode txs) = map ?reply txs"
  proof -
    have "filter (\<lambda>m. bank_reply_to Connex m \<noteq> None) (map egress_encode txs) = map egress_encode txs"
      using reply(1) by (intro filter_True) auto
    then show ?thesis by (simp add: List.map_filter_def)
  qed
  ultimately have "mset (map egress_read replies) = mset (map (\<lambda>tx. egress_read (?reply tx)) txs)"
    by (metis (no_types, lifting) list.map_comp comp_apply map_eq_conv mset_map)
  then show ?thesis using reply(2) by (metis (no_types, lifting) map_eq_conv)
qed

theorem bank_session_answers_all_witness:
  "\<exists>stream msg. send_all iso8583_encode [egress_encode sample_authorization] [] = Ok stream \<and>
    mastercard_mock stream [msg] \<and> egress_read msg = Ok (Some (to_pb
      (sample_authorization\<lparr>mti := ascii ''0110'', response_code := bank_verdict sample_authorization\<rparr>)))"
proof -
  let ?tx = sample_authorization
  have mti: "mti ?tx = ascii ''0100''" by (simp add: sample_authorization_def blank_event_def)
  obtain msg where msg: "bank_receive Connex (egress_encode ?tx) = Ok (Some msg)"
    using bank_exchange [OF sample_exact mti] by blast
  have fits: "\<forall>m \<in> set [egress_encode ?tx]. length m \<le> 65535" using egress_encode_fits [of ?tx] by simp
  then obtain stream where stream: "send_all iso8583_encode [egress_encode ?tx] [] = Ok stream"
    using iso8583.send_all_succeeds [of "[egress_encode ?tx]" "[]"] by blast
  have "mastercard_mock stream [msg]"
    using iso8583.drain_frames [OF fits stream iso8583.decode_nil] msg
    by (simp add: mock_ports_alike visa_mock_def bank_session_def bank_reply_to_def map_filter_simps)
  with bank_session_answers_all [of "[?tx]" stream Base24 "[msg]"] stream show ?thesis
    using sample_exact mti by (auto simp: mastercard_mock_def)
qed

end
