(* ===== verification/Repository_Tests.thy ===== *)
theory Repository_Tests
  imports Journal Upstream Pin_Flow Standard_Dialect Interac_Dialect Uk_Fps_Dialect
begin

text \<open>
  The repository's own tests and debugging programs, run on the model: their inputs as definitions,
  and what the modelled code makes of them. Most of the assertions hold. Those that do not are
  stated as what the code does instead.
\<close>

section \<open>Parsers\<close>

text \<open>\<open>iso-parser/src/lib.rs\<close> and the three editions of \<open>payment-proto/src/iso_dialect.rs\<close>.\<close>

definition test_header :: bytes where
  "test_header = ascii ''0100'' @ [0xFF, 0, 0, 0, 0, 0, 0, 0]"

definition build_test_msg :: "rstring \<Rightarrow> bytes \<Rightarrow> rstring \<Rightarrow> bytes" where
  "build_test_msg m bitmaps data = m @ bitmaps @ data"

definition test_parse_1987_primary_only :: bytes where
  "test_parse_1987_primary_only =
     build_test_msg (ascii ''0100'') (set_bit (replicate 8 0) 4) (ascii ''000000001000'')"

definition test_parse_1993_secondary_bitmap_present :: bytes where
  "test_parse_1993_secondary_bitmap_present =
     build_test_msg (ascii ''1100'') (set_bit (set_bit (replicate 16 0) 1) 4) (ascii ''000000002000'')"

definition test_parse_2003_tertiary_bitmap_present :: bytes where
  "test_parse_2003_tertiary_bitmap_present =
     build_test_msg (ascii ''2100'') (set_bit (set_bit (set_bit (replicate 24 0) 1) 65) 4)
       (ascii ''000000003000'')"

lemma header_test_passes:
  "parse_iso8583 test_header = Ok ([], \<lparr>msg_mti = ascii ''0100'', primary_bitmap = [0xFF, 0, 0, 0, 0, 0, 0, 0]\<rparr>)"
  by (simp add: test_header_def parse_iso8583_def parse_mti_def parse_primary_bitmap_def nom_take_def
      valid_utf8_ascii ascii_def)

text \<open>A message whose only field is the amount, under one, two or three bitmaps.\<close>

lemma filter_upt_single: "a \<le> k \<Longrightarrow> k < b \<Longrightarrow> filter (\<lambda>n. n = k) [a..<b] = [k]"
  by (induction b) (auto simp: le_less_Suc_eq filter_empty_conv)

lemma parse_amount_only:
  assumes "length m = 4" and "read_bitmaps (m @ bm @ d) 4 1 [] = Ok (bm, 4 + length bm)" and "8 \<le> length bm"
    and "\<forall>n. standard_has_field bm n \<longleftrightarrow> n = 4" and "length d = 12"
  shows "standard_parse (m @ bm @ d) = Ok ((standard_init m)\<lparr>amount := parse_amount d\<rparr>)"
proof -
  have present: "standard_has_field bm = (\<lambda>n. n = 4)" using assms(4) by auto
  have "filter (standard_has_field bm) [1..<length bm * 8 + 1] = [4]"
    unfolding present using assms(3) by (intro filter_upt_single) simp_all
  moreover have "dictionary_for b 4 = Some (Fixed 12)" for b
    by (simp add: dictionary_for_def iso1987_field_type_def iso1993_field_type_def iso2003_field_type_def)
  ultimately show ?thesis
    using assms(1,2,3,5)
    by (simp add: standard_parse_eq read_fixed_eq decode_present_filter [of "standard_has_field bm"] standard_field_def
        read_by_type_def with_field_def standard_apply_eq del: upt_Suc)
qed

lemma has_bit_zeros [simp]: "\<not> has_bit (replicate k 0) n"
  by (auto simp: has_bit_bit)

lemma test_bitmaps:
  "set_bit (replicate 8 0) 4 = [0x10, 0, 0, 0, 0, 0, 0, 0]"
  "set_bit (set_bit (replicate 16 0) 1) 4 = [0x90, 0, 0, 0, 0, 0, 0, 0, 0, 0, 0, 0, 0, 0, 0, 0]"
  "set_bit (set_bit (set_bit (replicate 24 0) 1) 65) 4
    = [0x90, 0, 0, 0, 0, 0, 0, 0, 0x80, 0, 0, 0, 0, 0, 0, 0, 0, 0, 0, 0, 0, 0, 0, 0]"
  by code_simp+

lemma test_bitmaps_read:
  assumes "length m = 4"
  shows "read_bitmaps (m @ set_bit (replicate 8 0) 4 @ d) 4 1 [] = Ok (set_bit (replicate 8 0) 4, 12)"
    "read_bitmaps (m @ set_bit (set_bit (replicate 16 0) 1) 4 @ d) 4 1 []
      = Ok (set_bit (set_bit (replicate 16 0) 1) 4, 20)"
    "read_bitmaps (m @ set_bit (set_bit (set_bit (replicate 24 0) 1) 65) 4 @ d) 4 1 []
      = Ok (set_bit (set_bit (set_bit (replicate 24 0) 1) 65) 4, 28)"
  unfolding test_bitmaps using assms by (simp_all add: read_bitmaps_eq read_fixed_eq)

text \<open>
  Every edition of the standard, told apart by the first digit of the MTI and carrying one, two or
  three bitmaps, is parsed: a message whose only field is the amount yields the event of its MTI
  with that amount. At the amounts 1000, 2000 and 3000 these are the repository's own tests.
\<close>

theorem editions_parsed:
  assumes "length m = 4" and "length d = 12"
    and "bm \<in> {set_bit (replicate 8 0) 4, set_bit (set_bit (replicate 16 0) 1) 4,
      set_bit (set_bit (set_bit (replicate 24 0) 1) 65) 4}"
  shows "standard_parse (build_test_msg m bm d) = Ok ((standard_init m)\<lparr>amount := parse_amount d\<rparr>)"
  unfolding build_test_msg_def
  by (rule parse_amount_only) (use assms test_bitmaps_read in \<open>auto simp: standard_has_field_def has_bit_set_bit\<close>)

theorem editions_parsed_witness:
  "standard_parse test_parse_1987_primary_only = Ok ((standard_init (ascii ''0100''))\<lparr>amount := 1000\<rparr>)
   \<and> standard_parse test_parse_1993_secondary_bitmap_present = Ok ((standard_init (ascii ''1100''))\<lparr>amount := 2000\<rparr>)
   \<and> standard_parse test_parse_2003_tertiary_bitmap_present = Ok ((standard_init (ascii ''2100''))\<lparr>amount := 3000\<rparr>)"
proof -
  have amounts: "parse_amount (ascii ''000000001000'') = 1000" "parse_amount (ascii ''000000002000'') = 2000"
    "parse_amount (ascii ''000000003000'') = 3000"
    by (simp_all add: parse_amount_def parse_unsigned_def decimal_value_def digit_value_def is_digit_def
        valid_utf8_ascii ascii_def)
  have lengths: "length (ascii ''0100'') = 4" "length (ascii ''1100'') = 4" "length (ascii ''2100'') = 4"
    "length (ascii ''000000001000'') = 12" "length (ascii ''000000002000'') = 12" "length (ascii ''000000003000'') = 12"
    by (simp_all add: ascii_def)
  show ?thesis
    using editions_parsed [OF lengths(1,4), of "set_bit (replicate 8 0) 4"]
      editions_parsed [OF lengths(2,5), of "set_bit (set_bit (replicate 16 0) 1) 4"]
      editions_parsed [OF lengths(3,6), of "set_bit (set_bit (set_bit (replicate 24 0) 1) 65) 4"]
    by (simp add: test_parse_1987_primary_only_def test_parse_1993_secondary_bitmap_present_def
        test_parse_2003_tertiary_bitmap_present_def amounts)
qed

section \<open>Settlement\<close>

text \<open>
  The test of \<open>switch-core/src/bin/settle.rs\<close> runs a copy of the sweep that has no guard for a short
  journal or an exhausted one. prost is a parameter; its strings are UTF-8.
\<close>

definition sweep_logic :: "(bytes \<Rightarrow> transaction option) \<Rightarrow> bytes \<Rightarrow> tally \<Rightarrow> (unit, tally) outcome" where
  "sweep_logic dec m db =
     bindo (get_u64 db cursor_key) (\<lambda>c.
       bindo (sweep_loop dec m (unat c) db) (\<lambda>(cursor1, db1).
         Ok (put_u64 cursor_key (of_nat cursor1) db1)))"

lemma sweep_logic_sweep:
  "sweep dec m db = Ok db' \<Longrightarrow> 4 \<le> length m \<Longrightarrow> get_u64 db cursor_key = Ok c \<Longrightarrow> unat c < length m \<Longrightarrow>
    sweep_logic dec m db = Ok db'"
  by (simp add: sweep_def sweep_logic_def Let_def)

definition test_settle_tx :: "u64 \<Rightarrow> rstring \<Rightarrow> transaction" where
  "test_settle_tx amt trace =
     \<lparr>pb_mti = ascii ''0100'', pb_pan = ascii ''41111111'', pb_processing_code = ascii ''0'', pb_amount = amt,
      pb_stan = trace, pb_rrn = trace, pb_response_code = ascii ''00'', pb_acquirer_id = ascii ''BankA'',
      pb_pin_block = [], pb_local_time = ascii ''120000'', pb_local_date = ascii ''1231''\<rparr>"

lemma readable_put: "readable db \<Longrightarrow> valid_utf8 k \<Longrightarrow> readable (put_u64 k n db)"
proof -
  assume db: "readable db" and k: "valid_utf8 k"
  have "set (AList.update k v db) \<subseteq> insert (k, v) (set db)" for v by (induction db) auto
  then show ?thesis
    using db k by (fastforce simp: readable_def put_u64_def distinct_update list_all_iff)
qed

lemma settle_readable:
  "settle_tx tx db = Ok db' \<Longrightarrow> readable db \<Longrightarrow> valid_utf8 (pb_acquirer_id tx) \<Longrightarrow> readable db'"
  by (auto simp: settle_tx_def bindo_eq_Ok count_key_def valid_utf8_append valid_utf8_ascii ascii_def
      intro!: readable_put split: if_splits)

text \<open>A sweep leaves a database that the cut-off can read.\<close>

lemma sweep_loop_readable:
  assumes "sweep_loop dec m c db = Ok (c', db')" and "readable db"
    and "\<forall>v tx. dec v = Some tx \<longrightarrow> valid_utf8 (pb_acquirer_id tx)"
  shows "readable db'"
  using assms
proof (induction dec m c db rule: sweep_loop.induct)
  case (1 dec m c db)
  let ?len = "from_be_bytes (take 4 (drop c m))"
  let ?tx = "dec (take ?len (drop (c + 4) m))"
  show ?case
  proof (cases "c + 4 \<le> length m \<and> ?len \<noteq> 0 \<and> c + 4 + ?len \<le> length m")
    case True
    then obtain db1 where db1: "(case ?tx of Some tx \<Rightarrow> settle_tx tx db | None \<Rightarrow> Ok db) = Ok db1"
      "sweep_loop dec m (c + (4 + ?len)) db1 = Ok (c', db')"
      using "1.prems"(1) by (subst (asm) sweep_loop.simps) (auto simp: Let_def bindo_eq_Ok)
    then have "readable db1" using "1.prems"(2,3) settle_readable by (auto split: option.splits)
    then show ?thesis using "1.IH" db1 True "1.prems"(3) by auto
  next
    case False
    then have "db' = db" using "1.prems"(1) by (subst (asm) sweep_loop.simps) (auto simp: Let_def split: if_splits)
    then show ?thesis using "1.prems"(2) by simp
  qed
qed

lemma sweep_readable:
  assumes "sweep dec m db = Ok db'" and "readable db" and "\<forall>v tx. dec v = Some tx \<longrightarrow> valid_utf8 (pb_acquirer_id tx)"
  shows "readable db'"
proof -
  have key: "valid_utf8 cursor_key" by (simp add: cursor_key_def valid_utf8_ascii ascii_def)
  consider "db' = db" | c c' db1 where "sweep_loop dec m c db = Ok (c', db1)" "db' = put_u64 cursor_key (of_nat c') db1"
    using assms(1) by (auto simp: sweep_def Let_def bindo_eq_Ok split: if_splits)
  then show ?thesis
  proof cases
    case 2
    then show ?thesis using readable_put [OF sweep_loop_readable [OF 2(1) assms(2,3)] key] by simp
  qed (use assms(2) in simp)
qed

lemma length_journal_bytes: "length (journal_bytes enc txs) = (\<Sum>tx\<leftarrow>txs. 4 + length (enc tx))"
  by (simp add: journal_bytes_def length_concat comp_def)

lemma cutoff_reports:
  assumes "readable db" and "plain_acquirer acq" and "get_u64 db acq = Ok volume" and "volume \<noteq> 0"
    and "get_u64 db (count_key acq) = Ok cnt"
  shows "\<exists>out db'. execute_cutoff db = Ok (out, db') \<and> (acq, cnt, volume) \<in> set out"
proof -
  have "\<exists>v. (acq, v) \<in> set db \<and> volume = of_nat (from_be_bytes v)"
    using assms(3,4) by (auto simp: get_u64_def split: option.splits if_splits dest: map_of_SomeD)
  moreover have "tally_value db (count_key acq) = cnt" using assms(1,5) by (simp add: readable_get)
  ultimately show ?thesis
    using assms(1,2) cutoff_rows_eq [OF assms(1), of db]
    by (force simp: execute_cutoff_def readable_def plain_acquirer_def Let_def)
qed

text \<open>
  A day of settlement: writes, a sweep, more writes, a second sweep, and the cut-off reports each
  acquirer with the number and the sum of its approved transactions. (A sum of zero modulo
  \<open>2\<^sup>6\<^sup>4\<close> is left open.) The repository's test is the case of three transactions of 100 and two of 50,
  and its copy of the sweep is the sweep of the settlement program.
\<close>

theorem settlement_day:
  fixes n :: nat and enc :: "transaction \<Rightarrow> bytes" and dec :: "bytes \<Rightarrow> transaction option"
    and txs1 txs2 :: "transaction list"
  defines "m1 \<equiv> mmap (foldl (wal_write enc) (wal_new n) txs1)"
    and "m2 \<equiv> mmap (foldl (wal_write enc) (wal_new n) (txs1 @ txs2))"
    and "volume acq \<equiv> sum_list (map pb_amount (approved_for acq (txs1 @ txs2)))"
  assumes ok: "\<forall>tx \<in> set (txs1 @ txs2). codec_ok enc dec tx \<and> plain_acquirer (pb_acquirer_id tx)"
    and strings: "\<forall>v tx. dec v = Some tx \<longrightarrow> valid_utf8 (pb_acquirer_id tx)"
    and room: "4 \<le> n" "(\<Sum>tx\<leftarrow>txs1 @ txs2. 4 + length (enc tx)) < n" "n < 2 ^ 64"
  shows "\<exists>db1 db2. sweep_logic dec m1 [] = Ok db1 \<and> sweep_logic dec m2 db1 = Ok db2 \<and>
    (\<forall>acq. plain_acquirer acq \<longrightarrow> get_u64 db1 acq = Ok (sum_list (map pb_amount (approved_for acq txs1)))) \<and>
    (\<forall>acq. plain_acquirer acq \<longrightarrow> get_u64 db2 acq = Ok (volume acq)) \<and>
    (\<forall>acq. plain_acquirer acq \<and> volume acq \<noteq> 0 \<longrightarrow> (\<exists>out db3. execute_cutoff db2 = Ok (out, db3) \<and>
       (acq, of_nat (length (approved_for acq (txs1 @ txs2))), volume acq) \<in> set out))"
proof -
  have all: "accepted enc n txs1 = txs1" "accepted enc n (txs1 @ txs2) = txs1 @ txs2"
    using room(2) by (auto intro: accepted_all)
  obtain k1 where m1: "m1 = [] @ journal_bytes enc txs1 @ replicate k1 0"
    using wal_bytes(1) [of enc n txs1] by (auto simp: m1_def all)
  obtain k2 where m2: "m2 = journal_bytes enc txs1 @ journal_bytes enc txs2 @ replicate k2 0"
    using wal_bytes(1) [of enc n "txs1 @ txs2"] all by (auto simp: m2_def journal_bytes_append)
  have len: "length m1 = n" "length m2 = n"
    using wal_bytes(2) [of enc n txs1] wal_bytes(2) [of enc n "txs1 @ txs2"] by (simp_all only: m1_def m2_def)
  then have size: "4 \<le> length m1" "length m1 < 2 ^ 64" "4 \<le> length m2" "length m2 < 2 ^ 64" using room by simp_all
  have zero: "get_u64 [] cursor_key = Ok (of_nat (length ([] :: bytes)))" "tallied [] (\<lambda>_. 0) (\<lambda>_. 0)"
    by (simp_all add: get_u64_def tallied_def)
  from sweep_tallies [OF _ m1 size(1,2) zero] obtain db1 where db1: "sweep dec m1 [] = Ok db1"
    "get_u64 db1 cursor_key = Ok (of_nat (length (journal_bytes enc txs1)))"
    "tallied db1 (\<lambda>a. 0 + sum_list (map pb_amount (approved_for a txs1))) (\<lambda>a. 0 + of_nat (length (approved_for a txs1)))"
    using ok by auto
  from sweep_tallies [OF _ m2 size(3,4) db1(2,3)] obtain db2 where db2: "sweep dec m2 db1 = Ok db2"
    "tallied db2 (\<lambda>a. 0 + sum_list (map pb_amount (approved_for a txs1)) + sum_list (map pb_amount (approved_for a txs2)))
      (\<lambda>a. 0 + of_nat (length (approved_for a txs1)) + of_nat (length (approved_for a txs2)))"
    using ok by auto
  have "length (journal_bytes enc txs1) < n" using room(2) by (simp add: length_journal_bytes)
  then have "unat (of_nat (length (journal_bytes enc txs1)) :: u64) < length m2"
    using room(3) len by (simp add: unat_of_nat)
  then have "sweep_logic dec m1 [] = Ok db1" "sweep_logic dec m2 db1 = Ok db2"
    using sweep_logic_sweep [OF db1(1) size(1) zero(1)] sweep_logic_sweep [OF db2(1) size(3) db1(2)] room(1) len
    by simp_all
  moreover have "readable db2"
    using sweep_readable [OF db2(1) sweep_readable [OF db1(1) _ strings] strings] by (simp add: readable_def)
  then have "\<exists>out db3. execute_cutoff db2 = Ok (out, db3) \<and>
      (acq, of_nat (length (approved_for acq (txs1 @ txs2))), volume acq) \<in> set out"
    if "plain_acquirer acq" "volume acq \<noteq> 0" for acq
    using that db2(2) by (intro cutoff_reports) (simp_all add: tallied_def volume_def approved_append)
  moreover have "get_u64 db2 acq = Ok (volume acq)" if "plain_acquirer acq" for acq
    using that db2(2) by (simp add: tallied_def volume_def approved_append)
  ultimately show ?thesis using db1(3) by (intro exI [of _ db1] exI [of _ db2]) (simp add: tallied_def)
qed

text \<open>
  The whole test: three entries, a sweep and the tally, two more entries, a sweep and the tally, and
  the rows of the cut-off. A missing tally panics, and so does an entry that does not fit.
\<close>

definition test_write :: "(transaction \<Rightarrow> bytes) \<Rightarrow> (unit, wal) outcome \<Rightarrow> transaction \<Rightarrow> (unit, wal) outcome" where
  "test_write enc res tx = bindo res (\<lambda>w.
     if wal_offset w + 4 + length (enc tx) > length (mmap w) then Panic else Ok (wal_write enc w tx))"

definition unwrap_tally :: "tally \<Rightarrow> bytes \<Rightarrow> (unit, u64) outcome" where
  "unwrap_tally db k = (if map_of db k = None then Panic else get_u64 db k)"

definition test_settlement_sweeps ::
  "(transaction \<Rightarrow> bytes) \<Rightarrow> (bytes \<Rightarrow> transaction option) \<Rightarrow> (unit, u64 \<times> u64 \<times> (rstring \<times> u64 \<times> u64) list) outcome" where
  "test_settlement_sweeps enc dec =
     bindo (foldl (test_write enc) (Ok (wal_new (10 * 1024 * 1024))) (replicate 3 (test_settle_tx 100 (ascii ''1'')))) (\<lambda>w1.
     bindo (sweep_logic dec (mmap w1) []) (\<lambda>db1.
     bindo (unwrap_tally db1 (ascii ''BankA'')) (\<lambda>t1.
     bindo (foldl (test_write enc) (Ok w1) (replicate 2 (test_settle_tx 50 (ascii ''2'')))) (\<lambda>w2.
     bindo (sweep_logic dec (mmap w2) db1) (\<lambda>db2.
     bindo (unwrap_tally db2 (ascii ''BankA'')) (\<lambda>t2.
     bindo (execute_cutoff db2) (\<lambda>(out, _). Ok (t1, t2, out))))))))"

lemma unwrap_tally_value: "get_u64 db k = Ok v \<Longrightarrow> v \<noteq> 0 \<Longrightarrow> unwrap_tally db k = Ok v"
  by (cases "map_of db k") (auto simp: unwrap_tally_def get_u64_def)

lemma wal_write_offset:
  "wal_offset w + 4 + length (enc tx) \<le> length (mmap w) \<Longrightarrow> wal_offset (wal_write enc w tx) = wal_offset w + 4 + length (enc tx)"
  by (simp add: wal_write_def wal_put_length_def wal_put_payload_def Let_def)

lemma test_writes:
  assumes "wal_offset w + (\<Sum>tx\<leftarrow>txs. 4 + length (enc tx)) \<le> length (mmap w)"
  shows "foldl (test_write enc) (Ok w) txs = Ok (foldl (wal_write enc) w txs) \<and>
    wal_offset (foldl (wal_write enc) w txs) = wal_offset w + (\<Sum>tx\<leftarrow>txs. 4 + length (enc tx)) \<and>
    length (mmap (foldl (wal_write enc) w txs)) = length (mmap w)"
  using assms
proof (induction txs arbitrary: w)
  case (Cons tx txs)
  have fits: "wal_offset w + 4 + length (enc tx) \<le> length (mmap w)" using Cons.prems by simp
  then have "test_write enc (Ok w) tx = Ok (wal_write enc w tx)" by (simp add: test_write_def)
  then show ?case
    using Cons.IH [of "wal_write enc w tx"] Cons.prems wal_write_offset [of w enc tx, OF fits]
    by (simp add: wal_write_length)
qed simp

text \<open>The test passes with every protobuf codec that reads back its two messages, in a kilobyte each.\<close>

theorem settlement_test_passes:
  fixes enc :: "transaction \<Rightarrow> bytes" and dec :: "bytes \<Rightarrow> transaction option"
  defines "a \<equiv> test_settle_tx 100 (ascii ''1'')" and "b \<equiv> test_settle_tx 50 (ascii ''2'')"
  assumes codec: "codec_ok enc dec a" "codec_ok enc dec b" and size: "length (enc a) \<le> 1024" "length (enc b) \<le> 1024"
    and strings: "\<forall>v tx. dec v = Some tx \<longrightarrow> valid_utf8 (pb_acquirer_id tx)"
  shows "\<exists>out. test_settlement_sweeps enc dec = Ok (300, 400, out) \<and> (ascii ''BankA'', 5, 400) \<in> set out"
proof -
  let ?n = "10 * 1024 * 1024 :: nat" and ?t1 = "replicate 3 a" and ?t2 = "replicate 2 b" and ?bank = "ascii ''BankA''"
  let ?w1 = "foldl (wal_write enc) (wal_new ?n) ?t1"
  have plain: "plain_acquirer ?bank"
    by (simp add: plain_acquirer_def system_key_def cursor_key_def ends_with_def ascii_def)
  have ok: "\<forall>tx \<in> set (?t1 @ ?t2). codec_ok enc dec tx \<and> plain_acquirer (pb_acquirer_id tx)"
    using codec plain by (simp add: a_def b_def test_settle_tx_def)
  have room: "(\<Sum>tx\<leftarrow>?t1 @ ?t2. 4 + length (enc tx)) < ?n" using size by (simp add: sum_list_replicate)
  have approved: "approved_for ?bank ?t1 = ?t1" "approved_for ?bank (?t1 @ ?t2) = ?t1 @ ?t2"
    by (simp_all add: approved_for_def a_def b_def test_settle_tx_def)
  have sums: "sum_list (map pb_amount ?t1) = 300" "sum_list (map pb_amount (?t1 @ ?t2)) = 400"
    by (simp_all add: a_def b_def test_settle_tx_def numeral_eq_Suc)
  have "4 \<le> ?n" "?n < 2 ^ 64" by simp_all
  from settlement_day [OF ok strings this(1) room this(2)]
  obtain db1 db2 where raw: "sweep_logic dec (mmap ?w1) [] = Ok db1"
    "sweep_logic dec (mmap (foldl (wal_write enc) (wal_new ?n) (?t1 @ ?t2))) db1 = Ok db2"
    "get_u64 db1 ?bank = Ok (sum_list (map pb_amount (approved_for ?bank ?t1)))"
    "get_u64 db2 ?bank = Ok (sum_list (map pb_amount (approved_for ?bank (?t1 @ ?t2))))"
    "sum_list (map pb_amount (approved_for ?bank (?t1 @ ?t2))) \<noteq> 0 \<longrightarrow> (\<exists>out db3. execute_cutoff db2 = Ok (out, db3) \<and>
       (?bank, of_nat (length (approved_for ?bank (?t1 @ ?t2))), sum_list (map pb_amount (approved_for ?bank (?t1 @ ?t2)))) \<in> set out)"
    using plain by blast
  note tallies = raw(3,4) [unfolded approved sums]
  have report: "\<exists>out db3. execute_cutoff db2 = Ok (out, db3) \<and> (?bank, 5, 400) \<in> set out"
    using raw(5) unfolding approved sums by simp
  have start: "wal_offset (wal_new ?n) = 0" "length (mmap (wal_new ?n)) = ?n" by (simp_all add: wal_new_def)
  then have w1: "foldl (test_write enc) (Ok (wal_new ?n)) ?t1 = Ok ?w1"
    and w1': "wal_offset ?w1 = (\<Sum>tx\<leftarrow>?t1. 4 + length (enc tx))" "length (mmap ?w1) = ?n"
    using test_writes [of "wal_new ?n" enc ?t1] room by simp_all
  have "foldl (test_write enc) (Ok ?w1) ?t2 = Ok (foldl (wal_write enc) (wal_new ?n) (?t1 @ ?t2))"
    using test_writes [of ?w1 enc ?t2] w1' room by simp
  then show ?thesis
    using w1 raw(1,2) report unwrap_tally_value [OF tallies(1)] unwrap_tally_value [OF tallies(2)]
    by (auto simp: test_settlement_sweeps_def a_def b_def)
qed

text \<open>A codec for the two messages of the test.\<close>

definition settle_test_enc :: "transaction \<Rightarrow> bytes" where
  "settle_test_enc p = pb_rrn p"

definition settle_test_dec :: "bytes \<Rightarrow> transaction option" where
  "settle_test_dec v = (if v = ascii ''1'' then Some (test_settle_tx 100 (ascii ''1''))
     else if v = ascii ''2'' then Some (test_settle_tx 50 (ascii ''2'')) else None)"

theorem settlement_day_witness:
  "\<exists>db1 db2 out db3.
    sweep_logic settle_test_dec (mmap (foldl (wal_write settle_test_enc) (wal_new 10485760)
      (replicate 3 (test_settle_tx 100 (ascii ''1''))))) [] = Ok db1 \<and>
    get_u64 db1 (ascii ''BankA'') = Ok 300 \<and>
    sweep_logic settle_test_dec (mmap (foldl (wal_write settle_test_enc) (wal_new 10485760)
      (replicate 3 (test_settle_tx 100 (ascii ''1'')) @ replicate 2 (test_settle_tx 50 (ascii ''2''))))) db1 = Ok db2 \<and>
    execute_cutoff db2 = Ok (out, db3) \<and> (ascii ''BankA'', 5, 400) \<in> set out"
proof -
  let ?t1 = "replicate 3 (test_settle_tx 100 (ascii ''1''))" and ?t2 = "replicate 2 (test_settle_tx 50 (ascii ''2''))"
  let ?bank = "ascii ''BankA''"
  have bank: "plain_acquirer ?bank" "valid_utf8 ?bank"
    by (simp_all add: plain_acquirer_def system_key_def cursor_key_def ends_with_def ascii_def valid_utf8_ascii)
  have two: "ascii ''2'' \<noteq> ascii ''1''" by (simp add: ascii_def)
  have ok: "\<forall>tx \<in> set (?t1 @ ?t2). codec_ok settle_test_enc settle_test_dec tx \<and> plain_acquirer (pb_acquirer_id tx)"
    using bank two by (simp add: codec_ok_def settle_test_enc_def settle_test_dec_def test_settle_tx_def)
      (simp add: ascii_def)
  have strings: "\<forall>v tx. settle_test_dec v = Some tx \<longrightarrow> valid_utf8 (pb_acquirer_id tx)"
    using bank by (auto simp: settle_test_dec_def test_settle_tx_def split: if_splits)
  have approved: "approved_for ?bank ?t1 = ?t1" "approved_for ?bank (?t1 @ ?t2) = ?t1 @ ?t2"
    by (simp_all add: approved_for_def test_settle_tx_def)
  have sums: "sum_list (map pb_amount ?t1) = 300" "sum_list (map pb_amount (?t1 @ ?t2)) = 400"
    by (simp_all add: test_settle_tx_def numeral_eq_Suc)
  have room: "(\<Sum>tx\<leftarrow>?t1 @ ?t2. 4 + length (settle_test_enc tx)) < 10485760"
    by (simp add: settle_test_enc_def test_settle_tx_def ascii_def sum_list_replicate)
  have "4 \<le> (10485760 :: nat)" "(10485760 :: nat) < 2 ^ 64" by simp_all
  from settlement_day [OF ok strings this(1) room this(2)]
  obtain db1 db2 where day: "sweep_logic settle_test_dec (mmap (foldl (wal_write settle_test_enc) (wal_new 10485760) ?t1)) [] = Ok db1"
    "sweep_logic settle_test_dec (mmap (foldl (wal_write settle_test_enc) (wal_new 10485760) (?t1 @ ?t2))) db1 = Ok db2"
    "get_u64 db1 ?bank = Ok (sum_list (map pb_amount (approved_for ?bank ?t1)))"
    "get_u64 db2 ?bank = Ok (sum_list (map pb_amount (approved_for ?bank (?t1 @ ?t2))))"
    "sum_list (map pb_amount (approved_for ?bank (?t1 @ ?t2))) \<noteq> 0 \<longrightarrow> (\<exists>out db3. execute_cutoff db2 = Ok (out, db3) \<and>
       (?bank, of_nat (length (approved_for ?bank (?t1 @ ?t2))), sum_list (map pb_amount (approved_for ?bank (?t1 @ ?t2)))) \<in> set out)"
    using bank(1) by blast
  have "\<exists>out db3. execute_cutoff db2 = Ok (out, db3) \<and> (?bank, 5, 400) \<in> set out"
    using day(5) unfolding approved sums by simp
  then show ?thesis using day(1-3) unfolding approved sums by blast
qed

section \<open>The engine\<close>

text \<open>
  The contexts that the tests of \<open>switch-core/src/lib.rs\<close> feed into a freshly started engine.
\<close>

definition test_event :: "rstring \<Rightarrow> rstring \<Rightarrow> u64 \<Rightarrow> rstring \<Rightarrow> rstring \<Rightarrow> rstring \<Rightarrow> event" where
  "test_event m pan amt s r acq = from_pb
     \<lparr>pb_mti = m, pb_pan = pan, pb_processing_code = ascii ''000000'', pb_amount = amt,
      pb_stan = s, pb_rrn = r, pb_response_code = ascii ''00'', pb_acquirer_id = acq, pb_pin_block = [],
      pb_local_time = ascii ''120000'', pb_local_date = ascii ''1231''\<rparr>"

definition test_context :: "rstring \<Rightarrow> u64 \<Rightarrow> rstring \<Rightarrow> rstring \<Rightarrow> rstring \<Rightarrow> transaction_context" where
  "test_context pan amt s r acq =
     \<lparr>ctx_transaction = test_event (ascii ''0100'') pan amt s r acq, ctx_responder = None\<rparr>"

definition test_seda_pipeline :: "transaction_context list" where
  "test_seda_pipeline = map (\<lambda>i. test_context (ascii ''4111111111111111'') 1000 (format_padded 6 i)
     (ascii ''123456789012'') (ascii ''999999'')) [0..<1000]"

definition test_idempotency_guard :: "transaction_context list" where
  "test_idempotency_guard = replicate 2 (test_context (ascii ''4111111111111111'') 1000 (ascii ''123456'')
     (ascii ''123456789012'') (ascii ''AcquirerA''))"

definition test_late_bank_reply :: transaction_context where
  "test_late_bank_reply = test_context (ascii ''4111111111111111'') 1000 (ascii ''888888'')
     (ascii ''LATE_REPLY_123'') (ascii ''AcquirerA'')"

definition test_stip_fallback :: "transaction_context list" where
  "test_stip_fallback = map (\<lambda>i. test_context (ascii ''4111222233334444'') 10000 (format_padded 6 i)
     (ascii ''STIP_TEST_'' @ digits i) (ascii ''AcquirerA'')) [0..<10100]"

definition process_all :: "codec \<Rightarrow> transaction_context list \<Rightarrow> engine \<Rightarrow> engine" where
  "process_all cd ctxs st = foldl (\<lambda>st ctx. process_transaction cd ctx st) st ctxs"

text \<open>What forwarding would change.\<close>

definition outbound_view :: "engine \<Rightarrow> bin_trie_node \<times> (nat \<Rightarrow> channel) \<times> (bytes \<rightharpoonup> bytes)" where
  "outbound_view st = (router (memory_state st), channels st, stip_db st)"

lemma apply_reversal_view: "apply_reversal tx st = Ok st' \<Longrightarrow> outbound_view st' = outbound_view st"
  by (auto simp: apply_reversal_def outbound_view_def bindo_eq_Ok case_prod_beta split: option.splits)

lemma respond_view [simp]: "outbound_view (respond r e st) = outbound_view st"
  by (simp add: outbound_view_def respond_def split: option.splits)

lemma guard_view [simp]:
  "outbound_view (guard_modify k f st) = outbound_view st" "outbound_view (guard_remove k st) = outbound_view st"
  "outbound_view (st\<lparr>idempotency_guard := g\<rparr>) = outbound_view st"
  by (simp_all add: outbound_view_def guard_modify_def guard_remove_def split: option.splits)

lemma admit_view:
  assumes "admit ctx st = Ok (st', j)"
  shows "outbound_view st' = outbound_view st \<and> (j = None \<or> (\<exists>k c. j = Some (Dispatch k c)))"
proof -
  consider e where "st' = respond (ctx_responder ctx) e st" "j = None"
    | key c where "admit_screened key c st = Ok (st', j)"
    using assms by (auto simp: admit_def Let_def bindo_eq_Ok split: if_splits option.splits)
  then show ?thesis
  proof cases
    case (2 key c)
    then consider e where "st' = respond (ctx_responder c) e st" "j = None"
      | st1 e where "apply_reversal (ctx_transaction c) st = Ok st1" "st' = respond (ctx_responder c) e st1" "j = None"
      | "guard_or_duplicate key c st = (st', j)"
      by (auto simp: admit_screened_def Let_def bindo_eq_Ok split: if_splits)
    then show ?thesis
      by cases (auto simp: apply_reversal_view guard_or_duplicate_def Let_def split: option.splits)
  qed simp
qed

lemma dispatch_unrouted:
  assumes "router (memory_state st) = bin_trie_new"
  shows "outbound_view (run_job cd (Dispatch k ctx) st) = outbound_view st"
proof -
  have none: "select_egress (memory_state st) tx = None" for tx
    using assms by (simp add: select_egress_def trie_find_lpm trie_table_new lpm_None)
  have view: "outbound_view (st1\<lparr>hsm_queue := q\<rparr>) = outbound_view st1"
    "outbound_view (st1\<lparr>journal := js\<rparr>) = outbound_view st1" for st1 :: engine and q js
    by (simp_all add: outbound_view_def)
  show ?thesis
    by (simp add: run_job_simps dispatch_def journal_append_def decline_unrouted_def none view Let_def
        split: option.splits)
qed

lemma process_unrouted:
  assumes "router (memory_state st) = bin_trie_new"
  shows "outbound_view (process_transaction cd ctx st) = outbound_view st"
proof (cases "admit ctx st")
  case (Ok r)
  obtain st' j where r: "r = (st', j)" by fastforce
  have view: "outbound_view st' = outbound_view st" "j = None \<or> (\<exists>k c. j = Some (Dispatch k c))"
    using admit_view Ok r by blast+
  have "router (memory_state st') = bin_trie_new" using view(1) assms by (simp add: outbound_view_def)
  then show ?thesis using view Ok r dispatch_unrouted by (auto simp: process_transaction_def)
qed (simp_all add: process_transaction_def outbound_view_def)

text \<open>
  A switch to which no routes have been published forwards nothing and stands in for nothing.
  However many transactions it processes, its egress channels and card profiles stay as they were.
  This is the state in which the repository's engine tests run, which expect forwarded messages,
  a reversal and a lowered balance.
\<close>

theorem unpublished_switch_forwards_nothing:
  assumes "router (memory_state st) = bin_trie_new"
  shows "channels (process_all cd ctxs st) = channels st \<and> stip_db (process_all cd ctxs st) = stip_db st"
proof -
  have "outbound_view (process_all cd ctxs st) = outbound_view st"
    using assms
  proof (induction ctxs arbitrary: st)
    case (Cons ctx ctxs)
    then show ?case using process_unrouted [OF Cons.prems, of cd ctx] by (simp add: process_all_def outbound_view_def)
  qed (simp add: process_all_def)
  then show ?thesis by (simp add: outbound_view_def)
qed

theorem unpublished_switch_forwards_nothing_witness:
  "queue (channels (process_all sample_codec test_seda_pipeline (engine_start Map.empty 15000 4)) 0) = [] \<and>
   queue (channels (process_all sample_codec test_idempotency_guard (engine_start Map.empty 15000 4)) 0) = [] \<and>
   queue (channels (process_all sample_codec [test_late_bank_reply] (engine_start Map.empty 100 4)) 0) = [] \<and>
   stip_db (process_all sample_codec test_stip_fallback ((engine_start Map.empty 100 4)\<lparr>stip_db :=
     [ascii ''4111222233334444'' \<mapsto> serialize sample_codec \<lparr>profile_balance = 50000, profile_is_blocked = False\<rparr>]\<rparr>))
     = [ascii ''4111222233334444'' \<mapsto> serialize sample_codec \<lparr>profile_balance = 50000, profile_is_blocked = False\<rparr>]"
proof -
  have fresh: "router (memory_state (engine_start Map.empty t n)) = bin_trie_new" "queue (channels (engine_start Map.empty t n) 0) = []"
    "memory_state ((engine_start Map.empty t n)\<lparr>stip_db := db\<rparr>) = memory_state (engine_start Map.empty t n)" for t n db
    by (simp_all add: engine_start_def global_state_new_def)
  show ?thesis
    by (simp add: unpublished_switch_forwards_nothing fresh)
qed

section \<open>The edges\<close>

text \<open>
  \<open>edge-ingress/src/lib.rs\<close> sends the bare header of the parser test to the server, and expects it to
  be routed. Its first bit announces a second bitmap that is not there: the packet is dropped.
\<close>

definition test_tcp_packet :: bytes where
  "test_tcp_packet =
     (let m = ascii ''0100''; bitmap = [0xFF, 0, 0, 0, 0, 0, 0, 0] in
      to_be_bytes 2 (length m + length bitmap) @ m @ bitmap)"

lemma ingress_test_dropped:
  "iso8583_decode test_tcp_packet = Ok (Some test_header, []) \<and> server_receive standard_parse test_header r = Ok None"
proof
  have twelve: "length (ascii ''0100'') + length [0xFF, 0, 0, 0, 0, 0, 0, 0 :: u8] = 12" "length test_header = 12"
    by (simp_all add: test_header_def ascii_def)
  then have "test_tcp_packet = length_prefixed test_header" "length test_header < 65536"
    unfolding test_tcp_packet_def Let_def length_prefixed_def twelve by (simp_all add: test_header_def)
  then show "iso8583_decode test_tcp_packet = Ok (Some test_header, [])"
    using decode_length_prefixed [of test_header] by simp
  show "server_receive standard_parse test_header r = Ok None"
    by (simp add: server_receive_def test_header_def standard_parse_eq read_fixed_eq read_bitmaps_eq ascii_def)
qed

text \<open>
  \<open>edge-egress/src/adapter.rs\<close>, which nothing calls: an MTI and a bitmap of ones. The header parser
  accepts it for the two MTIs it knows, but no server of the daemon does, since the second bitmap it
  announces is not there.
\<close>

definition to_iso8583 :: "transaction \<Rightarrow> bytes" where
  "to_iso8583 pb = pb_mti pb @ replicate 8 0xFF"

lemma adapter_header:
  "pb_mti pb \<in> {ascii ''0100'', ascii ''0110''} \<Longrightarrow>
    parse_iso8583 (to_iso8583 pb) = Ok ([], \<lparr>msg_mti = pb_mti pb, primary_bitmap = replicate 8 0xFF\<rparr>)"
  by (auto simp: to_iso8583_def parse_iso8583_def parse_mti_def parse_primary_bitmap_def nom_take_def
      valid_utf8_ascii ascii_def)

lemma adapter_dropped: "length (pb_mti pb) = 4 \<Longrightarrow> server_receive standard_parse (to_iso8583 pb) r = Ok None"
  by (simp add: to_iso8583_def server_receive_def standard_parse_eq read_fixed_eq read_bitmaps_eq)

text \<open>
  \<open>edge-egress/src/lib.rs\<close>: the message it dispatches has 89 bytes, not the 24 the test expects, and a
  reversal stored while the bank is away is later written with its MTI first.
\<close>

definition test_egress_upstream_dispatch :: event where
  "test_egress_upstream_dispatch = test_event (ascii ''0100'') (ascii ''4111111111111111'') 1000 (ascii ''123456'')
     (ascii ''123456789012'') (ascii ''AcquirerA'')"

definition test_saf_advice :: event where
  "test_saf_advice = test_event (ascii ''0420'') (ascii ''4111111111111111'') 1000 (ascii ''888'')
     (ascii ''RRN_SAF_XXX'') (ascii ''Acq'')"

lemma egress_test_length: "length (egress_encode test_egress_upstream_dispatch) = 89"
proof -
  let ?tx = test_egress_upstream_dispatch
  have "length (payload_of (universal_segments ?tx)) = 77"
    by (simp add: payload_of_def universal_segments_def test_egress_upstream_dispatch_def test_event_def from_pb_def
        amount_present_def write_llvar_def write_fixed_def length_format_padded ascii_def)
  moreover have "length (wire_mti ?tx) = 4"
    by (simp add: wire_mti_def test_egress_upstream_dispatch_def test_event_def from_pb_def ascii_def)
  ultimately show ?thesis
    using length_put_fields [of "universal_segments ?tx"] put_fields_payload [of "universal_segments ?tx"]
    by (cases "put_fields (universal_segments ?tx)") (simp add: egress_encode_def universal_encode_def)
qed

lemma egress_starts_with_mti: "length (mti tx) = 4 \<Longrightarrow> take 4 (egress_encode tx) = mti tx"
  by (simp add: egress_encode_def universal_encode_def wire_mti_def split: prod.splits)

lemma saf_test_passes:
  assumes "dec (enc (to_pb test_saf_advice)) = Some (to_pb test_saf_advice)"
  shows "\<exists>w' p. (egress_step enc dec)\<^sup>*\<^sup>* (awaiting \<lparr>ctx_transaction = test_saf_advice, ctx_responder = None\<rparr>) w' \<and>
    saf_wire (clients w' ! 0) = [length_prefixed p] \<and> take 4 p = ascii ''0420''"
proof -
  let ?ctx = "\<lparr>ctx_transaction = test_saf_advice, ctx_responder = None\<rparr>"
  let ?v = "upstream_new (ascii ''127.0.0.1:9188'')" and ?m = "upstream_new (ascii ''127.0.0.1:9200'')"
  let ?db = "[(saf_key test_saf_advice, enc (to_pb test_saf_advice))]"
  let ?p = "egress_encode (from_pb (to_pb test_saf_advice))"
  have mti: "mti test_saf_advice = ascii ''0420''" "mti (from_pb (to_pb test_saf_advice)) = ascii ''0420''"
    by (simp_all add: test_saf_advice_def test_event_def to_pb_def from_pb_def lossy_valid valid_utf8_ascii ascii_def)
  have "egress_offline enc test_saf_advice [] = ?db"
    by (simp add: egress_offline_def saf_store_def saf_worthy_mti mti)
  then have "client_step enc dec (?v\<lparr>rx := [?ctx]\<rparr>, [], []) (?v, ?db, [])"
    using client_step.offline [of "?v\<lparr>rx := [?ctx]\<rparr>" ?ctx "[]" enc dec "[]" "[]"] by (simp add: upstream_new_def)
  moreover have "client_step enc dec (?v, ?db, []) (?v\<lparr>keys_to_remove := [saf_key test_saf_advice],
      saf_wire := [length_prefixed ?p]\<rparr>, ?db, [])"
    using client_step.saf_write [of ?db "saf_key test_saf_advice" "enc (to_pb test_saf_advice)" ?v dec "\<lambda>_. True"
        "length_prefixed ?p" "[saf_key test_saf_advice]" enc "[]"] assms
    by (simp add: upstream_new_def upstream_encode_ok)
  ultimately have "(egress_step enc dec)\<^sup>*\<^sup>* \<lparr>clients = [?v\<lparr>rx := [?ctx]\<rparr>, ?m], saf_db = [], reply_tx = []\<rparr>
      \<lparr>clients = [?v\<lparr>keys_to_remove := [saf_key test_saf_advice], saf_wire := [length_prefixed ?p]\<rparr>, ?m],
       saf_db = ?db, reply_tx = []\<rparr>"
    by (meson converse_rtranclp_into_rtranclp egress_two(1) rtranclp.rtrancl_refl)
  moreover have "take 4 ?p = ascii ''0420''"
    using egress_starts_with_mti [of "from_pb (to_pb test_saf_advice)"] mti(2) by (simp add: ascii_def)
  ultimately show ?thesis by (force simp: awaiting_def egress_start_def)
qed

text \<open>\<open>hsm-client/src/simulator.rs\<close>: the answer of the test's own server.\<close>

lemma hsm_test_passes: "thales_reply (length_prefixed (ascii ''CB8888888888FFFFFF'')) = Ok (ascii ''8888888888FFFFFF'')"
  by (simp add: thales_reply_def read_prefixed_def length_prefixed_value starts_with_def str_slice_ascii
      lossy_valid valid_utf8_ascii ascii_def Let_def)

section \<open>Debugging programs\<close>

text \<open>
  \<open>ISO8583PaymentSimulator/src/bin/\<close>: \<open>debug_dialect.rs\<close> encodes and decodes an event, \<open>debug_pb.rs\<close> does so
  after the protobuf conversion, \<open>scratch.rs\<close> sends a message whose bitmap announces no field.
\<close>

definition debug_event :: event where
  "debug_event = (blank_event Financial (ascii ''0200'') False False)
     \<lparr>fpan := ascii ''4111111111111111'', processing_code := ascii ''000000'', amount := 14312,
      stan := ascii ''F82300'', rrn := ascii ''F82300C842F4''\<rparr>"

definition debug_dialect :: "(parse_error, event) outcome" where
  "debug_dialect = bindo (router_encode Base24 debug_event) (router_decode Base24)"

definition debug_pb :: "(parse_error, event) outcome" where
  "debug_pb = bindo (router_encode Base24 (from_pb (to_pb debug_event))) (router_decode Base24)"

definition scratch_message :: "nat \<Rightarrow> bytes" where
  "scratch_message i = length_prefixed (ascii ''0200'' @ replicate 8 0 @ ascii ''F82F9E0ABCD'' @ digits i)"

lemma debug_event_exact: "exact_event debug_event"
  by (simp add: exact_event_def wire_exact_def wire_wf_def lengths_wf_def off_wire_blank_def fits_def
      debug_event_def blank_event_def class_of_mti_def reversal_mti_def ascii_def valid_utf8_ascii)

lemma debug_programs: "debug_dialect = Ok debug_event" "debug_pb = Ok debug_event"
proof -
  have decoded: "bindo (router_encode Base24 debug_event) (router_decode Base24) = Ok debug_event"
    using debug_event_exact
    by (simp add: router_simps egress_encode_ok universal_exact exact_event_def)
  then show "debug_dialect = Ok debug_event" by (simp add: debug_dialect_def)
  have "from_pb (to_pb debug_event) = debug_event"
    by (simp add: debug_event_def blank_event_def to_pb_def from_pb_def lossy_valid valid_utf8_ascii ascii_def class_of_mti_def)
  then show "debug_pb = Ok debug_event" using decoded by (simp add: debug_pb_def)
qed

text \<open>All ten messages of \<open>scratch.rs\<close> read as the same event: the RRN they carry is announced by no bit.\<close>

lemma scratch_parses:
  assumes "i < 10"
  shows "iso8583_decode (scratch_message i) = Ok (Some (ascii ''0200'' @ replicate 8 0 @ ascii ''F82F9E0ABCD'' @ digits i), [])"
    "standard_parse (ascii ''0200'' @ replicate 8 0 @ ascii ''F82F9E0ABCD'' @ digits i) = Ok (standard_init (ascii ''0200''))"
proof -
  have "length (digits i) = 1" using assms by (simp add: digits.simps)
  then show "iso8583_decode (scratch_message i) = Ok (Some (ascii ''0200'' @ replicate 8 0 @ ascii ''F82F9E0ABCD'' @ digits i), [])"
    unfolding scratch_message_def by (intro decode_length_prefixed) (simp add: ascii_def)
  have none: "standard_has_field (replicate 8 0) = (\<lambda>_. False)" by (simp add: fun_eq_iff standard_has_field_def)
  have skip: "decode_present (\<lambda>_. False) step fs st = Ok st" for step :: "nat \<Rightarrow> event \<times> nat \<Rightarrow> (event \<times> nat) parsed" and fs st
    by (induction fs) simp_all
  have "read_bitmaps (ascii ''0200'' @ replicate 8 0 @ rest) 4 1 [] = Ok (replicate 8 0, 12)" for rest
    by (simp add: read_bitmaps_eq read_fixed_eq ascii_def)
  then show "standard_parse (ascii ''0200'' @ replicate 8 0 @ ascii ''F82F9E0ABCD'' @ digits i) = Ok (standard_init (ascii ''0200''))"
    unfolding standard_parse_eq read_fixed_eq by (simp add: none skip) (simp add: ascii_def)
qed

end
