(* ===== verification/Load_Profile.thy ===== *)
theory Load_Profile
  imports Engine Simulator Orchestrator
begin

text \<open>
  What an operator asks of the load simulator and what the simulator shows in return
  (\<open>ISO8583PaymentSimulator/src/main.rs\<close> and \<open>engine.rs\<close>): the weights of a start request with
  their defaults, the draws a worker makes with them, the status report, the pulses behind the
  animation, the views, and the start of a run by the test orchestrator. The weights are \<open>f64\<close> numbers; their
  order, sum and decimal literals are the fields of a parameter.
\<close>

section \<open>Weights\<close>

text \<open>\<open>f_lit n\<close> is the literal of n hundredths.\<close>

record 'f f64_ops =
  f_lt :: "'f \<Rightarrow> 'f \<Rightarrow> bool"
  f_add :: "'f \<Rightarrow> 'f \<Rightarrow> 'f"
  f_lit :: "nat \<Rightarrow> 'f"

record 'f distribution =
  dist_happy :: "'f option"
  dist_timeout :: "'f option"
  dist_decline :: "'f option"

record 'f network_distribution =
  net_visa :: "'f option"
  net_mastercard :: "'f option"
  net_amex :: "'f option"

record 'f entry_mode_distribution =
  mode_apple_pay :: "'f option"
  mode_emv :: "'f option"
  mode_pos :: "'f option"

record 'f dialect_distribution =
  dia_base24 :: "'f option"
  dia_connex :: "'f option"
  dia_interac :: "'f option"
  dia_uk_fps :: "'f option"
  dia_iso_1987 :: "'f option"
  dia_iso_1993 :: "'f option"
  dia_iso_2003 :: "'f option"

record 'f start_request =
  req_volume :: "nat option"
  req_concurrency :: "nat option"
  req_dist :: "'f distribution option"
  req_networks :: "'f network_distribution option"
  req_modes :: "'f entry_mode_distribution option"
  req_dialects :: "'f dialect_distribution option"

record 'f dist_config =
  w_happy :: 'f
  w_timeout :: 'f
  w_visa :: 'f
  w_mastercard :: 'f
  w_apple_pay :: 'f
  w_emv :: 'f
  w_base24 :: 'f
  w_connex :: 'f
  w_interac :: 'f
  w_uk_fps :: 'f
  w_iso_1987 :: 'f
  w_iso_1993 :: 'f
  w_iso_2003 :: 'f

definition unwrap_or :: "'a option \<Rightarrow> 'a \<Rightarrow> 'a" where
  "unwrap_or x d = (case x of Some v \<Rightarrow> v | None \<Rightarrow> d)"

definition start_config :: "'f f64_ops \<Rightarrow> 'f start_request \<Rightarrow> 'f dist_config" where
  "start_config F req =
     (let lit = f_lit F;
          dist = unwrap_or (req_dist req) \<lparr>dist_happy = Some (lit 80), dist_timeout = Some (lit 10), dist_decline = Some (lit 10)\<rparr>;
          nets = unwrap_or (req_networks req) \<lparr>net_visa = Some (lit 40), net_mastercard = Some (lit 40), net_amex = Some (lit 20)\<rparr>;
          modes = unwrap_or (req_modes req) \<lparr>mode_apple_pay = Some (lit 30), mode_emv = Some (lit 40), mode_pos = Some (lit 30)\<rparr>;
          dialects = unwrap_or (req_dialects req)
            \<lparr>dia_base24 = Some (lit 25), dia_connex = Some (lit 25), dia_interac = Some (lit 25), dia_uk_fps = Some (lit 25),
             dia_iso_1987 = Some (lit 0), dia_iso_1993 = Some (lit 0), dia_iso_2003 = Some (lit 0)\<rparr>
      in \<lparr> w_happy = unwrap_or (dist_happy dist) (lit 80), w_timeout = unwrap_or (dist_timeout dist) (lit 10),
           w_visa = unwrap_or (net_visa nets) (lit 40), w_mastercard = unwrap_or (net_mastercard nets) (lit 40),
           w_apple_pay = unwrap_or (mode_apple_pay modes) (lit 30), w_emv = unwrap_or (mode_emv modes) (lit 40),
           w_base24 = unwrap_or (dia_base24 dialects) (lit 25), w_connex = unwrap_or (dia_connex dialects) (lit 25),
           w_interac = unwrap_or (dia_interac dialects) (lit 25), w_uk_fps = unwrap_or (dia_uk_fps dialects) (lit 25),
           w_iso_1987 = unwrap_or (dia_iso_1987 dialects) (lit 0), w_iso_1993 = unwrap_or (dia_iso_1993 dialects) (lit 0),
           w_iso_2003 = unwrap_or (dia_iso_2003 dialects) (lit 0) \<rparr>)"

section \<open>Draws\<close>

definition draw_type :: "'f f64_ops \<Rightarrow> 'f dist_config \<Rightarrow> 'f \<Rightarrow> tx_type" where
  "draw_type F c r =
     (if f_lt F r (w_happy c) then Happy_Path
      else if f_lt F r (f_add F (w_happy c) (w_timeout c)) then Timeout_Path
      else Decline_Path)"

definition draw_network :: "'f f64_ops \<Rightarrow> 'f dist_config \<Rightarrow> 'f \<Rightarrow> network" where
  "draw_network F c r =
     (if f_lt F r (w_visa c) then Visa
      else if f_lt F r (f_add F (w_visa c) (w_mastercard c)) then Mastercard
      else Amex)"

definition draw_mode :: "'f f64_ops \<Rightarrow> 'f dist_config \<Rightarrow> 'f \<Rightarrow> entry_mode" where
  "draw_mode F c r =
     (if f_lt F r (w_apple_pay c) then ApplePay
      else if f_lt F r (f_add F (w_apple_pay c) (w_emv c)) then EMV
      else POS)"

definition draw_dialect :: "'f f64_ops \<Rightarrow> 'f dist_config \<Rightarrow> 'f \<Rightarrow> sim_dialect" where
  "draw_dialect F c r =
     (let add = f_add F in
      if f_lt F r (w_base24 c) then D_Base24
      else if f_lt F r (add (w_base24 c) (w_connex c)) then D_Connex
      else if f_lt F r (add (add (w_base24 c) (w_connex c)) (w_interac c)) then D_Interac
      else if f_lt F r (add (add (add (w_base24 c) (w_connex c)) (w_interac c)) (w_uk_fps c)) then D_UkFps
      else if f_lt F r (add (add (add (add (w_base24 c) (w_connex c)) (w_interac c)) (w_uk_fps c)) (w_iso_1987 c)) then D_Iso1987
      else if f_lt F r (add (add (add (add (add (w_base24 c) (w_connex c)) (w_interac c)) (w_uk_fps c)) (w_iso_1987 c)) (w_iso_1993 c))
        then D_Iso1993
      else D_Iso2003)"

text \<open>
  The choices of one transaction from its four draws. A decline, as opposed to a timeout, gives the
  generator its own profile.
\<close>

definition draw_choices ::
  "'f f64_ops \<Rightarrow> 'f dist_config \<Rightarrow> 'f \<Rightarrow> 'f \<Rightarrow> 'f \<Rightarrow> 'f \<Rightarrow> rstring \<Rightarrow> rstring \<Rightarrow> rstring \<Rightarrow> rstring \<Rightarrow> choices" where
  "draw_choices F c r_type r_net r_mode r_dialect ident rrn_str time date =
     \<lparr> ch_type = draw_type F c r_type, ch_network = draw_network F c r_net, ch_mode = draw_mode F c r_mode,
       ch_dialect = draw_dialect F c r_dialect, ch_id = ident, ch_rrn = rrn_str, ch_time = time, ch_date = date \<rparr>"

section \<open>Status and pulses\<close>

datatype json = JBool bool | JNum nat

definition to_status_json :: "nat option \<Rightarrow> nat \<Rightarrow> sim \<Rightarrow> (rstring \<times> json) list" where
  "to_status_json started_at now st =
     [(ascii ''running'', JBool (sim_running st)), (ascii ''totalTarget'', JNum (unat (total_target st))),
      (ascii ''generated'', JNum (unat (generated st))), (ascii ''inFlight'', JNum (unat (in_flight st))),
      (ascii ''completed'', JNum (unat (completed st))), (ascii ''success'', JNum (unat (success st))),
      (ascii ''timeout'', JNum (unat (timeouts st))), (ascii ''decline'', JNum (unat (declines st))),
      (ascii ''tps'', JNum (unat (tps st))), (ascii ''avgLatencyMs'', JNum (unat (avg_latency_ms st))),
      (ascii ''elapsedMs'', JNum (case started_at of Some t \<Rightarrow> now - t | None \<Rightarrow> 0))]"

record pulse =
  phase :: rstring
  current_node :: rstring

definition fwd_nodes :: "bool \<Rightarrow> rstring list" where
  "fwd_nodes tokenized =
     (if tokenized then map ascii [''terminal'', ''ingress'', ''tsp'', ''core'', ''egress'', ''bank'']
      else map ascii [''terminal'', ''ingress'', ''core'', ''hsm'', ''egress'', ''bank''])"

definition rev_nodes :: "bool \<Rightarrow> rstring list" where
  "rev_nodes ok =
     (if ok then map ascii [''bank'', ''egress'', ''core'', ''ingress'', ''terminal'']
      else map ascii [''core'', ''ingress'', ''terminal''])"

text \<open>
  The way to the bank. Before each node the worker looks for a cancellation; \<open>cancelled n\<close> says
  whether it finds one with n nodes to go. The first component says whether it arrives.
\<close>

fun fwd_pulses :: "(nat \<Rightarrow> bool) \<Rightarrow> rstring \<Rightarrow> rstring list \<Rightarrow> (rstring \<rightharpoonup> pulse) \<Rightarrow> bool \<times> (rstring \<rightharpoonup> pulse)" where
  "fwd_pulses cancelled ident [] m = (True, m)"
| "fwd_pulses cancelled ident (node # nodes) m =
     (if cancelled (length (node # nodes)) then (False, m)
      else fwd_pulses cancelled ident nodes (m(ident \<mapsto> \<lparr>phase = ascii ''req'', current_node = node\<rparr>)))"

definition rev_pulses :: "bool \<Rightarrow> rstring \<Rightarrow> (rstring \<rightharpoonup> pulse) \<Rightarrow> (rstring \<rightharpoonup> pulse)" where
  "rev_pulses ok ident m =
     (fold (\<lambda>node m. m(ident \<mapsto> \<lparr>phase = (if ok then ascii ''res'' else ascii ''rev''), current_node = node\<rparr>))
        (rev_nodes ok) m)(ident := None)"

text \<open>The pulses of one transaction; whether it completes, and the map it leaves.\<close>

definition transaction_pulses ::
  "(nat \<Rightarrow> bool) \<Rightarrow> bool \<Rightarrow> bool \<Rightarrow> rstring \<Rightarrow> (rstring \<rightharpoonup> pulse) \<Rightarrow> bool \<times> (rstring \<rightharpoonup> pulse)" where
  "transaction_pulses cancelled tokenized ok ident m =
     (case fwd_pulses cancelled ident (fwd_nodes tokenized) m of
        (True, m1) \<Rightarrow> (True, rev_pulses ok ident m1)
      | (False, m1) \<Rightarrow> (False, m1))"

section \<open>The views of the simulator\<close>

definition get_history :: "sim \<Rightarrow> history_record list" where
  "get_history st = history st"

text \<open>The pulses in some order of the concurrent map.\<close>

definition get_pulses :: "(rstring \<rightharpoonup> pulse) \<Rightarrow> pulse list \<Rightarrow> bool" where
  "get_pulses m ps \<longleftrightarrow> (\<exists>idents. distinct idents \<and> set idents = dom m \<and> ps = map (\<lambda>i. the (m i)) idents)"

text \<open>
  The simulator passes on the daemon's views of the guard and of the journal. The request may fail,
  and its body may not be JSON (\<open>Ok None\<close>); either way the answer is an empty view with status 200.
\<close>

definition proxy_dashmap ::
  "(unit, ((rstring \<times> network_state \<times> nat \<times> u64 \<times> rstring \<times> rstring) list \<times> nat) option) outcome
    \<Rightarrow> (rstring \<times> network_state \<times> nat \<times> u64 \<times> rstring \<times> rstring) list \<times> nat" where
  "proxy_dashmap res = (case res of Ok (Some view) \<Rightarrow> view | _ \<Rightarrow> ([], 0))"

definition proxy_journal :: "(unit, transaction list option) outcome \<Rightarrow> transaction list" where
  "proxy_journal res = (case res of Ok (Some events) \<Rightarrow> events | _ \<Rightarrow> [])"

section \<open>What the weights govern\<close>

text \<open>
  The last alternative of each draw takes whatever the others leave: the weights a request gives to
  declines, to Amex, to POS and to ISO 2003 are read by no draw.
\<close>

lemma remainder_weights_ignored:
  "start_config F (req\<lparr>req_dist := Some (d\<lparr>dist_decline := x\<rparr>)\<rparr>) = start_config F (req\<lparr>req_dist := Some d\<rparr>)"
  "start_config F (req\<lparr>req_networks := Some (n\<lparr>net_amex := x\<rparr>)\<rparr>) = start_config F (req\<lparr>req_networks := Some n\<rparr>)"
  "start_config F (req\<lparr>req_modes := Some (m\<lparr>mode_pos := x\<rparr>)\<rparr>) = start_config F (req\<lparr>req_modes := Some m\<rparr>)"
  "draw_choices F (c\<lparr>w_iso_2003 := y\<rparr>) = draw_choices F c"
  by (simp_all add: start_config_def unwrap_or_def Let_def fun_eq_iff draw_choices_def draw_type_def
      draw_network_def draw_mode_def draw_dialect_def)

text \<open>
  A kind of transaction other than these with weight zero is never drawn: adding zero does not
  change how a draw compares with a sum.
\<close>

lemma zero_weight_never_drawn:
  assumes zero: "\<And>r x. f_lt F r (f_add F x z) = f_lt F r x"
  shows "w_timeout c = z \<Longrightarrow> draw_type F c r \<noteq> Timeout_Path"
    and "w_mastercard c = z \<Longrightarrow> draw_network F c r \<noteq> Mastercard"
    and "w_emv c = z \<Longrightarrow> draw_mode F c r \<noteq> EMV"
    and "w_connex c = z \<Longrightarrow> draw_dialect F c r \<noteq> D_Connex"
    and "w_interac c = z \<Longrightarrow> draw_dialect F c r \<noteq> D_Interac"
    and "w_uk_fps c = z \<Longrightarrow> draw_dialect F c r \<noteq> D_UkFps"
    and "w_iso_1987 c = z \<Longrightarrow> draw_dialect F c r \<noteq> D_Iso1987"
    and "w_iso_1993 c = z \<Longrightarrow> draw_dialect F c r \<noteq> D_Iso1993"
  by (simp_all add: draw_type_def draw_network_def draw_mode_def draw_dialect_def Let_def zero)

text \<open>
  ISO 2003 is the exception: a request that gives zero to every dialect has it drawn every time,
  its own zero notwithstanding.
\<close>

definition no_dialect :: "'f f64_ops \<Rightarrow> 'f dialect_distribution" where
  "no_dialect F = \<lparr>dia_base24 = Some (f_lit F 0), dia_connex = Some (f_lit F 0), dia_interac = Some (f_lit F 0),
     dia_uk_fps = Some (f_lit F 0), dia_iso_1987 = Some (f_lit F 0), dia_iso_1993 = Some (f_lit F 0),
     dia_iso_2003 = Some (f_lit F 0)\<rparr>"

lemma iso_2003_takes_the_rest:
  assumes "\<And>r x. f_lt F r (f_add F x (f_lit F 0)) = f_lt F r x" and "\<not> f_lt F r (f_lit F 0)"
    and "req_dialects req = Some (no_dialect F)"
  shows "draw_dialect F (start_config F req) r = D_Iso2003"
  using assms by (simp add: start_config_def no_dialect_def draw_dialect_def unwrap_or_def Let_def)

text \<open>
  The amount alone separates the kinds: whatever the draws, a transaction drawn as a timeout is
  generated like one that should succeed.
\<close>

lemma timeout_is_happy:
  "generate_transaction gen (c\<lparr>ch_type := Timeout_Path\<rparr>) k = generate_transaction gen (c\<lparr>ch_type := Happy_Path\<rparr>) k"
  by (simp add: generate_transaction_def Let_def)

section \<open>What the operator sees\<close>

text \<open>Between two transactions the report adds up.\<close>

lemma status_adds_up:
  assumes "sim_counts st" and "count_pcs tallying st = 0"
  shows "\<exists>s t d. map_of (to_status_json start now st) (ascii ''success'') = Some (JNum s) \<and>
    map_of (to_status_json start now st) (ascii ''timeout'') = Some (JNum t) \<and>
    map_of (to_status_json start now st) (ascii ''decline'') = Some (JNum d) \<and>
    map_of (to_status_json start now st) (ascii ''completed'') = Some (JNum (s + t + d))"
  using assms by (auto simp: to_status_json_def sim_counts_def ascii_def)

lemma fwd_pulses_others: "i \<noteq> ident \<Longrightarrow> snd (fwd_pulses cancelled ident nodes m) i = m i"
  by (induction nodes arbitrary: m) auto

lemma fwd_pulses_arrive:
  "(\<And>n. n \<le> length nodes \<Longrightarrow> \<not> cancelled n) \<Longrightarrow> fst (fwd_pulses cancelled ident nodes m)"
  by (induction nodes arbitrary: m) auto

lemma rev_pulses_clear: "rev_pulses ok ident m = m(ident := None)"
proof -
  have "(fold (\<lambda>node m. m(ident \<mapsto> f node)) nodes m)(ident := None) = m(ident := None)" for nodes f
    by (induction nodes arbitrary: m) auto
  from this [of "\<lambda>node. \<lparr>phase = (if ok then ascii ''res'' else ascii ''rev''), current_node = node\<rparr>"]
  show ?thesis unfolding rev_pulses_def .
qed

text \<open>
  A transaction that completes leaves no pulse and touches no other; one that is cancelled on its
  way, after its first node, leaves its pulse behind.
\<close>

lemma completed_leaves_no_pulse:
  assumes "transaction_pulses cancelled tokenized ok ident m = (True, m')"
  shows "m' = m(ident := None)"
proof -
  obtain m1 where "fwd_pulses cancelled ident (fwd_nodes tokenized) m = (True, m1)" "m' = rev_pulses ok ident m1"
    using assms by (auto simp: transaction_pulses_def split: prod.splits bool.splits)
  then show ?thesis using fwd_pulses_others [of _ ident cancelled "fwd_nodes tokenized" m]
    by (auto simp: rev_pulses_clear fun_eq_iff)
qed

lemma fwd_pulses_stale:
  "m ident \<noteq> None \<Longrightarrow> snd (fwd_pulses cancelled ident nodes m) ident \<noteq> None"
  by (induction nodes arbitrary: m) auto

lemma cancelled_leaves_pulse:
  assumes "transaction_pulses cancelled tokenized ok ident m = (False, m')" and "\<not> cancelled 6"
  shows "m' ident \<noteq> None"
proof -
  obtain node nodes where nodes: "fwd_nodes tokenized = node # nodes" "length (node # nodes) = 6"
    by (cases tokenized) (simp_all add: fwd_nodes_def)
  have "fwd_pulses cancelled ident (node # nodes) m = (False, m')"
    using assms(1) nodes(1) by (auto simp: transaction_pulses_def split: prod.splits bool.splits)
  with assms(2) nodes(2) fwd_pulses_stale [of "m(ident \<mapsto> \<lparr>phase = ascii ''req'', current_node = node\<rparr>)" ident cancelled nodes]
  show ?thesis by simp
qed

text \<open>A display without running transactions shows no pulse, and only such a display.\<close>

lemma pulses_shown: "get_pulses m ps \<Longrightarrow> set ps = ran m \<and> (ps = [] \<longleftrightarrow> m = Map.empty)"
proof -
  assume "get_pulses m ps"
  then obtain idents where idents: "set idents = dom m" "ps = map (\<lambda>i. the (m i)) idents" by (auto simp: get_pulses_def)
  have "(\<lambda>i. the (m i)) ` dom m = ran m" by (force simp: ran_def dom_def)
  moreover have "idents = [] \<longleftrightarrow> m = Map.empty" using idents(1) by (metis dom_eq_empty_conv set_empty)
  ultimately show ?thesis using idents by simp
qed

text \<open>The history holds the last hundred records at most, through restarts and cancellations.\<close>

lemma tally_history: "history (tally r n st) = take 100 (r # history st)"
  by (simp add: tally_def push_history_def update_tps_def Let_def split: tx_status.splits)

lemma goto_history [simp]: "history (goto i p st) = history st"
  by (simp add: goto_def)

lemma history_bounded: "sim_step\<^sup>*\<^sup>* sim_new st \<Longrightarrow> length (get_history st) \<le> 100"
proof (induction rule: rtranclp_induct)
  case base
  show ?case by (simp add: get_history_def sim_new_def)
next
  case (step st st')
  have "history st' = history st \<or> (\<exists>r. history st' = take 100 (r # history st)) \<or> history st' = []"
    using step.hyps(2)
  proof cases
    case worker
    then show ?thesis by cases (auto simp: tally_history)
  next
    case disturbed
    then show ?thesis by cases (simp_all add: cancel_sim_def)
  next
    case (start volume concurrency)
    then show ?thesis by (simp add: start_sim_def Let_def)
  qed
  then show ?case using step.IH by (auto simp: get_history_def)
qed

text \<open>
  Whatever becomes of the request to the daemon, an entry that the operator is shown is one of the
  switch's guard, and no more are announced than there are.
\<close>

lemma proxied_guard:
  assumes "res \<in> {Ok (Some (get_dashmap st)), Ok None, Err ()}"
  shows "fst ` set (fst (proxy_dashmap res)) \<subseteq> fst ` set (idempotency_guard st)"
    and "snd (proxy_dashmap res) \<le> length (idempotency_guard st)"
  using assms by (auto simp: proxy_dashmap_def get_dashmap_def Let_def rev_image_eqI)

section \<open>A run started by the orchestrator\<close>

text \<open>
  Scenario 1 asks the simulator for a run of its volume; an idle simulator accepts it and is left
  with that target and that many new workers.
\<close>

theorem scenario_starts_run:
  assumes "\<not> sim_running s" and "vol < 2 ^ 64"
  shows "\<exists>conc. sim_starts (snd (run_scenario True (ascii ''1'') (Some vol) c st)) = sim_starts st @ [(vol, conc)] \<and>
    fst (start_sim (Some vol) (Some conc) s) = Sim_Ok \<and>
    unat (total_target (snd (start_sim (Some vol) (Some conc) s))) = max vol 1 \<and>
    length (sim_workers (snd (start_sim (Some vol) (Some conc) s))) = length (sim_workers s) + max conc 1"
  using assms
  by (intro exI [of _ "unwrap_or c 20"])
    (auto simp: run_scenario_def start_sim_def unwrap_or_def Let_def unat_of_nat take_bit_nat_eq_self max_def split: option.splits)

end
