(* ===== verification/Handlers.thy ===== *)
theory Handlers
  imports Engine_Liveness
begin

text \<open>
  The whole handlers of \<open>Engine\<close> (\<open>process_transaction\<close>, \<open>process_bank_reply\<close>, \<open>reaper_pass\<close>) are runs of
  the step relation of \<open>Engine_Steps\<close>: those in which the worker is not interrupted. What is proved
  of every reachable state therefore holds after a handler, and what is proved of a handler is
  something the concurrent engine does.
\<close>

section \<open>Steps of a worker\<close>

text \<open>A step that queues nothing from outside and takes nothing from the channel of a bank.\<close>

definition channels_grow :: "engine \<Rightarrow> engine \<Rightarrow> bool" where
  "channels_grow st st' \<longleftrightarrow> (\<forall>ch. length (queue (channels st ch)) \<le> length (queue (channels st' ch)))"

definition internal_step :: "codec \<Rightarrow> hsm \<Rightarrow> engine \<Rightarrow> engine \<Rightarrow> bool" where
  "internal_step cd h st st' \<longleftrightarrow> engine_step cd h st st' \<and>
     set (ingress_queue st') \<subseteq> set (ingress_queue st) \<and> length (ingress_queue st') \<le> length (ingress_queue st) \<and>
     set (bank_replies st') \<subseteq> set (bank_replies st) \<and> length (bank_replies st') \<le> length (bank_replies st) \<and>
     channels_grow st st'"

lemma internal_engine: "(internal_step cd h)\<^sup>*\<^sup>* st st' \<Longrightarrow> (engine_step cd h)\<^sup>*\<^sup>* st st'"
  by (rule rtranclp_mono [THEN predicate2D]) (auto simp: internal_step_def)

lemma guard_queues [simp]:
  "ingress_queue (guard_modify k f st) = ingress_queue st" "bank_replies (guard_modify k f st) = bank_replies st"
  "ingress_queue (guard_remove k st) = ingress_queue st" "bank_replies (guard_remove k st) = bank_replies st"
  "bank_replies (respond r e st) = bank_replies st"
  "ingress_queue (send_reversal d st) = ingress_queue st" "bank_replies (send_reversal d st) = bank_replies st"
  "ingress_queue (nat_remove es st) = ingress_queue st" "bank_replies (nat_remove es st) = bank_replies st"
  by (simp_all add: guard_modify_def guard_remove_def respond_def send_reversal_def nat_remove_def Let_def
      split: option.splits route_destination.splits)

lemma job_step_queues:
  "job_step cd j st = (st', j') \<Longrightarrow> ingress_queue st' = ingress_queue st \<and> bank_replies st' = bank_replies st"
  by (cases j)
    (auto simp: dispatch_def record_stan_def transmit_def ledger_send_def stip_lookup_def stip_fallback_def reap_def reap_finish_def
      bank_reply_def decline_unrouted_def journal_append_def Let_def split: if_splits option.splits prod.splits)

lemma guard_channels [simp]:
  "channels (guard_modify k f st) = channels st" "channels (guard_remove k st) = channels st"
  "channels (respond r e st) = channels st" "channels (nat_remove es st) = channels st"
  by (simp_all add: guard_modify_def guard_remove_def respond_def nat_remove_def Let_def split: option.splits)

lemma send_reversal_grows: "channels_grow st (send_reversal d st)"
  by (simp add: channels_grow_def send_reversal_def send_blocking_def Let_def split: option.splits route_destination.splits)

lemma job_step_grows: "job_step cd j st = (st', j') \<Longrightarrow> channels_grow st st'"
proof (cases j)
  case (Reap k)
  assume step: "job_step cd j st = (st', j')"
  have "channels_grow st (send_reversal d st1)" if "channels st1 = channels st" for d st1
    using send_reversal_grows [of st1 d] that by (simp add: channels_grow_def)
  then show ?thesis using step Reap by (auto simp: reap_def channels_grow_def split: option.splits if_splits)
qed (auto simp: channels_grow_def dispatch_def record_stan_def transmit_def ledger_send_def stip_lookup_def stip_fallback_def reap_finish_def
    bank_reply_def decline_unrouted_def journal_append_def try_send_def Let_def split: if_splits option.splits prod.splits)

lemma job_step_keeps_jobs: "job_step cd j st = (st', j') \<Longrightarrow> jobs st' = jobs st"
  using job_step_jobs [of cd j "jobs st" st]
  by (metis (no_types, lifting) engine.select_convs(16) engine.surjective engine.update_convs(16) fst_conv)

lemma run_job_jobs: "jobs (run_job cd j st) = jobs st"
  by (induction cd j st rule: run_job.induct) (subst run_job.simps, auto dest: job_step_keeps_jobs split: prod.splits option.splits)

text \<open>A piece of work and all that it leads to, among other pieces that wait.\<close>

lemma run_job_steps:
  "(internal_step cd h)\<^sup>*\<^sup>* (st\<lparr>jobs := js1 @ j # js2\<rparr>) ((run_job cd j st)\<lparr>jobs := js1 @ js2\<rparr>)"
proof (induction cd j st arbitrary: js1 js2 rule: run_job.induct)
  case (1 cd j st)
  obtain st' j' where step: "job_step cd j st = (st', j')" by fastforce
  have first: "internal_step cd h (st\<lparr>jobs := js1 @ j # js2\<rparr>) (st'\<lparr>jobs := js1 @ js2 @ option_list j'\<rparr>)"
    using work_step [OF step] job_step_queues [OF step] job_step_grows [OF step]
    by (simp add: internal_step_def channels_grow_def)
  show ?case
  proof (cases j')
    case None
    then show ?thesis using first step by (subst run_job.simps) auto
  next
    case (Some j1)
    have "(internal_step cd h)\<^sup>*\<^sup>* (st'\<lparr>jobs := (js1 @ js2) @ j1 # []\<rparr>) ((run_job cd j1 st')\<lparr>jobs := js1 @ js2\<rparr>)"
      using "1.IH" [OF step [symmetric] Some, of "js1 @ js2" "[]"] by simp
    then show ?thesis
      using first step Some by (subst run_job.simps) (simp add: converse_rtranclp_into_rtranclp)
  qed
qed

lemma run_job_alone:
  assumes "jobs st = []"
  shows "(internal_step cd h)\<^sup>*\<^sup>* (add_jobs [j] st) (run_job cd j st)"
proof -
  have "(run_job cd j st)\<lparr>jobs := []\<rparr> = run_job cd j st" using assms run_job_jobs [of cd j st] by simp
  then show ?thesis using run_job_steps [where st = st and cd = cd and h = h and j = j and ?js1.0 = "[]" and ?js2.0 = "[]"] assms by simp
qed

text \<open>Pieces that wait are served one after the other.\<close>

lemma run_jobs_steps:
  "(internal_step cd h)\<^sup>*\<^sup>* (st\<lparr>jobs := js\<rparr>) ((foldl (\<lambda>s j. run_job cd j s) st js)\<lparr>jobs := []\<rparr>)"
proof (induction js arbitrary: st)
  case (Cons j js)
  have "(internal_step cd h)\<^sup>*\<^sup>* (st\<lparr>jobs := j # js\<rparr>) ((run_job cd j st)\<lparr>jobs := js\<rparr>)"
    using run_job_steps [where st = st and cd = cd and h = h and j = j and ?js1.0 = "[]" and ?js2.0 = js] by simp
  also have "(internal_step cd h)\<^sup>*\<^sup>* \<dots> ((foldl (\<lambda>s j. run_job cd j s) (run_job cd j st) js)\<lparr>jobs := []\<rparr>)"
    by (rule Cons.IH)
  finally show ?case by simp
qed simp

lemma foldl_run_jobs: "jobs (foldl (\<lambda>s j. run_job cd j s) st js) = jobs st"
  by (induction js arbitrary: st) (simp_all add: run_job_jobs)

section \<open>The handlers\<close>

lemma apply_reversal_queues:
  "apply_reversal tx st = Ok st1 \<Longrightarrow>
    ingress_queue st1 = ingress_queue st \<and> bank_replies st1 = bank_replies st \<and> channels st1 = channels st"
  by (auto simp: apply_reversal_def bindo_eq_Ok case_prod_beta split: option.splits)

lemma admit_screened_queues:
  "admit_screened key ctx st = Ok (st1, j) \<Longrightarrow>
    ingress_queue st1 = ingress_queue st \<and> bank_replies st1 = bank_replies st \<and> channels st1 = channels st"
  by (auto simp: admit_screened_def guard_or_duplicate_def bindo_eq_Ok Let_def
      dest!: apply_reversal_queues split: if_splits option.splits)

lemma admit_queues:
  "admit ctx st = Ok (st1, j) \<Longrightarrow>
    ingress_queue st1 = ingress_queue st \<and> bank_replies st1 = bank_replies st \<and> channels st1 = channels st"
  by (auto simp: admit_def bindo_eq_Ok Let_def dest!: admit_screened_queues split: if_splits option.splits)

lemma admit_no_error: "admit ctx st \<noteq> Err e"
  by (auto simp: admit_def admit_screened_def apply_reversal_def original_stan_def compliance_evaluate_def
      tsp_intercept_def bindo_def Let_def split: if_splits option.splits outcome.splits prod.splits)

text \<open>An ingress worker that finds one context in its queue.\<close>

lemma process_transaction_steps:
  assumes "jobs st = []" and "ingress_queue st = []" and "0 < workers st"
  shows "(internal_step cd h)\<^sup>*\<^sup>* (st\<lparr>ingress_queue := [ctx]\<rparr>) (process_transaction cd ctx st)"
proof (cases "admit ctx st")
  case (Ok v)
  obtain st1 j where v: "v = (st1, j)" by fastforce
  have same: "st\<lparr>ingress_queue := []\<rparr> = st" using assms(2) by simp
  have st1: "jobs st1 = []" "ingress_queue st1 = []"
    using admit_evolves [of ctx st st1 j] admit_queues [of ctx st st1 j] Ok v assms(1,2) by (simp_all add: evolves_def)
  have "engine_step cd h (st\<lparr>ingress_queue := [ctx]\<rparr>) (add_jobs (option_list j) st1)"
    using assms(3) Ok v same by (intro engine_step.ingest [of _ ctx "[]"]) simp_all
  then have first: "internal_step cd h (st\<lparr>ingress_queue := [ctx]\<rparr>) (add_jobs (option_list j) st1)"
    using admit_queues [of ctx st st1 j] Ok v st1(2) by (simp add: internal_step_def channels_grow_def)
  show ?thesis
  proof (cases j)
    case None
    then have "add_jobs (option_list j) st1 = st1" by simp
    then show ?thesis using first Ok v None by (auto simp: process_transaction_def)
  next
    case (Some j1)
    then show ?thesis
      using converse_rtranclp_into_rtranclp [of "internal_step cd h", OF first] run_job_alone [OF st1(1), of cd h j1] Ok v
      by (simp add: process_transaction_def)
  qed
next
  case Panic
  have same: "st\<lparr>ingress_queue := []\<rparr> = st" using assms(2) by simp
  have "engine_step cd h (st\<lparr>ingress_queue := [ctx]\<rparr>) (st\<lparr>ingress_queue := [], workers := workers st - 1\<rparr>)"
    using engine_step.crash [of "st\<lparr>ingress_queue := [ctx]\<rparr>" ctx "[]" cd h] assms(3) Panic same by simp
  then have "engine_step cd h (st\<lparr>ingress_queue := [ctx]\<rparr>) (st\<lparr>workers := workers st - 1\<rparr>)"
    using same by (metis engine.update_convs(8,15))
  then show ?thesis using Panic assms(2) by (auto simp: process_transaction_def internal_step_def channels_grow_def)
qed (use admit_no_error in simp)

lemma process_bank_reply_steps:
  assumes "jobs st = []" and "bank_replies st = []"
  shows "(internal_step cd h)\<^sup>*\<^sup>* (st\<lparr>bank_replies := [reply]\<rparr>) (process_bank_reply cd reply st)"
proof -
  obtain st1 key where key: "bank_reply_key reply st = (st1, key)" by fastforce
  have same: "st\<lparr>bank_replies := []\<rparr> = st" using assms(2) by simp
  have st1: "jobs st1 = []" "ingress_queue st1 = ingress_queue st" "bank_replies st1 = []"
    "channels st1 = channels st"
    using key assms by (auto simp: bank_reply_key_def nat_remove_def Let_def)
  have "engine_step cd h (st\<lparr>bank_replies := [reply]\<rparr>) (add_jobs [Reply key reply] st1)"
    using key same by (intro engine_step.reply_taken [of _ reply "[]"]) simp_all
  then have "internal_step cd h (st\<lparr>bank_replies := [reply]\<rparr>) (add_jobs [Reply key reply] st1)"
    using st1 by (simp add: internal_step_def channels_grow_def)
  then show ?thesis
    using converse_rtranclp_into_rtranclp [of "internal_step cd h"] run_job_alone [OF st1(1), of cd h "Reply key reply"] key
    by (simp add: process_bank_reply_def)
qed

lemma foldl_run_map: "foldl (\<lambda>s j. run_job cd j s) st (map f ks) = foldl (\<lambda>s k. run_job cd (f k) s) st ks"
  by (induction ks arbitrary: st) simp_all

lemma run_evict: "run_job cd (Evict k) st = guard_remove k st"
  by (simp add: run_job_simps)

lemma scanned_steps:
  assumes "jobs st = []" and "engine_step cd h st (add_jobs (map f ks) st)"
  shows "(internal_step cd h)\<^sup>*\<^sup>* st (foldl (\<lambda>s k. run_job cd (f k) s) st ks)"
proof -
  let ?st = "foldl (\<lambda>s k. run_job cd (f k) s) st ks"
  have "internal_step cd h st (st\<lparr>jobs := map f ks\<rparr>)" using assms by (simp add: internal_step_def channels_grow_def)
  moreover have "?st\<lparr>jobs := []\<rparr> = ?st"
    using foldl_run_jobs [of cd st "map f ks"] assms(1) by (simp add: foldl_run_map)
  then have "(internal_step cd h)\<^sup>*\<^sup>* (st\<lparr>jobs := map f ks\<rparr>) ?st"
    using run_jobs_steps [where cd = cd and h = h and st = st and js = "map f ks"] by (simp add: foldl_run_map)
  ultimately show ?thesis by (rule converse_rtranclp_into_rtranclp)
qed

lemma reaper_pass_steps:
  assumes "jobs st = []"
  shows "(internal_step cd h)\<^sup>*\<^sup>* st (reaper_pass cd st)"
proof -
  let ?st1 = "foldl (\<lambda>s key. run_job cd (Reap key) s) st (reaper_scan st)"
  have st1: "jobs ?st1 = []" using foldl_run_jobs [of cd st "map Reap (reaper_scan st)"] assms by (simp add: foldl_run_map)
  have "(internal_step cd h)\<^sup>*\<^sup>* st ?st1" by (rule scanned_steps [OF assms engine_step.reaper_wakes])
  also have "(internal_step cd h)\<^sup>*\<^sup>* ?st1 (foldl (\<lambda>s key. run_job cd (Evict key) s) ?st1 (prune_scan ?st1))"
    by (rule scanned_steps [OF st1 engine_step.reaper_prunes])
  finally show ?thesis by (simp add: reaper_pass_def run_evict Let_def)
qed

section \<open>Properties\<close>

text \<open>
  C11. The handlers are runs of the concurrent engine. From a state in which no worker is in the middle
  of its work, an arriving context processed to the end by an ingress worker, a bank reply processed
  to the end by a reply worker, and a full pass of the reaper are each a sequence of steps of the
  interleaved engine.
\<close>

theorem handlers_are_runs:
  assumes "jobs st = []" and "ingress_queue st = []" and "bank_replies st = []" and "0 < workers st"
    and "\<forall>r. ctx_responder ctx = Some r \<longrightarrow> r \<notin># held st"
  shows "(engine_step cd h)\<^sup>*\<^sup>* st (process_transaction cd ctx st) \<and>
    (engine_step cd h)\<^sup>*\<^sup>* st (process_bank_reply cd reply st) \<and>
    (engine_step cd h)\<^sup>*\<^sup>* st (reaper_pass cd st)"
proof (intro conjI)
  have "engine_step cd h st (st\<lparr>ingress_queue := [ctx]\<rparr>)"
    using engine_step.arrive [of ctx st cd h] assms(2,5) by (cases "ctx_responder ctx") simp_all
  then show "(engine_step cd h)\<^sup>*\<^sup>* st (process_transaction cd ctx st)"
    using internal_engine [OF process_transaction_steps [OF assms(1,2,4)]] by (meson converse_rtranclp_into_rtranclp)
  have "engine_step cd h st (st\<lparr>bank_replies := [reply]\<rparr>)"
    using engine_step.bank_sends [of cd h st reply] assms(3) by simp
  then show "(engine_step cd h)\<^sup>*\<^sup>* st (process_bank_reply cd reply st)"
    using internal_engine [OF process_bank_reply_steps [OF assms(1,3)]] by (meson converse_rtranclp_into_rtranclp)
  show "(engine_step cd h)\<^sup>*\<^sup>* st (reaper_pass cd st)" by (rule internal_engine [OF reaper_pass_steps [OF assms(1)]])
qed

theorem handlers_are_runs_witness:
  "(engine_step sample_codec silent_hsm)\<^sup>*\<^sup>* sample_engine (process_transaction sample_codec sample_context sample_engine) \<and>
    (engine_step sample_codec silent_hsm)\<^sup>*\<^sup>* sample_engine (reaper_pass sample_codec sample_engine)"
proof -
  have "jobs sample_engine = []" "ingress_queue sample_engine = []" "bank_replies sample_engine = []"
    "0 < workers sample_engine" "\<forall>r. ctx_responder sample_context = Some r \<longrightarrow> r \<notin># held sample_engine"
    by (simp_all add: sample_defs held_def)
  from handlers_are_runs [OF this] show ?thesis by blast
qed

end
