(* ===== verification/Provenance.thy ===== *)
theory Provenance
  imports Daemon Handlers
begin

text \<open>
  Where the switch's messages come from. A history of the engine records every context a server has
  queued and every message a bank client has queued, as the traces of a protocol do. Along every
  history each answer, each message for a bank and each journal entry is accounted for: an answer
  is a decision of the switch on the request of that responder, or a bank's reply under the key of
  that request; a message for a bank asks for the amount, on the card, that a terminal asked for.
  A history of the daemon records the messages of each connection in the same way, and the same
  account holds of the frames its terminals read.
\<close>

section \<open>Requests and what is made of them\<close>

text \<open>The card a request is charged to, the vault's card number for a device token.\<close>

definition charged_card :: "event \<Rightarrow> bytes" where
  "charged_card q = (if is_tokenized q then
      (case detokenize tsp_vault_new (from_utf8_lossy (fpan q)) of Some p \<Rightarrow> p | None \<Rightarrow> fpan q) else fpan q)"

text \<open>An event asked for by a context: the same amount, RRN and acquirer, and its card.\<close>

definition asked_by :: "transaction_context \<Rightarrow> event \<Rightarrow> bool" where
  "asked_by c tx \<longleftrightarrow> (let q = ctx_transaction c in
     amount tx = amount q \<and> rrn tx = rrn q \<and>
     from_utf8_lossy (acquirer_id tx) = from_utf8_lossy (acquirer_id q) \<and>
     from_utf8_lossy (fpan tx) = from_utf8_lossy (charged_card q))"

definition asked :: "transaction_context set \<Rightarrow> event \<Rightarrow> bool" where
  "asked R tx \<longleftrightarrow> (\<exists>c \<in> R. asked_by c tx)"

definition event_key :: "event \<Rightarrow> rstring" where
  "event_key tx = guard_key (rrn tx) (stan tx) (from_utf8_lossy (acquirer_id tx))"

definition request_stans :: "transaction_context set \<Rightarrow> rstring set" where
  "request_stans R = (\<lambda>c. stan (ctx_transaction c)) ` R"

text \<open>The keys a reply may be matched to: its STAN may have been translated to that of a request.\<close>

definition reply_key :: "transaction_context set \<Rightarrow> transaction \<Rightarrow> rstring \<Rightarrow> bool" where
  "reply_key R reply k \<longleftrightarrow> (\<exists>s \<in> insert (pb_stan reply) (request_stans R).
     k = guard_key (pb_rrn reply) s (pb_acquirer_id reply))"

text \<open>What the switch decides by itself: MTI and response code.\<close>

definition switch_decisions :: "(bytes \<times> rstring) set" where
  "switch_decisions = {(ascii ''0110'', ascii ''93''), (ascii ''0110'', ascii ''56''), (ascii ''0110'', ascii ''59''),
     (ascii ''0110'', ascii ''94''), (ascii ''0110'', ascii ''05''), (ascii ''0110'', ascii ''68''),
     (ascii ''0810'', ascii ''00''), (ascii ''0430'', ascii ''00'')}"

definition decided :: "transaction_context \<Rightarrow> event \<Rightarrow> bool" where
  "decided c e \<longleftrightarrow> event_key e = context_key c \<and> (mti e, response_code e) \<in> switch_decisions"

definition replied :: "transaction_context set \<Rightarrow> transaction set \<Rightarrow> transaction_context \<Rightarrow> event \<Rightarrow> bool" where
  "replied R B c e \<longleftrightarrow> (\<exists>reply \<in> B. e = approval_of reply \<and> reply_key R reply (context_key c))"

definition answer_ok :: "transaction_context set \<Rightarrow> transaction set \<Rightarrow> nat \<Rightarrow> event \<Rightarrow> bool" where
  "answer_ok R B r e \<longleftrightarrow> (\<exists>c \<in> R. ctx_responder c = Some r \<and> (decided c e \<or> replied R B c e))"

definition outbound_ok :: "transaction_context set \<Rightarrow> event \<Rightarrow> bool" where
  "outbound_ok R tx \<longleftrightarrow> asked R tx \<or> (\<exists>i. tx = probe_event i)"

definition journal_ok :: "transaction_context set \<Rightarrow> transaction set \<Rightarrow> transaction \<Rightarrow> bool" where
  "journal_ok R B t \<longleftrightarrow> t \<in> B \<or> (\<exists>tx. asked R tx \<and> t = to_pb tx)"

definition entry_ok :: "transaction_context set \<Rightarrow> rstring \<Rightarrow> active_transaction \<Rightarrow> bool" where
  "entry_ok R k en \<longleftrightarrow> (\<exists>c \<in> R. \<exists>tx. context_key c = k \<and> asked_by c tx \<and> event_key tx = k \<and>
     transaction_data en = to_pb tx \<and> (\<forall>r. at_responder en = Some r \<longrightarrow> ctx_responder c = Some r))"

fun job_ok :: "transaction_context set \<Rightarrow> transaction set \<Rightarrow> job \<Rightarrow> bool" where
  "job_ok R B (Dispatch k ctx) \<longleftrightarrow> asked R (ctx_transaction ctx) \<and> event_key (ctx_transaction ctx) = k \<and>
     stan (ctx_transaction ctx) \<in> request_stans R"
| "job_ok R B (RecordStan k ctx ch es) \<longleftrightarrow> asked R (ctx_transaction ctx)"
| "job_ok R B (Transmit ctx ch) \<longleftrightarrow> asked R (ctx_transaction ctx)"
| "job_ok R B (StipLookup ctx) \<longleftrightarrow> asked R (ctx_transaction ctx)"
| "job_ok R B (StipApply ctx found) \<longleftrightarrow> asked R (ctx_transaction ctx)"
| "job_ok R B (Reply k reply) \<longleftrightarrow> reply \<in> B \<and> reply_key R reply k"
| "job_ok R B _ \<longleftrightarrow> True"

definition accounted :: "transaction_context set \<Rightarrow> transaction set \<Rightarrow> engine \<Rightarrow> bool" where
  "accounted R B st \<longleftrightarrow>
     set (ingress_queue st) \<subseteq> R \<and> set (bank_replies st) \<subseteq> B \<and>
     (\<forall>c \<in> set (hsm_queue st). asked R (ctx_transaction c)) \<and>
     (\<forall>k en. entry_of st k = Some en \<longrightarrow> entry_ok R k en) \<and>
     (\<forall>j \<in> set (jobs st). job_ok R B j) \<and>
     (\<forall>ch. \<forall>c \<in> set (queue (channels st ch)). outbound_ok R (ctx_transaction c)) \<and>
     ran (stan_nat (memory_state st)) \<subseteq> request_stans R \<and>
     token_map (memory_state st) = tsp_vault_new \<and>
     (\<forall>(r, e) \<in> set (answers st). answer_ok R B r e) \<and>
     (\<forall>t \<in> set (journal st). journal_ok R B t)"

text \<open>
  The histories of the engine: \<open>R\<close> has every context that was ever queued for it, \<open>B\<close> every bank
  message.
\<close>

inductive history ::
  "codec \<Rightarrow> hsm \<Rightarrow> engine \<Rightarrow> transaction_context set \<Rightarrow> transaction set \<Rightarrow> bool" for cd h where
  started: "history cd h (engine_start db timeout threads) {} {}"
| continued: "history cd h st R B \<Longrightarrow> engine_step cd h st st' \<Longrightarrow>
    history cd h st' (R \<union> set (ingress_queue st')) (B \<union> set (bank_replies st'))"

section \<open>Growing histories\<close>

lemma asked_mono: "asked R tx \<Longrightarrow> R \<subseteq> R' \<Longrightarrow> asked R' tx"
  by (auto simp: asked_def)

lemma stans_mono: "R \<subseteq> R' \<Longrightarrow> request_stans R \<subseteq> request_stans R'"
  by (auto simp: request_stans_def)

lemma reply_key_mono: "reply_key R reply k \<Longrightarrow> R \<subseteq> R' \<Longrightarrow> reply_key R' reply k"
  using stans_mono [of R R'] unfolding reply_key_def by blast

lemma answer_ok_mono: "answer_ok R B r e \<Longrightarrow> R \<subseteq> R' \<Longrightarrow> B \<subseteq> B' \<Longrightarrow> answer_ok R' B' r e"
  unfolding answer_ok_def replied_def using reply_key_mono by blast

lemma entry_ok_mono: "entry_ok R k en \<Longrightarrow> R \<subseteq> R' \<Longrightarrow> entry_ok R' k en"
  by (auto simp: entry_ok_def)

lemma job_ok_mono: "job_ok R B j \<Longrightarrow> R \<subseteq> R' \<Longrightarrow> B \<subseteq> B' \<Longrightarrow> job_ok R' B' j"
  using stans_mono [of R R'] by (cases j) (auto intro: asked_mono reply_key_mono)

lemma accounted_mono:
  assumes "accounted R B st" and "R \<subseteq> R'" and "B \<subseteq> B'"
  shows "accounted R' B' st"
proof -
  have ok: "outbound_ok R' tx" if "outbound_ok R tx" for tx
    using that assms(2) asked_mono unfolding outbound_ok_def by blast
  have journaled: "journal_ok R' B' t" if "journal_ok R B t" for t
    using that assms(2,3) asked_mono unfolding journal_ok_def by blast
  note grows = asked_mono [OF _ assms(2)] answer_ok_mono [OF _ assms(2,3)] entry_ok_mono [OF _ assms(2)]
    job_ok_mono [OF _ assms(2,3)] stans_mono [OF assms(2)]
  show ?thesis
    using assms(1) unfolding accounted_def
    by (elim conjE, intro conjI) (use assms(2,3) grows ok journaled in \<open>blast | auto\<close>)+
qed

section \<open>The small operations\<close>

lemma asked_update [simp]:
  "asked_by c (tx\<lparr>stan := s\<rparr>) = asked_by c tx" "asked_by c (tx\<lparr>pin_block := p\<rparr>) = asked_by c tx"
  "asked_by c (tx\<lparr>mti := m\<rparr>) = asked_by c tx" "asked_by c (tx\<lparr>response_code := rc\<rparr>) = asked_by c tx"
  "asked_by c (tx\<lparr>processing_code := pc\<rparr>) = asked_by c tx"
  "asked R (tx\<lparr>stan := s\<rparr>) = asked R tx" "asked R (tx\<lparr>pin_block := p\<rparr>) = asked R tx"
  "asked R (tx\<lparr>mti := m\<rparr>) = asked R tx" "asked R (tx\<lparr>response_code := rc\<rparr>) = asked R tx"
  "asked R (tx\<lparr>processing_code := pc\<rparr>) = asked R tx" "asked R (decline_of tx rc) = asked R tx"
  by (simp_all add: asked_def asked_by_def decline_of_def Let_def)

lemma event_key_update [simp]:
  "event_key (tx\<lparr>mti := m\<rparr>) = event_key tx" "event_key (tx\<lparr>response_code := rc\<rparr>) = event_key tx"
  "event_key (tx\<lparr>message_class := mc\<rparr>) = event_key tx" "event_key (decline_of tx rc) = event_key tx"
  by (simp_all add: event_key_def decline_of_def)

lemma context_key_event: "context_key c = event_key (ctx_transaction c)"
  by (simp add: context_key_def event_key_def Let_def)

lemma from_to_pb_event:
  "from_pb ((to_pb tx)\<lparr>pb_mti := m\<rparr>) = (from_pb (to_pb tx))\<lparr>mti := m, message_class := class_of_mti m\<rparr>"
  "asked R (from_pb (to_pb tx)) = asked R tx" "event_key (from_pb (to_pb tx)) = event_key tx"
  by (simp_all add: from_pb_def to_pb_def asked_def asked_by_def event_key_def Let_def)

lemma accounted_frame [simp]:
  "accounted R B (st\<lparr>ledger_queue := l\<rparr>) = accounted R B st" "accounted R B (st\<lparr>clock := n\<rparr>) = accounted R B st"
  "accounted R B (st\<lparr>stip_db := d\<rparr>) = accounted R B st" "accounted R B (st\<lparr>workers := w\<rparr>) = accounted R B st"
  "accounted R B (st\<lparr>journal_open := b\<rparr>) = accounted R B st"
  "accounted R B (st\<lparr>compliance_cache := cc\<rparr>) = accounted R B st"
  by (simp_all add: accounted_def)

lemma accounted_respond:
  "accounted R B st \<Longrightarrow> (\<And>r. responder = Some r \<Longrightarrow> answer_ok R B r e) \<Longrightarrow> accounted R B (respond responder e st)"
  by (cases responder) (auto simp: accounted_def respond_def)

lemma modify_queues [simp]:
  "jobs (guard_modify k f st) = jobs st" "hsm_queue (guard_modify k f st) = hsm_queue st"
  "jobs (guard_remove k st) = jobs st" "hsm_queue (guard_remove k st) = hsm_queue st"
  by (simp_all add: guard_modify_def guard_remove_def split: option.splits)

lemma accounted_modify:
  assumes "accounted R B st" and "\<And>en. transaction_data (f en) = transaction_data en"
    and "\<And>en r. at_responder (f en) = Some r \<Longrightarrow> at_responder en = Some r"
  shows "accounted R B (guard_modify k f st)"
proof -
  have kept: "entry_ok R k' (f en)" if "entry_ok R k' en" for k' en
    using that assms(2,3) unfolding entry_ok_def by metis
  have "entry_ok R k' en" if "entry_of (guard_modify k f st) k' = Some en" for k' en
    using that assms(1) kept by (cases "k' = k") (auto simp: accounted_def)
  then show ?thesis using assms(1) by (simp add: accounted_def)
qed

lemma accounted_remove: "accounted R B st \<Longrightarrow> accounted R B (guard_remove k st)"
  by (simp add: accounted_def)

lemma accounted_journal: "accounted R B st \<Longrightarrow> journal_ok R B t \<Longrightarrow> accounted R B (st\<lparr>journal := journal st @ [t]\<rparr>)"
  by (auto simp: accounted_def)

lemma journal_asked: "asked R tx \<Longrightarrow> journal_ok R B (to_pb tx)"
  by (auto simp: journal_ok_def)

lemma accounted_nat_remove: "accounted R B st \<Longrightarrow> accounted R B (nat_remove es st)"
  by (auto simp: accounted_def nat_remove_def ran_def split: if_splits)

lemma accounted_memory:
  "accounted R B st \<Longrightarrow> ran (stan_nat g) \<subseteq> request_stans R \<Longrightarrow> token_map g = tsp_vault_new \<Longrightarrow>
    accounted R B (st\<lparr>memory_state := g\<rparr>)"
  by (simp add: accounted_def)

lemma accounted_nat_outbound:
  assumes "accounted R B st" and "nat_outbound s (memory_state st) = (g, es)" and "s \<in> request_stans R"
  shows "accounted R B (st\<lparr>memory_state := g\<rparr>)"
proof (rule accounted_memory [OF assms(1)])
  have "ran (stan_nat g) \<subseteq> insert s (ran (stan_nat (memory_state st)))"
    using assms(2) by (auto simp: nat_outbound_def Let_def ran_def split: if_splits)
  then show "ran (stan_nat g) \<subseteq> request_stans R" using assms(1,3) by (auto simp: accounted_def)
  show "token_map g = tsp_vault_new"
    using assms(1,2) by (auto simp: accounted_def nat_outbound_def Let_def)
qed

lemma accounted_channel:
  "accounted R B st \<Longrightarrow> set (queue c) \<subseteq> set (queue (channels st ch)) \<Longrightarrow>
    accounted R B (st\<lparr>channels := (channels st)(ch := c)\<rparr>)"
  by (auto simp: accounted_def)

lemma accounted_send:
  assumes "accounted R B st" and "set (queue c) \<subseteq> insert ctx (set (queue (channels st ch)))"
    and "outbound_ok R (ctx_transaction ctx)"
  shows "accounted R B (st\<lparr>channels := (channels st)(ch := c)\<rparr>)"
  using assms by (auto simp: accounted_def)

lemma accounted_send_blocking:
  "accounted R B st \<Longrightarrow> outbound_ok R (ctx_transaction ctx) \<Longrightarrow>
    accounted R B (st\<lparr>channels := (channels st)(ch := send_blocking ctx (channels st ch))\<rparr>)"
  by (rule accounted_send) (auto simp: send_blocking_def)

lemma accounted_jobs: "accounted R B st \<Longrightarrow> (\<And>j. j \<in> set js \<Longrightarrow> job_ok R B j) \<Longrightarrow> accounted R B (st\<lparr>jobs := js\<rparr>)"
  by (simp add: accounted_def)

section \<open>The ingress worker\<close>

abbreviation jobs_ok :: "transaction_context set \<Rightarrow> transaction set \<Rightarrow> job option \<Rightarrow> bool" where
  "jobs_ok R B j \<equiv> \<forall>j' \<in> set (option_list j). job_ok R B j'"

lemma decided_answer:
  "c \<in> R \<Longrightarrow> ctx_responder c = Some r \<Longrightarrow> event_key e = context_key c \<Longrightarrow>
    (mti e, response_code e) \<in> switch_decisions \<Longrightarrow> answer_ok R B r e"
  by (auto simp: answer_ok_def decided_def)

lemma decline_decision [simp]:
  "(mti (decline_of tx rc), response_code (decline_of tx rc)) \<in> switch_decisions \<longleftrightarrow>
    (ascii ''0110'', rc) \<in> switch_decisions"
  by (simp add: decline_of_def)

lemma switch_decided [simp]:
  "(ascii ''0110'', ascii ''93'') \<in> switch_decisions" "(ascii ''0110'', ascii ''56'') \<in> switch_decisions"
  "(ascii ''0110'', ascii ''59'') \<in> switch_decisions" "(ascii ''0110'', ascii ''94'') \<in> switch_decisions"
  "(ascii ''0110'', ascii ''05'') \<in> switch_decisions" "(ascii ''0110'', ascii ''68'') \<in> switch_decisions"
  "(ascii ''0810'', ascii ''00'') \<in> switch_decisions" "(ascii ''0430'', ascii ''00'') \<in> switch_decisions"
  by (simp_all add: switch_decisions_def)

lemma tsp_asked:
  assumes "token_map g = tsp_vault_new" and "tsp_intercept g (ctx_transaction c) = Ok (Some tx)"
  shows "asked_by c tx" and "event_key tx = context_key c" and "stan tx = stan (ctx_transaction c)"
  using assms
  by (auto simp: asked_by_def charged_card_def tsp_intercept_def event_key_def context_key_def Let_def
      split: if_splits option.splits)

lemma guard_or_duplicate_accounted:
  assumes acc: "accounted R B st" and c: "c \<in> R" "asked_by c tx" "event_key tx = context_key c"
      "stan tx = stan (ctx_transaction c)"
    and run: "guard_or_duplicate (context_key c) (c\<lparr>ctx_transaction := tx\<rparr>) st = (st', j)"
  shows "accounted R B st' \<and> jobs_ok R B j"
proof (cases "entry_of st (context_key c)")
  case None
  let ?en = "\<lparr>created_at = clock st, at_state = UpstreamSent, at_responder = ctx_responder c,
    transaction_data = to_pb tx, egress_stan = None\<rparr>"
  have st': "st' = st\<lparr>idempotency_guard := (context_key c, ?en) # idempotency_guard st\<rparr>"
    and j: "j = Some (Dispatch (context_key c) (c\<lparr>ctx_transaction := tx, ctx_responder := None\<rparr>))"
    using None run by (simp_all add: guard_or_duplicate_def Let_def)
  have "entry_ok R (context_key c) ?en"
    unfolding entry_ok_def using c(1-3) by (intro bexI [of _ c] exI [of _ tx]) simp_all
  then have "accounted R B st'" using acc by (simp add: accounted_def st')
  moreover have "asked R tx" "stan tx \<in> request_stans R" using c by (auto simp: asked_def request_stans_def)
  ultimately show ?thesis using c(3) by (simp add: j)
next
  case (Some en)
  then have "st' = respond (ctx_responder c) (decline_of tx (ascii ''94'')) st" "j = None"
    using run by (simp_all add: guard_or_duplicate_def Let_def)
  then show ?thesis using acc c by (auto intro!: accounted_respond decided_answer)
qed

lemma mark_reversed_entries:
  "map_of (fst (mark_reversed tx s g)) k = Some en \<Longrightarrow>
    \<exists>en0. map_of g k = Some en0 \<and> transaction_data en = transaction_data en0 \<and> at_responder en = at_responder en0"
  by (induction tx s g rule: mark_reversed.induct) (auto split: prod.splits if_splits)

lemma apply_reversal_accounted:
  assumes "accounted R B st" and "apply_reversal tx st = Ok st'"
  shows "accounted R B st'"
proof -
  consider "st' = st" | s where "st' = st\<lparr>
      idempotency_guard := fst (mark_reversed tx s (idempotency_guard st)),
      ledger_queue := ledger_queue st @ snd (mark_reversed tx s (idempotency_guard st))\<rparr>"
    using assms(2) by (auto simp: apply_reversal_def bindo_eq_Ok case_prod_beta split: option.splits)
  then show ?thesis
  proof cases
    case (2 s)
    have "entry_ok R k en" if "map_of (fst (mark_reversed tx s (idempotency_guard st))) k = Some en" for k en
      using mark_reversed_entries [OF that] assms(1) by (auto simp: accounted_def entry_ok_def)
    then show ?thesis using assms(1) 2 by (simp add: accounted_def)
  qed (use assms(1) in simp)
qed

lemma admit_accounted:
  assumes acc: "accounted R B st" and c: "c \<in> R" and run: "admit c st = Ok (st', j)"
  shows "accounted R B st' \<and> jobs_ok R B j"
proof -
  have vault: "token_map (memory_state st) = tsp_vault_new" using acc by (simp add: accounted_def)
  have key: "guard_key (rrn (ctx_transaction c)) (stan (ctx_transaction c))
      (from_utf8_lossy (acquirer_id (ctx_transaction c))) = context_key c"
    by (simp add: context_key_def Let_def)
  consider rc where "st' = respond (ctx_responder c) (decline_of (ctx_transaction c) rc) st" "j = None"
      "(ascii ''0110'', rc) \<in> switch_decisions"
    | tx where "tsp_intercept (memory_state st) (ctx_transaction c) = Ok (Some tx)"
      "st' = respond (ctx_responder c) (decline_of tx (ascii ''59'')) st" "j = None"
    | tx where "tsp_intercept (memory_state st) (ctx_transaction c) = Ok (Some tx)"
      "admit_screened (context_key c) (c\<lparr>ctx_transaction := tx\<rparr>) st = Ok (st', j)"
    using run unfolding admit_def Let_def key
    by (auto simp: bindo_eq_Ok split: if_splits option.splits)
  then show ?thesis
  proof cases
    case 1
    then show ?thesis using acc c by (auto intro!: accounted_respond decided_answer simp: context_key_event)
  next
    case 2
    then show ?thesis
      using acc c tsp_asked [OF vault 2(1)] by (auto intro!: accounted_respond decided_answer)
  next
    case (3 tx)
    note tx = tsp_asked [OF vault 3(1)]
    consider "guard_or_duplicate (context_key c) (c\<lparr>ctx_transaction := tx\<rparr>) st = (st', j)"
      | e st1 where "st' = respond (ctx_responder c) e st1" "j = None" "accounted R B st1"
        "event_key e = event_key tx" "(mti e, response_code e) \<in> switch_decisions"
      using 3(2) acc apply_reversal_accounted [OF acc, of tx]
      by (auto simp: admit_screened_def Let_def bindo_eq_Ok split: if_splits)
    then show ?thesis
    proof cases
      case 1
      then show ?thesis using guard_or_duplicate_accounted [OF acc c tx] by simp
    next
      case 2
      then show ?thesis using c tx(2) by (auto intro!: accounted_respond decided_answer)
    qed
  qed
qed

lemma accounted_take_respond:
  assumes acc: "accounted R B st" and en: "entry_of st k = Some en"
    and f: "\<And>en. transaction_data (f en) = transaction_data en" "\<And>en. at_responder (f en) = None"
    and e: "\<And>c r. c \<in> R \<Longrightarrow> context_key c = k \<Longrightarrow> ctx_responder c = Some r \<Longrightarrow> answer_ok R B r e"
  shows "accounted R B (guard_modify k f (respond (at_responder en) e st))"
proof (intro accounted_modify accounted_respond acc)
  fix r assume "at_responder en = Some r"
  moreover have "entry_ok R k en" using acc en by (simp add: accounted_def)
  ultimately show "answer_ok R B r e" using e by (auto simp: entry_ok_def)
qed (simp_all add: f)

lemma decline_unrouted_accounted:
  assumes acc: "accounted R B st" and "event_key tx = key"
  shows "accounted R B (decline_unrouted key tx st)"
proof (cases "entry_of st key")
  case (Some en)
  have "accounted R B (guard_modify key (\<lambda>e. e\<lparr>at_responder := None, at_state := Completed\<rparr>)
      (respond (at_responder en) (decline_of tx (ascii ''05'')) st))"
    using assms(2) by (intro accounted_take_respond [OF acc Some]) (auto intro!: decided_answer)
  then show ?thesis using Some by (simp add: decline_unrouted_def)
qed (use acc in \<open>simp add: decline_unrouted_def\<close>)

lemma dispatch_accounted:
  assumes acc: "accounted R B st" and "job_ok R B (Dispatch key ctx)" and run: "dispatch key ctx st = (st', j)"
  shows "accounted R B st' \<and> jobs_ok R B j"
proof -
  let ?tx = "ctx_transaction ctx" and ?st1 = "st\<lparr>journal := journal st @ [to_pb (ctx_transaction ctx)]\<rparr>"
  have tx: "asked R ?tx" "event_key ?tx = key" "stan ?tx \<in> request_stans R" using assms(2) by simp_all
  have acc1: "accounted R B ?st1" using acc tx(1) by (simp add: accounted_journal journal_asked)
  consider "st' = st\<lparr>hsm_queue := hsm_queue st @ [ctx]\<rparr>" "j = None"
    | "st' = st" "j = None"
    | ch es where "st' = ?st1\<lparr>memory_state := fst (nat_outbound (stan ?tx) (memory_state ?st1))\<rparr>"
        "j = Some (RecordStan key (ctx\<lparr>ctx_transaction := ?tx\<lparr>stan := es\<rparr>\<rparr>) ch es)"
    | "st' = decline_unrouted key ?tx ?st1" "j = Some (Evict key)"
    using run
    by (auto simp: dispatch_def journal_append_def Let_def case_prod_beta split: if_splits option.splits)
  then show ?thesis
  proof cases
    case 1
    then show ?thesis using acc tx(1) by (auto simp: accounted_def)
  next
    case 3
    have "accounted R B st'"
      unfolding 3(1) by (rule accounted_nat_outbound [OF acc1 _ tx(3)]) (rule surjective_pairing)
    then show ?thesis using 3(2) tx(1) by simp
  next
    case 4
    then show ?thesis using decline_unrouted_accounted [OF acc1 tx(2)] by simp
  qed (use acc in simp)
qed

lemma stip_asked: "asked R (fst (stip_decide cd tx found)) = asked R tx"
  by (simp add: stip_decide_def Let_def split: option.splits)

lemma stip_fallback_accounted:
  assumes "accounted R B st" and "asked R (ctx_transaction ctx)" and "ctx_responder ctx = None"
  shows "accounted R B (stip_fallback cd ctx found st)"
  using assms stip_asked [of R cd "ctx_transaction ctx" found]
  by (auto simp: stip_fallback_def journal_append_def respond_def Let_def journal_asked
      intro!: accounted_journal [of R B "st\<lparr>stip_db := _\<rparr>", simplified] split: prod.splits)

lemma transmit_accounted:
  assumes "accounted R B st" and "asked R (ctx_transaction ctx)" and "transmit ctx ch st = (st', j)"
  shows "accounted R B st' \<and> jobs_ok R B j"
proof -
  let ?st = "ledger_send (ctx_transaction ctx) st"
  have acc: "accounted R B ?st" using assms(1) by (simp add: ledger_send_def)
  have "accounted R B (?st\<lparr>channels := (channels ?st)(ch := c)\<rparr>)"
    if "try_send ctx (channels ?st ch) = Some c" for c
    using that assms(2) by (intro accounted_send [OF acc, where ctx = ctx])
      (auto simp: try_send_def outbound_ok_def split: if_splits)
  then show ?thesis using acc assms(2,3) by (auto simp: transmit_def Let_def split: option.splits)
qed

section \<open>The other workers\<close>

lemma reversal_asked: "entry_ok R k en \<Longrightarrow> asked R (from_pb ((transaction_data en)\<lparr>pb_mti := m\<rparr>))"
  by (auto simp: entry_ok_def from_to_pb_event) (auto simp: asked_def asked_by_def from_pb_def to_pb_def Let_def)

lemma timeout_decided:
  "entry_ok R k en \<Longrightarrow> event_key (timeout_reply (transaction_data en)) = k \<and>
    (mti (timeout_reply (transaction_data en)), response_code (timeout_reply (transaction_data en))) \<in> switch_decisions"
  by (auto simp: entry_ok_def timeout_reply_def event_key_def from_pb_def to_pb_def)

lemma send_reversal_accounted:
  assumes "accounted R B st" and "asked R (from_pb (data\<lparr>pb_mti := ascii ''0420''\<rparr>))"
  shows "accounted R B (send_reversal data st)"
  using assms
  by (auto simp: send_reversal_def Let_def outbound_ok_def intro!: accounted_send_blocking
      split: option.splits route_destination.splits)

lemma reap_accounted:
  assumes acc: "accounted R B st" and run: "reap key st = (st', j)"
  shows "accounted R B st' \<and> jobs_ok R B j"
proof (cases "\<exists>en. entry_of st key = Some en \<and> at_state en = UpstreamSent")
  case True
  then obtain en where en: "entry_of st key = Some en" "at_state en = UpstreamSent" by blast
  then have ok: "entry_ok R key en" using acc by (simp add: accounted_def)
  let ?f = "\<lambda>e. e\<lparr>at_state := Reversed, egress_stan := None, at_responder := None\<rparr>"
  have "accounted R B (guard_modify key ?f (respond (at_responder en) (timeout_reply (transaction_data en)) st))"
    using timeout_decided [OF ok] by (intro accounted_take_respond [OF acc en(1)]) (auto intro!: decided_answer)
  then show ?thesis
    using run en send_reversal_accounted [OF _ reversal_asked [OF ok]] by (auto simp: reap_def)
next
  case False
  then show ?thesis using assms by (auto simp: reap_def split: option.splits if_splits)
qed

lemma reap_finish_accounted: "accounted R B st \<Longrightarrow> accounted R B (reap_finish key es did st)"
  by (simp add: reap_finish_def Let_def accounted_remove accounted_nat_remove split: option.splits)

lemma bank_reply_accounted:
  assumes acc: "accounted R B st" and reply: "reply \<in> B" "reply_key R reply key"
    and run: "bank_reply key reply st = (st', j)"
  shows "accounted R B st' \<and> jobs_ok R B j"
proof -
  let ?st1 = "guard_modify key (\<lambda>e. e\<lparr>at_state := Completed\<rparr>) st"
  let ?st2 = "?st1\<lparr>journal := journal ?st1 @ [reply]\<rparr>"
  have acc1: "accounted R B ?st1" by (rule accounted_modify [OF acc]) simp_all
  have acc2: "accounted R B ?st2" by (rule accounted_journal [OF acc1]) (simp add: journal_ok_def reply(1))
  consider "st' = st" "jobs_ok R B j" | "st' = ?st1" "j = None"
    | en where "entry_of st key = Some en" "j = Some (Evict key)" "st' = respond (at_responder en)
        (approval_of reply) (guard_modify key (\<lambda>e. e\<lparr>at_responder := None\<rparr>) ?st2)"
    using run by (auto simp: bank_reply_def journal_append_def approval_of_def Let_def split: option.splits if_splits)
  then show ?thesis
  proof cases
    case 3
    have "accounted R B (guard_modify key (\<lambda>e. e\<lparr>at_responder := None\<rparr>)
        (respond (at_responder (en\<lparr>at_state := Completed\<rparr>)) (approval_of reply) ?st2))"
    proof (rule accounted_take_respond [OF acc2])
      fix c r assume "c \<in> R" "context_key c = key" "ctx_responder c = Some r"
      then show "answer_ok R B r (approval_of reply)" using reply unfolding answer_ok_def replied_def by blast
    qed (use 3(1) in simp_all)
    then show ?thesis using 3(2,3) by (simp add: respond_modify)
  qed (use acc acc1 in simp_all)
qed

lemma job_step_accounted:
  assumes "accounted R B st" and "job_ok R B j" and "quiet_job j" and "job_step cd j st = (st', j')"
  shows "accounted R B st' \<and> jobs_ok R B j'"
proof (cases j)
  case (Dispatch key ctx)
  then show ?thesis using assms(2,4) dispatch_accounted [OF assms(1), of key ctx st' j'] by simp
next
  case (RecordStan key ctx ch es)
  then show ?thesis using assms by (auto simp: record_stan_def intro!: accounted_modify)
next
  case (Transmit ctx ch)
  then show ?thesis using assms transmit_accounted by simp
next
  case (StipLookup ctx)
  then show ?thesis using assms by (auto simp: stip_lookup_def)
next
  case (StipApply ctx found)
  then show ?thesis using assms stip_fallback_accounted by auto
next
  case (Evict key)
  then show ?thesis using assms accounted_remove by auto
next
  case (Reap key)
  then show ?thesis using assms reap_accounted by simp
next
  case (ReapFinish key es did)
  then show ?thesis using assms reap_finish_accounted by auto
next
  case (Reply key reply)
  then show ?thesis using assms(2,4) bank_reply_accounted [OF assms(1), of reply key st' j'] by simp
qed

lemma hsm_internal_same: "hsm_internal h g tx pan pin = Ok (valid, tx', ch) \<Longrightarrow> tx' = tx"
  by (cases "crdb g pan"; cases "verify_pin h pin pan (pvv (the (crdb g pan)))")
    (auto simp: hsm_internal_def bindo_eq_Ok Let_def split: if_splits)

lemma hsm_external_asked: "hsm_external h g node failover tx pan pin = Ok (valid, tx', ch) \<Longrightarrow> asked R tx' = asked R tx"
  by (cases "translate_pin h pin pan") (auto simp: hsm_external_def bindo_eq_Ok split: if_splits)

lemma hsm_check_asked: "hsm_check h g tx = Ok (valid, tx', ch) \<Longrightarrow> asked R tx' = asked R tx"
  by (auto simp: hsm_check_def Let_def hsm_external_asked dest: hsm_internal_same
      split: option.splits route_destination.splits)

lemma hsm_process_accounted:
  assumes acc: "accounted R B st" and "asked R (ctx_transaction ctx)" and "ctx_responder ctx = None"
  shows "accounted R B (hsm_process h ctx st)"
proof (cases "hsm_check h (memory_state st) (ctx_transaction ctx)")
  case (Ok v)
  obtain valid tx ch where v: "v = (valid, tx, ch)" by (cases v) auto
  let ?st1 = "st\<lparr>journal := journal st @ [to_pb tx]\<rparr>"
  have tx: "asked R tx" using hsm_check_asked Ok v assms(2) by metis
  then have acc1: "accounted R B ?st1" using acc by (simp add: accounted_journal journal_asked)
  then have "accounted R B (?st1\<lparr>channels := (channels st)(c := send_blocking (ctx\<lparr>ctx_transaction := tx\<rparr>) (channels st c))\<rparr>)" for c
    using accounted_send_blocking [OF acc1, of "ctx\<lparr>ctx_transaction := tx\<rparr>" c] tx by (simp add: outbound_ok_def)
  then show ?thesis
    using acc acc1 Ok v assms(3)
    by (simp add: hsm_process_def journal_append_def respond_def split: option.splits)
qed (use acc in \<open>simp_all add: hsm_process_def\<close>)

lemma probe_accounted:
  "accounted R B (st\<lparr>memory_state := g, channels := chans\<rparr>) \<Longrightarrow>
    accounted R B (st\<lparr>memory_state := fst (probe_nodes i snaps (g, chans)),
      channels := snd (probe_nodes i snaps (g, chans))\<rparr>)"
proof (induction i snaps "(g, chans)" arbitrary: g chans rule: probe_nodes.induct)
  case (2 i node ch snaps g chans)
  let ?probe = "\<lparr>ctx_transaction = probe_event i, ctx_responder = None\<rparr>"
  have health: "accounted R B (st\<lparr>memory_state := g\<lparr>node_health := nh\<rparr>, channels := chans\<rparr>)" for nh
    using "2.prems" by (simp add: accounted_def)
  have probed: "accounted R B (st\<lparr>memory_state := g\<lparr>node_health := nh\<rparr>, channels := chans(ch := c)\<rparr>)"
    if "try_send ?probe (chans ch) = Some c" for c nh
  proof -
    have "set (queue c) \<subseteq> insert ?probe (set (queue (chans ch)))" "outbound_ok R (probe_event i)"
      using that by (auto simp: try_send_def outbound_ok_def split: if_splits)
    then show ?thesis using accounted_send [OF health [of nh], where ch = ch and c = c and ctx = ?probe] by simp
  qed
  show ?case
  proof (cases "try_send ?probe (chans ch)")
    case None
    then show ?thesis using "2.hyps" [OF _ health] by simp
  next
    case (Some c)
    then show ?thesis using "2.hyps" [of "g\<lparr>node_health := (node_health g)(node \<mapsto> True)\<rparr>" "chans(ch := c)", OF _ probed [OF Some]]
      by (simp add: fun_upd_def)
  qed
qed simp

lemma reconfigure_accounted:
  assumes "reconfigure st st'" and "accounted R B st"
  shows "accounted R B st'"
  using assms(1)
proof cases
  case (probe i snaps g chans)
  then show ?thesis
    using probe_accounted [where st = st and g = "memory_state st" and chans = "channels st" and i = i and snaps = snaps] assms(2)
    by simp
qed (use assms(2) in \<open>simp_all add: accounted_def hot_reload_crdb_def hot_reload_stip_def hot_reload_routes_def\<close>)

section \<open>Every history is accounted for\<close>

lemma accounted_add_jobs: "accounted R B st \<Longrightarrow> \<forall>j \<in> set js. job_ok R B j \<Longrightarrow> accounted R B (add_jobs js st)"
  by (auto simp: accounted_def)

lemma own_step_accounted:
  assumes "engine_step cd h st st'" and acc: "accounted R B st" and inv: "engine_inv st"
  shows "(\<exists>ctx. st' = st\<lparr>ingress_queue := ingress_queue st @ [ctx]\<rparr>) \<or>
    (\<exists>reply. st' = st\<lparr>bank_replies := bank_replies st @ [reply]\<rparr>) \<or> accounted R B st'"
  using assms(1)
proof cases
  case (ingest ctx rest st1 j)
  have "accounted R B (st\<lparr>ingress_queue := rest\<rparr>)" "ctx \<in> R" using acc ingest(3) by (auto simp: accounted_def)
  then show ?thesis using admit_accounted [OF _ _ ingest(4)] ingest(1) by (simp add: accounted_add_jobs)
next
  case (crash ctx rest)
  then show ?thesis using acc by (simp add: accounted_def)
next
  case (work js1 j js2 st1 j')
  have "accounted R B (st\<lparr>jobs := js1 @ js2\<rparr>)" "job_ok R B j" using acc work(2) by (auto simp: accounted_def)
  moreover have "quiet_job j" using inv work(2) by (simp add: engine_inv_def)
  ultimately show ?thesis using job_step_accounted [OF _ _ _ work(3)] work(1) by (simp add: accounted_add_jobs)
next
  case (hsm_task ctx rest)
  have "accounted R B (st\<lparr>hsm_queue := rest\<rparr>)" "asked R (ctx_transaction ctx)" using acc hsm_task(2) by (auto simp: accounted_def)
  moreover have "ctx_responder ctx = None" using inv hsm_task(2) by (simp add: engine_inv_def)
  ultimately show ?thesis using hsm_process_accounted hsm_task(1) by blast
next
  case (reply_taken reply rest st1 key)
  have "accounted R B (st\<lparr>bank_replies := rest\<rparr>)" "reply \<in> B" using acc reply_taken(2) by (auto simp: accounted_def)
  moreover have "st1 = nat_remove (pb_stan reply) (st\<lparr>bank_replies := rest\<rparr>)" "reply_key R reply key"
    using reply_taken(3) acc
    by (auto simp: bank_reply_key_def reply_key_def accounted_def Let_def split: option.splits intro: ranI)
  ultimately show ?thesis using reply_taken(1) accounted_nat_remove by (simp add: accounted_add_jobs)
next
  case (egress_takes ch ctx rest)
  have "accounted R B st'" unfolding egress_takes(1) by (rule accounted_channel [OF acc]) (use egress_takes(2) in auto)
  then show ?thesis by simp
next
  case (egress_gone ch)
  have "accounted R B st'" unfolding egress_gone by (rule accounted_channel [OF acc]) simp
  then show ?thesis by simp
next
  case config
  then show ?thesis using reconfigure_accounted acc by blast
qed (use acc in \<open>auto simp: accounted_def\<close>)

lemma history_inv: "history cd h st R B \<Longrightarrow> engine_inv st"
  by (induction rule: history.induct) (auto intro: engine_start_inv engine_step_inv)

lemma history_accounted: "history cd h st R B \<Longrightarrow> accounted R B st"
proof (induction rule: history.induct)
  case (started db timeout threads)
  then show ?case by (simp add: accounted_def engine_start_def global_state_new_def)
next
  case (continued st R B st')
  let ?R = "R \<union> set (ingress_queue st')" and ?B = "B \<union> set (bank_replies st')"
  have "accounted ?R ?B st" using continued.IH accounted_mono by blast
  then show ?case
    using own_step_accounted [OF continued.hyps(2) continued.IH history_inv [OF continued.hyps(1)]] accounted_mono [of R B st' ?R ?B]
    by (auto simp: accounted_def)
qed

text \<open>Every reachable state has a history.\<close>

lemma reachable_history:
  "(engine_step cd h)\<^sup>*\<^sup>* (engine_start db timeout threads) st \<Longrightarrow> \<exists>R B. history cd h st R B"
  by (induction rule: rtranclp_induct) (blast intro: history.intros)+

text \<open>The handlers extend a history by what they were given.\<close>

lemma history_internal:
  assumes "(internal_step cd h)\<^sup>*\<^sup>* st st'" and "history cd h st R B"
  shows "history cd h st' R B"
  using assms
proof (induction rule: rtranclp_induct)
  case (step y z)
  then have y: "history cd h y R B" and "internal_step cd h y z" by simp_all
  then have "engine_step cd h y z" "set (ingress_queue z) \<subseteq> R" "set (bank_replies z) \<subseteq> B"
    using history_accounted [OF y] by (auto simp: internal_step_def accounted_def)
  then show ?case using history.continued [OF y, of z] by (simp add: Un_absorb2)
qed

lemma history_transaction:
  assumes "history cd h st R B" and "jobs st = []" and "ingress_queue st = []" and "0 < workers st"
    and "\<forall>r. ctx_responder ctx = Some r \<longrightarrow> r \<notin># held st"
  shows "history cd h (process_transaction cd ctx st) (insert ctx R) B"
proof -
  have "engine_step cd h st (st\<lparr>ingress_queue := [ctx]\<rparr>)"
    using engine_step.arrive [of ctx st cd h] assms(3,5) by (cases "ctx_responder ctx") simp_all
  from history.continued [OF assms(1) this] have "history cd h (st\<lparr>ingress_queue := [ctx]\<rparr>) (insert ctx R) B"
    using history_accounted [OF assms(1)] by (simp add: accounted_def Un_absorb2)
  then show ?thesis using history_internal [OF process_transaction_steps [OF assms(2-4)]] by blast
qed

lemma history_reply:
  assumes "history cd h st R B" and "jobs st = []" and "bank_replies st = []"
  shows "history cd h (process_bank_reply cd reply st) R (insert reply B)"
proof -
  have "engine_step cd h st (st\<lparr>bank_replies := [reply]\<rparr>)"
    using engine_step.bank_sends [of cd h st reply] assms(3) by simp
  from history.continued [OF assms(1) this] have "history cd h (st\<lparr>bank_replies := [reply]\<rparr>) R (insert reply B)"
    using history_accounted [OF assms(1)] by (simp add: accounted_def Un_absorb2)
  then show ?thesis using history_internal [OF process_bank_reply_steps [OF assms(2,3)]] by blast
qed

section \<open>Keys without dashes\<close>

text \<open>A key is the three fields with dashes between them; fields that contain none can be read off it.\<close>

definition plain :: "rstring \<Rightarrow> rstring \<Rightarrow> bool" where
  "plain r s \<longleftrightarrow> 0x2D \<notin> set r \<and> 0x2D \<notin> set s"

lemma split_at_dash:
  assumes "xs @ (0x2D :: u8) # ys = xs' @ 0x2D # ys'" and "0x2D \<notin> set xs" and "0x2D \<notin> set xs'"
  shows "xs = xs' \<and> ys = ys'"
proof -
  have "takeWhile (\<lambda>b. b \<noteq> 0x2D) (zs @ 0x2D # zs') = zs" if "0x2D \<notin> set zs" for zs zs' :: "u8 list"
    using that by (subst takeWhile_append2) auto
  then have "xs = xs'" using assms by metis
  then show ?thesis using assms(1) by simp
qed

lemma guard_key_inject:
  assumes "guard_key r s a = guard_key r' s' a'" and "plain r s" and "plain r' s'"
  shows "r = r' \<and> s = s' \<and> a = a'"
proof -
  have "r @ 0x2D # (s @ 0x2D # a) = r' @ 0x2D # (s' @ 0x2D # a')"
    using assms(1) by (simp add: guard_key_def ascii_def)
  from split_at_dash [OF this] have "r = r'" "s @ 0x2D # a = s' @ 0x2D # a'" using assms(2,3) by (simp_all add: plain_def)
  with split_at_dash [OF this(2)] show ?thesis using assms(2,3) by (simp add: plain_def)
qed

text \<open>
  With dashes in them, two requests that differ in every field have one key, and the second is
  declined as a duplicate of the first.
\<close>

lemma guard_keys_collide:
  "guard_key (ascii ''-123456-ABCD'') [] (ascii ''X'') = guard_key [] (ascii ''123456'') (ascii ''ABCD--X'')"
  by (simp add: guard_key_def ascii_def)

section \<open>Properties of the engine\<close>

text \<open>
  C1. Approvals come from the bank. In every state of every run, whatever card profiles \<open>stip.db\<close>
  held at the start, an answer 0110 with response code 00 given to a responder is, but for its MTI,
  a message that a bank client handed to the switch, with that response code and with the RRN and
  the acquirer of the request that came with the responder: the switch gives out no approval of its
  own, not even where stand-in processing approves, and gives no terminal the approval of another
  request. Requests and replies are taken to have no dash in RRN and STAN; with dashes two requests
  can share a guard key (\<open>guard_keys_collide\<close>).
\<close>

theorem approvals_from_the_bank:
  assumes "history cd h st R B" and "(r, e) \<in> set (answers st)"
    and "mti e = ascii ''0110''" and "response_code e = ascii ''00''"
    and "\<forall>c \<in> R. plain (rrn (ctx_transaction c)) (stan (ctx_transaction c))"
    and "\<forall>reply \<in> B. plain (pb_rrn reply) (pb_stan reply)"
  shows "\<exists>c \<in> R. \<exists>reply \<in> B. ctx_responder c = Some r \<and> e = from_pb (reply\<lparr>pb_mti := ascii ''0110''\<rparr>) \<and>
    pb_response_code reply = ascii ''00'' \<and> pb_rrn reply = rrn (ctx_transaction c) \<and>
    pb_acquirer_id reply = from_utf8_lossy (acquirer_id (ctx_transaction c))"
proof -
  have "answer_ok R B r e" using history_accounted [OF assms(1)] assms(2) by (auto simp: accounted_def)
  then obtain c where c: "c \<in> R" "ctx_responder c = Some r" "decided c e \<or> replied R B c e"
    by (auto simp: answer_ok_def)
  have "\<not> decided c e" using assms(3,4) by (simp add: decided_def switch_decisions_def ascii_def)
  then obtain reply s where reply: "reply \<in> B" "e = approval_of reply" "s \<in> insert (pb_stan reply) (request_stans R)"
    "context_key c = guard_key (pb_rrn reply) s (pb_acquirer_id reply)"
    using c(3) by (auto simp: replied_def reply_key_def)
  have "0x2D \<notin> set s" using reply(1,3) assms(5,6) by (auto simp: request_stans_def plain_def)
  then have "rrn (ctx_transaction c) = pb_rrn reply \<and> from_utf8_lossy (acquirer_id (ctx_transaction c)) = pb_acquirer_id reply"
    using guard_key_inject [of "rrn (ctx_transaction c)" "stan (ctx_transaction c)" _ "pb_rrn reply" s] reply(1,4)
      assms(5,6) c(1) by (auto simp: context_key_def plain_def Let_def)
  moreover have "pb_response_code reply = ascii ''00''" using assms(4) reply(2) by (simp add: approval_of_def from_pb_def)
  ultimately show ?thesis
    using c(1,2) reply(1,2) unfolding approval_of_def by (intro bexI [of _ c] bexI [of _ reply]) simp_all
qed

text \<open>
  A bank is asked for what a terminal asked for. In every state of every run, a message in the
  channel of a bank is a probe of the network manager, or there is a request with its RRN, its
  amount and its acquirer, whose card, or the card its device token stands for, it names; this
  includes the reversals that the reaper makes up.
\<close>

theorem banks_asked_as_requested:
  assumes "history cd h st R B" and "ctx \<in> set (queue (channels st ch))"
    and "\<forall>i. ctx_transaction ctx \<noteq> probe_event i"
  shows "\<exists>c \<in> R. rrn (ctx_transaction ctx) = rrn (ctx_transaction c) \<and>
    amount (ctx_transaction ctx) = amount (ctx_transaction c) \<and>
    from_utf8_lossy (acquirer_id (ctx_transaction ctx)) = from_utf8_lossy (acquirer_id (ctx_transaction c)) \<and>
    from_utf8_lossy (fpan (ctx_transaction ctx)) = from_utf8_lossy (charged_card (ctx_transaction c))"
proof -
  have "outbound_ok R (ctx_transaction ctx)" using history_accounted [OF assms(1)] assms(2) by (simp add: accounted_def)
  then show ?thesis using assms(3) by (auto simp: outbound_ok_def asked_def asked_by_def Let_def)
qed

text \<open>The sample transaction, forwarded and approved by its bank.\<close>

lemma sample_history: "history cd h sample_engine {} {}"
proof -
  let ?rows = "[\<lparr>bin_prefix = ascii ''4'', destination_type = ascii ''ExternalNode'',
    target_node = Some (ascii ''MockVisaNode''), row_failover_node = None\<rparr>]"
  have "engine_step cd h (engine_start Map.empty 1500 4) sample_engine"
    using engine_step.config [OF reconfigure.reload_routes [of "engine_start Map.empty 1500 4" ?rows]]
    by (simp add: sample_engine_def Let_def)
  from history.continued [OF history.started this] show ?thesis by (simp add: sample_defs)
qed

lemma sample_forwarded:
  "process_transaction cd sample_context sample_engine = forwarded sample_context sample_event 0
    ((channels sample_engine 0)\<lparr>queue := [outbound sample_engine sample_event]\<rparr>) sample_engine"
  using sample_clears sample_forwardable(1-4) sample_route sample_room by (rule process_forwarded)

lemma sample_idle:
  "jobs sample_engine = []" "ingress_queue sample_engine = []" "bank_replies sample_engine = []" "0 < workers sample_engine"
  "\<forall>r. ctx_responder sample_context = Some r \<longrightarrow> r \<notin># held sample_engine"
  by (simp_all add: sample_defs held_def)

lemma sample_forwarded_history:
  "history cd h (process_transaction cd sample_context sample_engine) {sample_context} {}"
  using history_transaction [OF sample_history sample_idle(1,2,4,5)] by simp

lemma sample_approved_history:
  "history cd h (process_bank_reply cd sample_reply (process_transaction cd sample_context sample_engine))
    {sample_context} {sample_reply}"
  by (rule history_reply [OF sample_forwarded_history]) (simp_all add: sample_forwarded forwarded_def translated_def sample_idle Let_def)

lemma sample_approved:
  "answers (process_bank_reply cd sample_reply (process_transaction cd sample_context sample_engine)) = [(7, approval_of sample_reply)]"
proof -
  have "pb_stan sample_reply = next_egress_stan (memory_state sample_engine)" "pb_rrn sample_reply = rrn sample_event"
    "pb_acquirer_id sample_reply = from_utf8_lossy (acquirer_id sample_event)"
    by (simp_all only: sample_stan) (simp_all add: sample_reply_def to_pb_def)
  from forward_then_reply [OF sample_clears sample_forwardable(1-4) sample_route sample_room sample_forwardable(9) this]
  show ?thesis by (simp add: sample_forwardable(5) Let_def)
qed

theorem approvals_from_the_bank_witness:
  "\<exists>reply \<in> {sample_reply}. approval_of sample_reply = from_pb (reply\<lparr>pb_mti := ascii ''0110''\<rparr>) \<and>
    pb_rrn reply = rrn sample_event \<and> pb_acquirer_id reply = from_utf8_lossy (acquirer_id sample_event)"
proof -
  have "plain (rrn sample_event) (stan sample_event)" "plain (pb_rrn sample_reply) (pb_stan sample_reply)"
    by (simp_all add: plain_def sample_reply_def to_pb_def sample_event_def blank_event_def ascii_def)
  moreover have "mti (approval_of sample_reply) = ascii ''0110''" "response_code (approval_of sample_reply) = ascii ''00''"
    by (simp_all add: approval_of_def from_pb_def sample_reply_def)
  ultimately show ?thesis
    using approvals_from_the_bank [OF sample_approved_history [of sample_codec silent_hsm], of 7 "approval_of sample_reply"]
    by (simp add: sample_approved sample_forwardable(10))
qed

theorem banks_asked_as_requested_witness:
  "amount (ctx_transaction (outbound sample_engine sample_event)) = amount sample_event \<and>
    from_utf8_lossy (fpan (ctx_transaction (outbound sample_engine sample_event))) = from_utf8_lossy (fpan sample_event)"
proof -
  let ?ctx = "outbound sample_engine sample_event"
  have "?ctx \<in> set (queue (channels (process_transaction sample_codec sample_context sample_engine) 0))"
    by (simp add: sample_forwarded forwarded_def)
  moreover have "\<forall>i. ctx_transaction ?ctx \<noteq> probe_event i"
  proof
    fix i
    have "mti (ctx_transaction ?ctx) \<noteq> mti (probe_event i)"
      by (simp add: outbound_def sample_event_def blank_event_def probe_event_def ascii_def)
    then show "ctx_transaction ?ctx \<noteq> probe_event i" by metis
  qed
  ultimately show ?thesis
    using banks_asked_as_requested [OF sample_forwarded_history [of sample_codec silent_hsm], of ?ctx 0]
    by (simp add: sample_forwardable(10) charged_card_def) (simp add: sample_event_def blank_event_def)
qed

end
