(* ===== verification/Daemon_History.thy ===== *)
theory Daemon_History
  imports Provenance
begin

text \<open>
  The account of \<open>Provenance\<close> at the sockets of the daemon. A history of the daemon, started over a
  given store, records for every message task the connection, the responder issued for the message
  and the event parsed from it.
  What a terminal reads is traced back to a message it sent on the same connection.
\<close>

section \<open>Histories of the daemon\<close>

text \<open>The messages whose tasks are running, with their connections and responders.\<close>

definition tasks :: "connection_state \<Rightarrow> (nat \<times> event) set" where
  "tasks s = set (spawned s) \<union> set (conn_waiting s)"

definition taken :: "daemon \<Rightarrow> (nat \<times> nat \<times> event) set" where
  "taken d = {(k, r, tx). k < length (sockets d) \<and> (r, tx) \<in> tasks (sockets d ! k)}"

inductive daemon_history ::
  "codec \<Rightarrow> hsm \<Rightarrow> (transaction \<Rightarrow> bytes) \<Rightarrow> (bytes \<Rightarrow> transaction option) \<Rightarrow> (bytes, bytes) dashmap \<Rightarrow>
    daemon \<Rightarrow> (nat \<times> nat \<times> event) set \<Rightarrow> transaction set \<Rightarrow> bool" for cd h enc dec saf where
  opened: "daemon_history cd h enc dec saf (daemon_start db saf threads) {} {}"
| went_on: "daemon_history cd h enc dec saf d Q B \<Longrightarrow> daemon_step cd h enc dec d d' \<Longrightarrow>
    daemon_history cd h enc dec saf d' (Q \<union> taken d') (B \<union> set (bank_replies (core d')))"

text \<open>
  The connections' side of the account: numbers are issued once, in order, to messages that the
  connection's dialect parsed, and whatever a connection holds was issued to it.
\<close>

definition issued :: "daemon \<Rightarrow> (nat \<times> nat \<times> event) set \<Rightarrow> bool" where
  "issued d Q \<longleftrightarrow>
     (\<forall>k r tx. (k, r, tx) \<in> Q \<longrightarrow> r < next_responder d \<and> k < length (sockets d) \<and>
        (\<exists>msg. dialect_parse (conn_dialect (sockets d ! k)) msg = Ok tx)) \<and>
     (\<forall>k r tx k' tx'. (k, r, tx) \<in> Q \<longrightarrow> (k', r, tx') \<in> Q \<longrightarrow> k' = k \<and> tx' = tx) \<and>
     (\<forall>k < length (sockets d). \<forall>r \<in># tickets (sockets d ! k). \<exists>tx. (k, r, tx) \<in> Q)"

definition submitted :: "(nat \<times> nat \<times> event) set \<Rightarrow> transaction_context set \<Rightarrow> bool" where
  "submitted Q R \<longleftrightarrow> (\<forall>c \<in> R. \<exists>k r tx. (k, r, tx) \<in> Q \<and>
     (c = \<lparr>ctx_transaction = tx, ctx_responder = Some r\<rparr> \<or> c = server_disconnect tx))"

definition decoded :: "transaction set \<Rightarrow> bool" where
  "decoded B \<longleftrightarrow> (\<forall>reply \<in> B. \<exists>msg. egress_read msg = Ok (Some reply))"

lemma issued_ticket: "issued d Q \<Longrightarrow> k < length (sockets d) \<Longrightarrow> r \<in># tickets (sockets d ! k) \<Longrightarrow> \<exists>tx. (k, r, tx) \<in> Q"
  unfolding issued_def by blast

lemma submitted_mono: "submitted Q R \<Longrightarrow> Q \<subseteq> Q' \<Longrightarrow> submitted Q' R"
  unfolding submitted_def by blast

lemma submitted_responder: "submitted Q R \<Longrightarrow> c \<in> R \<Longrightarrow> ctx_responder c = Some r \<Longrightarrow> \<exists>k. (k, r, ctx_transaction c) \<in> Q"
  unfolding submitted_def by (fastforce simp: server_disconnect_def)

section \<open>What a step does to the connections\<close>

text \<open>A step that issues no number: connections may be added, and lose tickets.\<close>

definition keeps_sockets :: "daemon \<Rightarrow> daemon \<Rightarrow> bool" where
  "keeps_sockets d d' \<longleftrightarrow> next_responder d' = next_responder d \<and> length (sockets d) \<le> length (sockets d') \<and>
     (\<forall>k < length (sockets d'). if k < length (sockets d)
        then conn_dialect (sockets d' ! k) = conn_dialect (sockets d ! k) \<and>
          tickets (sockets d' ! k) \<subseteq># tickets (sockets d ! k) \<and> tasks (sockets d' ! k) \<subseteq> tasks (sockets d ! k)
        else tickets (sockets d' ! k) = {#} \<and> tasks (sockets d' ! k) = {})"

definition issues :: "nat \<Rightarrow> event \<Rightarrow> daemon \<Rightarrow> daemon \<Rightarrow> bool" where
  "issues k tx d d' \<longleftrightarrow> k < length (sockets d) \<and> (\<exists>msg. dialect_parse (conn_dialect (sockets d ! k)) msg = Ok tx) \<and>
     core d' = core d \<and> next_responder d' = next_responder d + 1 \<and>
     (\<exists>rest. sockets d' = (sockets d)[k := (sockets d ! k)\<lparr>recv_buffer := rest,
        spawned := spawned (sockets d ! k) @ [(next_responder d, tx)]\<rparr>])"

lemma keeps_put:
  assumes "conn_dialect s = conn_dialect (sockets d ! k)" and "tickets s \<subseteq># tickets (sockets d ! k)"
    and "tasks s \<subseteq> tasks (sockets d ! k)"
    and "sockets d' = (sockets d)[k := s]" and "next_responder d' = next_responder d"
  shows "keeps_sockets d d'"
  using assms by (cases "k < length (sockets d)") (auto simp: keeps_sockets_def nth_list_update)

lemma keeps_same: "sockets d' = sockets d \<Longrightarrow> next_responder d' = next_responder d \<Longrightarrow> keeps_sockets d d'"
  by (simp add: keeps_sockets_def)

lemma task_step_sockets:
  assumes "task_step k (sockets d ! k) d d'"
  shows "keeps_sockets d d'"
  using assms
proof cases
  case (handed before r tx after)
  then show ?thesis by (intro keeps_put [of _ d k]) (auto simp: tickets_def tasks_def put_socket_def submit_def)
next
  case (answered before r tx after e)
  then show ?thesis by (intro keeps_put [of _ d k]) (auto simp: tickets_def tasks_def put_socket_def)
next
  case (forgotten before r tx after)
  then show ?thesis by (intro keeps_put [of _ d k]) (auto simp: tickets_def tasks_def put_socket_def)
next
  case (dropped before r tx after)
  then show ?thesis by (intro keeps_put [of _ d k]) (auto simp: tickets_def tasks_def put_socket_def submit_def)
next
  case (written r m ms frm)
  then show ?thesis by (intro keeps_put [of _ d k]) (auto simp: tickets_def tasks_def put_socket_def)
next
  case (unwritten r m ms)
  then show ?thesis by (intro keeps_put [of _ d k]) (auto simp: tickets_def tasks_def put_socket_def)
qed

lemma read_frame_sockets:
  assumes "k < length (sockets d)"
  shows "keeps_sockets d (read_frame k (sockets d ! k) d) \<or> (\<exists>tx. issues k tx d (read_frame k (sockets d ! k) d))"
proof -
  let ?s = "sockets d ! k"
  have hung: "keeps_sockets d (hang_up k (?s\<lparr>recv_buffer := b\<rparr>) d)" for b
    by (rule keeps_put [of "?s\<lparr>recv_buffer := b, reading := False\<rparr>" d k]) (simp_all add: hang_up_def put_socket_def tickets_def tasks_def)
  have read: "keeps_sockets d (put_socket k (?s\<lparr>recv_buffer := b\<rparr>) d)" for b
    by (rule keeps_put [of "?s\<lparr>recv_buffer := b\<rparr>" d k]) (simp_all add: put_socket_def tickets_def tasks_def)
  have "?s\<lparr>recv_buffer := recv_buffer ?s\<rparr> = ?s" by simp
  with hung [of "recv_buffer ?s"] have "keeps_sockets d (hang_up k ?s d)" by simp
  with hung read keeps_same show ?thesis
    using assms
    by (auto simp: read_frame_def server_receive_def issues_def put_socket_def Let_def
        split: outcome.splits option.splits)
qed

lemma daemon_step_sockets:
  assumes "daemon_step cd h enc dec d d'"
  shows "keeps_sockets d d' \<or> (\<exists>k tx. issues k tx d d')"
  using assms
proof cases
  case (accept dl)
  then show ?thesis
    by (auto simp: keeps_sockets_def nth_append connection_new_def tickets_def tasks_def)
next
  case (chunk k bytes)
  then have "keeps_sockets d d'"
    by (intro keeps_put [of "(sockets d ! k)\<lparr>recv_buffer := recv_buffer (sockets d ! k) @ bytes\<rparr>" d k])
      (simp_all add: put_socket_def tickets_def tasks_def)
  then show ?thesis by simp
next
  case (frame k)
  then show ?thesis using read_frame_sockets [of k d] by blast
next
  case (eof k)
  then have "keeps_sockets d d'"
    by (intro keeps_put [of "(sockets d ! k)\<lparr>reading := False\<rparr>" d k]) (simp_all add: hang_up_def put_socket_def tickets_def tasks_def)
  then show ?thesis by simp
next
  case (task k)
  then show ?thesis using task_step_sockets by blast
qed (simp_all add: keeps_same)

lemma keeps_cases:
  assumes "keeps_sockets d d'" and "k < length (sockets d')"
  obtains "k < length (sockets d)" "conn_dialect (sockets d' ! k) = conn_dialect (sockets d ! k)"
      "tickets (sockets d' ! k) \<subseteq># tickets (sockets d ! k)" "tasks (sockets d' ! k) \<subseteq> tasks (sockets d ! k)"
    | "tickets (sockets d' ! k) = {#}" "tasks (sockets d' ! k) = {}"
  using assms unfolding keeps_sockets_def by meson

lemma taken_keeps:
  assumes "keeps_sockets d d'"
  shows "taken d' \<subseteq> taken d"
proof
  fix x assume "x \<in> taken d'"
  then obtain k r tx where x: "x = (k, r, tx)" "k < length (sockets d')" "(r, tx) \<in> tasks (sockets d' ! k)"
    by (auto simp: taken_def)
  from keeps_cases [OF assms x(2)] show "x \<in> taken d" using x by cases (auto simp: taken_def)
qed

lemma issued_keeps:
  assumes "issued d Q" and keeps: "keeps_sockets d d'" and "taken d \<subseteq> Q"
  shows "issued d' (Q \<union> taken d')"
proof -
  have Q: "Q \<union> taken d' = Q" using taken_keeps [OF keeps] assms(3) by blast
  have "k < length (sockets d') \<and> conn_dialect (sockets d' ! k) = conn_dialect (sockets d ! k)" if "k < length (sockets d)" for k
    using keeps that by (auto simp: keeps_sockets_def)
  moreover have "\<exists>tx. (k, r, tx) \<in> Q" if "k < length (sockets d')" "r \<in># tickets (sockets d' ! k)" for k r
    using keeps_cases [OF keeps that(1)]
  proof cases
    case 1
    then have "r \<in># tickets (sockets d ! k)" using that(2) by (meson mset_subset_eqD)
    then show ?thesis using issued_ticket [OF assms(1) 1(1)] by simp
  qed (use that(2) in simp)
  moreover have "next_responder d' = next_responder d" using keeps by (simp add: keeps_sockets_def)
  ultimately show ?thesis unfolding Q using assms(1) unfolding issued_def by metis
qed

lemma issued_issues:
  assumes "issued d Q" and issue: "issues k tx d d'" and "taken d \<subseteq> Q"
  shows "issued d' (Q \<union> taken d')"
proof -
  let ?n = "next_responder d"
  obtain rest where s: "sockets d' = (sockets d)[k := (sockets d ! k)\<lparr>recv_buffer := rest,
      spawned := spawned (sockets d ! k) @ [(?n, tx)]\<rparr>]" and k: "k < length (sockets d)" and n: "next_responder d' = ?n + 1"
    using issue by (auto simp: issues_def)
  obtain msg where msg: "dialect_parse (conn_dialect (sockets d ! k)) msg = Ok tx" using issue by (auto simp: issues_def)
  have same: "length (sockets d') = length (sockets d)" "conn_dialect (sockets d' ! l) = conn_dialect (sockets d ! l)" for l
    using k by (cases "l = k"; simp add: s)+
  have "taken d' = insert (k, ?n, tx) (taken d)"
    using k by (auto simp: taken_def tasks_def s nth_list_update split: if_splits)
  then have Q: "Q \<union> taken d' = insert (k, ?n, tx) Q" using assms(3) by blast
  have fresh: "r < ?n" if "(l, r, t) \<in> Q" for l r t using that assms(1) by (auto simp: issued_def)
  have "\<exists>t. (l, r, t) \<in> insert (k, ?n, tx) Q" if "l < length (sockets d')" "r \<in># tickets (sockets d' ! l)" for l r
  proof -
    have "tickets (sockets d' ! k) = add_mset ?n (tickets (sockets d ! k))" using k by (simp add: s tickets_def)
    then have "r \<in># tickets (sockets d ! l) \<or> l = k \<and> r = ?n" using that(2) k by (cases "l = k") (auto simp: s)
    then show ?thesis using issued_ticket [OF assms(1), of l r] that(1) same(1) by auto
  qed
  moreover have "r < ?n + 1 \<and> l < length (sockets d') \<and> (\<exists>m. dialect_parse (conn_dialect (sockets d' ! l)) m = Ok t)"
    if "(l, r, t) \<in> insert (k, ?n, tx) Q" for l r t
    using that k msg assms(1) same by (auto simp: issued_def intro: less_SucI)
  moreover have "l' = l \<and> t' = t" if "(l, r, t) \<in> insert (k, ?n, tx) Q" "(l', r, t') \<in> insert (k, ?n, tx) Q" for l r t l' t'
  proof (cases "r = ?n")
    case True
    then show ?thesis using that fresh by blast
  next
    case False
    then show ?thesis using that assms(1) unfolding issued_def by blast
  qed
  ultimately show ?thesis unfolding issued_def Q n by blast
qed

section \<open>What a step does to the queue of the engine\<close>

lemma hsm_process_queues:
  "ingress_queue (hsm_process h ctx st) = ingress_queue st" "bank_replies (hsm_process h ctx st) = bank_replies st"
  by (simp_all add: hsm_process_def journal_append_def split: outcome.splits option.splits prod.splits)

lemma reconfigure_queues:
  "reconfigure st st' \<Longrightarrow> ingress_queue st' = ingress_queue st \<and> bank_replies st' = bank_replies st"
  by (erule reconfigure.cases) simp_all

lemma engine_step_ingress:
  assumes "engine_step cd h st st'"
  shows "(\<exists>ctx. st' = st\<lparr>ingress_queue := ingress_queue st @ [ctx]\<rparr>) \<or> set (ingress_queue st') \<subseteq> set (ingress_queue st)"
  using assms
proof cases
  case (ingest ctx rest st1 j)
  then show ?thesis using admit_queues [OF ingest(4)] by auto
next
  case (work js1 j js2 st1 j')
  then show ?thesis using job_step_queues [OF work(3)] by simp
next
  case (hsm_task ctx rest)
  then show ?thesis by (simp add: hsm_process_queues)
next
  case (reply_taken reply rest st1 key)
  then show ?thesis by (auto simp: bank_reply_key_def nat_remove_def Let_def)
next
  case config
  then show ?thesis using reconfigure_queues by auto
qed auto

text \<open>What the daemon queues for the engine is a task's own event, or the reversal of it.\<close>

lemma daemon_step_ingress:
  assumes "daemon_step cd h enc dec d d'" and "c \<in> set (ingress_queue (core d'))"
  shows "c \<in> set (ingress_queue (core d)) \<or> (\<exists>k r tx. (k, r, tx) \<in> taken d \<and>
    (c = \<lparr>ctx_transaction = tx, ctx_responder = Some r\<rparr> \<or> c = server_disconnect tx))"
  using assms(1)
proof cases
  case (frame k)
  then show ?thesis
    using assms(2) by (auto simp: read_frame_def hang_up_def put_socket_def Let_def split: outcome.splits option.splits)
next
  case (task k)
  from task(2) show ?thesis
  proof cases
    case (handed before r' tx after)
    then have "(k, r', tx) \<in> taken d" using task(1) by (simp add: taken_def tasks_def)
    then show ?thesis using handed(1) assms(2) by (auto simp: put_socket_def submit_def)
  next
    case (dropped before r' tx after)
    then have "(k, r', tx) \<in> taken d" using task(1) by (simp add: taken_def tasks_def)
    then show ?thesis using dropped(1) assms(2) by (auto simp: put_socket_def submit_def)
  qed (use assms(2) in \<open>simp_all add: put_socket_def\<close>)
next
  case (engine st)
  then show ?thesis using engine_step_ingress [of cd h "core d" st] assms(2) by (auto simp: own_step_def)
next
  case (client i c' db rs)
  then show ?thesis using assms(2) by (simp add: put_channel_def)
qed (use assms(2) in \<open>simp_all add: hang_up_def put_socket_def\<close>)

text \<open>A bank reply enters the engine from the bytes a client has read.\<close>

lemma engine_step_replies:
  assumes "engine_step cd h st st'"
  shows "(\<exists>reply. bank_replies st' = bank_replies st @ [reply]) \<or> set (bank_replies st') \<subseteq> set (bank_replies st)"
  using assms
proof cases
  case (ingest ctx rest st1 j)
  then show ?thesis using admit_queues [OF ingest(4)] by auto
next
  case (work js1 j js2 st1 j')
  then show ?thesis using job_step_queues [OF work(3)] by simp
next
  case (hsm_task ctx rest)
  then show ?thesis by (simp add: hsm_process_queues)
next
  case (reply_taken reply rest st1 key)
  then show ?thesis by (auto simp: bank_reply_key_def nat_remove_def Let_def)
next
  case config
  then show ?thesis using reconfigure_queues by auto
qed auto

lemma daemon_step_replies:
  assumes "daemon_step cd h enc dec d d'" and "reply \<in> set (bank_replies (core d'))"
  shows "reply \<in> set (bank_replies (core d)) \<or> (\<exists>msg. egress_read msg = Ok (Some reply))"
  using assms(1)
proof cases
  case (frame k)
  then show ?thesis
    using assms(2) by (auto simp: read_frame_def hang_up_def put_socket_def Let_def split: outcome.splits option.splits)
next
  case (task k)
  from task(2) show ?thesis by cases (use assms(2) in \<open>simp_all add: put_socket_def submit_def\<close>)
next
  case (engine st)
  then show ?thesis using engine_step_replies [of cd h "core d" st] assms(2) by (auto simp: own_step_def)
next
  case (client i c db rs)
  from client(3) show ?thesis by cases (use client(1) assms(2) in \<open>auto simp: put_channel_def\<close>)
qed (use assms(2) in \<open>simp_all add: hang_up_def put_socket_def\<close>)

section \<open>Every history of the daemon is accounted for\<close>

lemma history_daemon:
  assumes "daemon_history cd h enc dec saf d Q B"
  shows "daemon_inv d \<and> taken d \<subseteq> Q \<and> issued d Q \<and> decoded B \<and> (\<exists>R. history cd h (core d) R B \<and> submitted Q R)"
  using assms
proof (induction rule: daemon_history.induct)
  case (opened db threads)
  have "history cd h (core (daemon_start db saf threads)) {} {}"
    using history.started [of cd h db 1500 threads] by (simp add: daemon_start_def)
  then show ?case
    using daemon_start_inv [of db saf threads] by (auto simp: taken_def issued_def submitted_def decoded_def daemon_start_def)
next
  case (went_on d Q B d')
  let ?Q = "Q \<union> taken d'" and ?B = "B \<union> set (bank_replies (core d'))"
  obtain R where R: "history cd h (core d) R B" "submitted Q R" using went_on.IH by blast
  have "issued d' ?Q"
    using daemon_step_sockets [OF went_on.hyps(2)] issued_keeps issued_issues went_on.IH by metis
  moreover have "decoded ?B"
  proof -
    have "set (bank_replies (core d)) \<subseteq> B" using history_accounted [OF R(1)] by (simp add: accounted_def)
    then show ?thesis using went_on.IH daemon_step_replies [OF went_on.hyps(2)] unfolding decoded_def by blast
  qed
  moreover have "daemon_inv d'" using daemon_step_inv [OF _ went_on.hyps(2)] went_on.IH by blast
  moreover have "\<exists>R'. history cd h (core d') R' ?B \<and> submitted ?Q R'"
  proof (cases "core d' = core d")
    case True
    then have "?B = B" using history_accounted [OF R(1)] by (auto simp: accounted_def)
    then show ?thesis using R True submitted_mono by (intro exI [of _ R]) auto
  next
    case False
    then have "engine_step cd h (core d) (core d')" using daemon_step_core [OF _ went_on.hyps(2)] went_on.IH by blast
    from history.continued [OF R(1) this]
    have "history cd h (core d') (R \<union> set (ingress_queue (core d'))) ?B" .
    moreover have "submitted ?Q (R \<union> set (ingress_queue (core d')))"
    proof -
      have "set (ingress_queue (core d)) \<subseteq> R" using history_accounted [OF R(1)] by (simp add: accounted_def)
      then show ?thesis
        using R(2) daemon_step_ingress [OF went_on.hyps(2)] went_on.IH unfolding submitted_def by blast
    qed
    ultimately show ?thesis by blast
  qed
  ultimately show ?case by blast
qed

text \<open>Every reachable daemon has a history.\<close>

lemma reachable_daemon_history:
  "(daemon_step cd h enc dec)\<^sup>*\<^sup>* (daemon_start db saf threads) d \<Longrightarrow> \<exists>Q B. daemon_history cd h enc dec saf d Q B"
  by (induction rule: rtranclp_induct) (blast intro: daemon_history.intros)+

section \<open>Properties\<close>

text \<open>
  C2. What a terminal reads answers a message it sent. Every frame on a connection goes back to one
  message of that connection, parsed by its dialect, to which alone the responder was issued. The
  frame is the dialect's form either of a decision of the switch, with one of its eight pairs of MTI
  and response code, that carries the RRN, STAN and acquirer of the message as its key, or of a
  message whose RRN and acquirer make up that key and that a client read from its bank.
\<close>

theorem frames_answer_own_messages:
  assumes "daemon_history cd h enc dec saf d Q B" and "k < length (sockets d)"
    and "(r, frm) \<in> set (sent_frames (sockets d ! k))"
  shows "\<exists>msg tx e. (k, r, tx) \<in> Q \<and> (\<forall>k' tx'. (k', r, tx') \<in> Q \<longrightarrow> k' = k \<and> tx' = tx) \<and>
    dialect_parse (conn_dialect (sockets d ! k)) msg = Ok tx \<and>
    server_reply (dialect_build_response (conn_dialect (sockets d ! k))) e = Ok frm \<and>
    ((mti e, response_code e) \<in> switch_decisions \<and> event_key e = event_key tx \<or>
     (\<exists>reply \<in> B. e = from_pb (reply\<lparr>pb_mti := ascii ''0110''\<rparr>) \<and> (\<exists>wire. egress_read wire = Ok (Some reply)) \<and>
        (\<exists>s. event_key tx = guard_key (pb_rrn reply) s (pb_acquirer_id reply))))"
proof -
  let ?s = "sockets d ! k"
  have inv: "daemon_inv d" and issued: "issued d Q" and wires: "decoded B" using history_daemon [OF assms(1)] by simp_all
  obtain R where R: "history cd h (core d) R B" "submitted Q R" using history_daemon [OF assms(1)] by blast
  have "connection_ok (core d) (next_responder d) ?s" using inv assms(2) by (simp add: daemon_inv_def)
  then obtain e where e: "(r, e) \<in> set (answers (core d))" "server_reply (dialect_build_response (conn_dialect ?s)) e = Ok frm"
    using assms(3) by (fastforce simp: connection_ok_def)
  have "r \<in># tickets ?s" using assms(3) by (force simp: tickets_def)
  then obtain tx where tx: "(k, r, tx) \<in> Q" using issued_ticket [OF issued assms(2)] by blast
  then obtain msg where msg: "dialect_parse (conn_dialect ?s) msg = Ok tx" using issued unfolding issued_def by blast
  have own: "\<forall>k' tx'. (k', r, tx') \<in> Q \<longrightarrow> k' = k \<and> tx' = tx" using tx issued unfolding issued_def by blast
  have "answer_ok R B r e" using history_accounted [OF R(1)] e(1) by (auto simp: accounted_def)
  then obtain c where c: "c \<in> R" "ctx_responder c = Some r" "decided c e \<or> replied R B c e" by (auto simp: answer_ok_def)
  then have "ctx_transaction c = tx" using submitted_responder [OF R(2)] own by blast
  then have "(mti e, response_code e) \<in> switch_decisions \<and> event_key e = event_key tx \<or>
      (\<exists>reply \<in> B. e = from_pb (reply\<lparr>pb_mti := ascii ''0110''\<rparr>) \<and> (\<exists>wire. egress_read wire = Ok (Some reply)) \<and>
        (\<exists>s. event_key tx = guard_key (pb_rrn reply) s (pb_acquirer_id reply)))"
    using c(3) wires by (auto simp: decoded_def decided_def replied_def reply_key_def approval_of_def context_key_event)
  then show ?thesis using tx own msg e(2) by blast
qed

text \<open>The daemon that has served an echo test: the frame on its only connection answers its one message.\<close>

theorem frames_answer_own_messages_witness:
  "\<exists>Q B. daemon_history sample_codec silent_hsm (\<lambda>_. []) (\<lambda>_. None) [] echo_served Q B \<and>
    0 < length (sockets echo_served) \<and>
    (0, length_prefixed (standard_build_response sample_echo_reply)) \<in> set (sent_frames (sockets echo_served ! 0)) \<and>
    (\<exists>msg tx. (0, 0, tx) \<in> Q \<and> standard_parse msg = Ok tx)"
proof -
  obtain Q B where hist: "daemon_history sample_codec silent_hsm (\<lambda>_. []) (\<lambda>_. None) [] echo_served Q B"
    using reachable_daemon_history [OF echo_run] by blast
  have k: "0 < length (sockets echo_served)" by (simp add: echo_served_def)
  have frm: "(0, length_prefixed (standard_build_response sample_echo_reply)) \<in> set (sent_frames (sockets echo_served ! 0))"
    by (simp add: echo_served_def)
  have "dialect_parse (conn_dialect (sockets echo_served ! 0)) = standard_parse" by (simp add: echo_served_def)
  then show ?thesis using frames_answer_own_messages [OF hist k frm] hist k frm by metis
qed

end
