(* ===== verification/Bank_Traffic.thy ===== *)
theory Bank_Traffic
  imports Daemon_History
begin

text \<open>
  What the daemon's clients write to the banks, traced back to the messages terminals sent: through
  the channel of a bank, the send tasks and the sink of a connection, and through the
  store-and-forward queue that the clients share.
\<close>

section \<open>Requests on the wire\<close>

text \<open>
  An event for a bank that a message of a connection asked for: the message was parsed by the dialect
  of its connection, and the event has its amount, RRN and acquirer and the card it is charged to.
  Or it is a probe of the network manager.
\<close>

definition requested :: "daemon \<Rightarrow> (nat \<times> nat \<times> event) set \<Rightarrow> event \<Rightarrow> bool" where
  "requested d Q tx \<longleftrightarrow> (\<exists>i. tx = probe_event i) \<or>
     (\<exists>k r q. (k, r, q) \<in> Q \<and> k < length (sockets d) \<and>
        (\<exists>msg. dialect_parse (conn_dialect (sockets d ! k)) msg = Ok q) \<and>
        amount tx = amount q \<and> rrn tx = rrn q \<and>
        from_utf8_lossy (acquirer_id tx) = from_utf8_lossy (acquirer_id q) \<and>
        from_utf8_lossy (fpan tx) = from_utf8_lossy (charged_card q))"

text \<open>A row of the store: there from the start, or stored for such an event.\<close>

definition row_ok :: "(transaction \<Rightarrow> bytes) \<Rightarrow> (bytes, bytes) dashmap \<Rightarrow> (event \<Rightarrow> bool) \<Rightarrow> bytes \<Rightarrow> bool" where
  "row_ok enc saf P v \<longleftrightarrow> v \<in> snd ` set saf \<or> (\<exists>tx. P tx \<and> v = enc (to_pb tx))"

definition store_ok :: "(transaction \<Rightarrow> bytes) \<Rightarrow> (bytes, bytes) dashmap \<Rightarrow> (event \<Rightarrow> bool) \<Rightarrow> (bytes, bytes) dashmap \<Rightarrow> bool" where
  "store_ok enc saf P db \<longleftrightarrow> (\<forall>v \<in> snd ` set db. row_ok enc saf P v)"

definition payload_ok :: "(event \<Rightarrow> bool) \<Rightarrow> bytes \<Rightarrow> bool" where
  "payload_ok P p \<longleftrightarrow> (\<exists>tx. P tx \<and> p = egress_encode tx)"

definition drained_ok ::
  "(transaction \<Rightarrow> bytes) \<Rightarrow> (bytes \<Rightarrow> transaction option) \<Rightarrow> (bytes, bytes) dashmap \<Rightarrow> (event \<Rightarrow> bool) \<Rightarrow> bytes \<Rightarrow> bool" where
  "drained_ok enc dec saf P out \<longleftrightarrow> (\<exists>frms. out = concat frms \<and>
     (\<forall>frm \<in> set frms. \<exists>v pb. row_ok enc saf P v \<and> dec v = Some pb \<and>
        upstream_encode (egress_encode (from_pb pb)) [] = Ok frm))"

definition client_ok ::
  "(transaction \<Rightarrow> bytes) \<Rightarrow> (bytes \<Rightarrow> transaction option) \<Rightarrow> (bytes, bytes) dashmap \<Rightarrow> (event \<Rightarrow> bool) \<Rightarrow> upstream_client \<Rightarrow> bool" where
  "client_ok enc dec saf P c \<longleftrightarrow>
     (\<forall>tx \<in> snd ` set (send_tasks c). P tx) \<and>
     (\<forall>conn \<in> set (conns c). \<forall>p \<in> set (sink_buffer conn) \<union> set (conn_wire conn). payload_ok P p) \<and>
     (\<forall>out \<in> set (saf_wire c). drained_ok enc dec saf P out)"

section \<open>A step of a client\<close>

lemma client_ok_mono:
  assumes "client_ok enc dec saf P c" and "\<And>tx. P tx \<Longrightarrow> P' tx"
  shows "client_ok enc dec saf P' c"
  using assms unfolding client_ok_def payload_ok_def drained_ok_def row_ok_def by meson

lemma store_ok_mono: "store_ok enc saf P db \<Longrightarrow> (\<And>tx. P tx \<Longrightarrow> P' tx) \<Longrightarrow> store_ok enc saf P' db"
  unfolding store_ok_def row_ok_def by blast

lemma update_values: "snd ` set (AList.update k v db) \<subseteq> insert v (snd ` set db)"
  by (induction db) auto

lemma store_ok_saf_store:
  assumes "store_ok enc saf P db" and "P tx"
  shows "store_ok enc saf P (saf_store enc tx db)"
proof -
  have new: "row_ok enc saf P (enc (to_pb tx))" using assms(2) by (auto simp: row_ok_def)
  have "row_ok enc saf P v" if v: "v \<in> snd ` set (saf_store enc tx db)" for v
  proof (cases "v \<in> snd ` set db")
    case True
    then show ?thesis using assms(1) by (simp only: store_ok_def)
  next
    case False
    then have "v \<in> snd ` set (AList.update (saf_key tx) (enc (to_pb tx)) db)"
      using v by (cases "saf_worthy tx") (simp_all only: saf_store_def if_True if_False)
    then have "v \<in> insert (enc (to_pb tx)) (snd ` set db)" by (rule subsetD [OF update_values])
    then have "v = enc (to_pb tx)" using False by (elim insertE) simp_all
    then show ?thesis using new by simp
  qed
  then show ?thesis unfolding store_ok_def by (rule ballI)
qed

lemma store_ok_deletes: "store_ok enc saf P db \<Longrightarrow> store_ok enc saf P (foldl (\<lambda>d k. AList.delete k d) db ks)"
proof (induction ks arbitrary: db)
  case (Cons k ks)
  have "set (AList.delete k db) \<subseteq> set db" by (auto simp: AList.delete_eq)
  then show ?case using Cons by (auto simp: store_ok_def)
qed simp

lemma saf_rows_drained:
  "saf_rows dec write_ok db = (out, keys) \<Longrightarrow> store_ok enc saf P db \<Longrightarrow> drained_ok enc dec saf P out"
proof (induction db arbitrary: out keys)
  case Nil
  then show ?case by (auto simp: drained_ok_def intro: exI [of _ "[]"])
next
  case (Cons row db)
  obtain key v where row: "row = (key, v)" by force
  obtain out' keys' where rest: "saf_rows dec write_ok db = (out', keys')" by force
  have v: "row_ok enc saf P v" and "store_ok enc saf P db" using Cons.prems(2) by (simp_all add: store_ok_def row)
  then obtain frms where frms: "out' = concat frms" "\<forall>frm \<in> set frms. \<exists>v pb. row_ok enc saf P v \<and> dec v = Some pb \<and>
      upstream_encode (egress_encode (from_pb pb)) [] = Ok frm"
    using Cons.IH [OF rest] by (auto simp: drained_ok_def)
  consider "out = out'" | pb frm where "dec v = Some pb" "upstream_encode (egress_encode (from_pb pb)) [] = Ok frm" "out = frm @ out'"
    using Cons.prems(1) by (auto simp: row rest split: option.splits outcome.splits if_splits)
  then show ?case
  proof cases
    case 1
    then show ?thesis using frms by (auto simp: drained_ok_def)
  next
    case 2
    then show ?thesis using frms v unfolding drained_ok_def by (intro exI [of _ "frm # frms"]) auto
  qed
qed

lemma client_ok_put:
  assumes "client_ok enc dec saf P c" and "\<forall>p \<in> set (sink_buffer conn) \<union> set (conn_wire conn). payload_ok P p"
  shows "client_ok enc dec saf P (put_conn k conn c)"
proof -
  have "set ((conns c)[k := conn]) \<subseteq> insert conn (set (conns c))" by (rule set_update_subset_insert)
  then show ?thesis using assms by (auto simp: client_ok_def put_conn_def)
qed

lemma conn_payloads:
  "client_ok enc dec saf P c \<Longrightarrow> k < length (conns c) \<Longrightarrow>
    \<forall>p \<in> set (sink_buffer (conns c ! k)) \<union> set (conn_wire (conns c ! k)). payload_ok P p"
  unfolding client_ok_def by (meson nth_mem)

lemma client_step_ok:
  assumes "client_step enc dec (c, db, rs) (c', db', rs')"
    and ok: "client_ok enc dec saf P c" and store: "store_ok enc saf P db"
    and rx: "\<forall>ctx \<in> set (rx c). P (ctx_transaction ctx)"
  shows "client_ok enc dec saf P c' \<and> store_ok enc saf P db'"
  using assms(1)
proof (cases rule: client_step.cases)
  case connect
  then show ?thesis using ok store by (simp add: client_ok_def)
next
  case (take ctx ctxs)
  then show ?thesis using ok store rx by (simp add: client_ok_def)
next
  case (send before k tx after buf)
  have tx: "P tx" using ok \<open>send_tasks c = before @ (k, tx) # after\<close> by (simp add: client_ok_def)
  have k: "k < length (conns c)" using send by simp
  have sent: "egress_send enc (sink_open (conns c ! k)) tx (sink_buffer (conns c ! k), db) = (buf, db')" using send by simp
  have "store_ok enc saf P db'" using sent store store_ok_saf_store [OF store tx] by (auto simp: egress_send_def split: if_splits)
  moreover have "\<forall>p \<in> set buf. payload_ok P p"
    using sent tx conn_payloads [OF ok k] by (auto simp: egress_send_def payload_ok_def split: if_splits)
  moreover have "client_ok enc dec saf P (c\<lparr>send_tasks := before @ after\<rparr>)"
    using ok \<open>send_tasks c = before @ (k, tx) # after\<close> by (simp add: client_ok_def)
  ultimately show ?thesis using send(1) conn_payloads [OF ok k] by (auto intro!: client_ok_put)
next
  case (feed k p ps)
  then show ?thesis using store conn_payloads [OF ok, of k] by (auto intro!: client_ok_put [OF ok])
next
  case (feed_fails k p ps)
  then show ?thesis using store conn_payloads [OF ok, of k] by (auto intro!: client_ok_put [OF ok])
next
  case (extra_fails k p ps)
  then show ?thesis using store conn_payloads [OF ok, of k] by (auto intro!: client_ok_put [OF ok])
next
  case (offline ctx ctxs)
  then show ?thesis using ok store rx store_ok_saf_store [OF store] by (simp add: client_ok_def egress_offline_def)
next
  case (saf_write key v write_ok out keys)
  have "store_ok enc saf P [(key, v)]"
    using store map_of_SomeD [OF \<open>map_of db key = Some v\<close>] by (auto simp: store_ok_def)
  then show ?thesis
    using saf_write ok store saf_rows_drained [OF \<open>saf_rows dec write_ok [(key, v)] = (out, keys)\<close>] by (auto simp: client_ok_def)
next
  case (saf_remove key keys)
  then show ?thesis using ok store_ok_deletes [OF store, of "[key]"] by (simp add: client_ok_def)
qed (use ok store in \<open>simp_all add: client_ok_def\<close>)

section \<open>Every history of the daemon\<close>

lemma requested_outbound:
  assumes "submitted Q R" and "issued d Q" and "outbound_ok R tx"
  shows "requested d Q tx"
proof (cases "asked R tx")
  case True
  then obtain c where c: "c \<in> R" "asked_by c tx" by (auto simp: asked_def)
  then obtain k r q where q: "(k, r, q) \<in> Q"
    "c = \<lparr>ctx_transaction = q, ctx_responder = Some r\<rparr> \<or> c = server_disconnect q"
    using assms(1) unfolding submitted_def by blast
  have "k < length (sockets d)" "\<exists>msg. dialect_parse (conn_dialect (sockets d ! k)) msg = Ok q"
    using assms(2) q(1) unfolding issued_def by blast+
  moreover have "charged_card (ctx_transaction (server_disconnect q)) = charged_card q"
    by (simp add: charged_card_def server_disconnect_def split: option.splits)
  ultimately show ?thesis
    using c(2) q unfolding requested_def asked_by_def Let_def
    by (intro disjI2 exI [of _ k] exI [of _ r] exI [of _ q]) (auto simp: server_disconnect_def)
next
  case False
  then show ?thesis using assms(3) by (auto simp: outbound_ok_def requested_def)
qed

lemma requested_step:
  assumes "daemon_step cd h enc dec d d'" and "requested d Q tx"
  shows "requested d' (Q \<union> Q') tx"
proof -
  have "k < length (sockets d') \<and> conn_dialect (sockets d' ! k) = conn_dialect (sockets d ! k)" if "k < length (sockets d)" for k
    using daemon_step_sockets [OF assms(1)] that by (auto simp: keeps_sockets_def issues_def nth_list_update)
  then show ?thesis using assms(2) unfolding requested_def by (metis UnI1)
qed

text \<open>Only a step of a client changes the clients and the store.\<close>

lemma task_step_clients: "task_step k s d d' \<Longrightarrow> upstreams d' = upstreams d \<and> saf_queue_db d' = saf_queue_db d"
  by (erule task_step.cases) (simp_all add: put_socket_def submit_def)

lemma read_frame_clients: "upstreams (read_frame k s d) = upstreams d" "saf_queue_db (read_frame k s d) = saf_queue_db d"
  by (simp_all add: read_frame_def hang_up_def put_socket_def Let_def split: outcome.splits option.splits)

lemma daemon_step_clients:
  assumes "daemon_step cd h enc dec d d'"
    and "\<forall>c \<in> set (upstreams d). client_ok enc dec saf P c" and "store_ok enc saf P (saf_queue_db d)"
    and "\<forall>ch. \<forall>ctx \<in> set (queue (channels (core d) ch)). P (ctx_transaction ctx)"
  shows "(\<forall>c \<in> set (upstreams d'). client_ok enc dec saf P c) \<and> store_ok enc saf P (saf_queue_db d')"
  using assms(1)
proof cases
  case (client i c db rs)
  have "client_ok enc dec saf P (upstreams d ! i)" using assms(2) client(2) by simp
  then have "client_ok enc dec saf P ((upstreams d ! i)\<lparr>rx := queue (channels (core d) i)\<rparr>)" by (simp add: client_ok_def)
  from client_step_ok [OF client(3) this assms(3)] have "client_ok enc dec saf P c" "store_ok enc saf P db"
    using assms(4) by simp_all
  then show ?thesis using client(1) assms(2) set_update_subset_insert [of "upstreams d" i c] by auto
next
  case (task k)
  then show ?thesis using task_step_clients assms(2,3) by metis
qed (use assms(2,3) in \<open>simp_all add: read_frame_clients hang_up_def put_socket_def\<close>)

lemma history_clients:
  assumes "daemon_history cd h enc dec saf d Q B"
  shows "(\<forall>c \<in> set (upstreams d). client_ok enc dec saf (requested d Q) c) \<and> store_ok enc saf (requested d Q) (saf_queue_db d)"
  using assms
proof (induction rule: daemon_history.induct)
  case (opened db threads)
  show ?case
    by (simp add: daemon_start_def egress_start_def upstream_new_def client_ok_def store_ok_def row_ok_def)
next
  case (went_on d Q B d')
  obtain R where R: "history cd h (core d) R B" "submitted Q R" and issued: "issued d Q"
    using history_daemon [OF went_on.hyps(1)] by blast
  have "\<forall>ch. \<forall>ctx \<in> set (queue (channels (core d) ch)). requested d Q (ctx_transaction ctx)"
    using history_accounted [OF R(1)] requested_outbound [OF R(2) issued] by (simp add: accounted_def)
  from daemon_step_clients [OF went_on.hyps(2) _ _ this] went_on.IH
  have "\<forall>c \<in> set (upstreams d'). client_ok enc dec saf (requested d Q) c" "store_ok enc saf (requested d Q) (saf_queue_db d')"
    by blast+
  moreover have "requested d' (Q \<union> taken d') tx" if "requested d Q tx" for tx
    using requested_step [OF went_on.hyps(2) that] .
  ultimately show ?case
    using client_ok_mono [of enc dec saf "requested d Q"] store_ok_mono [of enc saf "requested d Q"] by simp
qed

section \<open>Properties\<close>

text \<open>
  C4. The banks are sent what the terminals asked for. Whatever a client has written to a connection
  of its bank is the encoding of a probe of the network manager, or of an event with the amount, RRN
  and acquirer of a message that some connection received, for the card that message is charged to.
  What the store-and-forward tasks have written consists of whole frames, each made of a row that
  the store had at the start or that was stored for such an event.
\<close>

theorem banks_sent_only_requests:
  assumes "daemon_history cd h enc dec saf d Q B" and "i < length (upstreams d)"
  shows "(\<forall>conn \<in> set (conns (upstreams d ! i)). \<forall>payload \<in> set (conn_wire conn).
      \<exists>tx. requested d Q tx \<and> payload = egress_encode tx) \<and>
    (\<forall>out \<in> set (saf_wire (upstreams d ! i)). \<exists>frms. out = concat frms \<and>
      (\<forall>frm \<in> set frms. \<exists>v pb. (v \<in> snd ` set saf \<or> (\<exists>tx. requested d Q tx \<and> v = enc (to_pb tx))) \<and>
        dec v = Some pb \<and> upstream_encode (egress_encode (from_pb pb)) [] = Ok frm))"
proof -
  have "client_ok enc dec saf (requested d Q) (upstreams d ! i)" using history_clients [OF assms(1)] assms(2) by simp
  then show ?thesis unfolding client_ok_def payload_ok_def drained_ok_def row_ok_def by blast
qed

section \<open>A run from a terminal to a bank\<close>

lemma internal_daemon:
  assumes "(internal_step cd h)\<^sup>*\<^sup>* st st'"
  shows "(daemon_step cd h enc dec)\<^sup>*\<^sup>* (d\<lparr>core := st\<rparr>) (d\<lparr>core := st'\<rparr>)"
  using assms
proof induction
  case (step st1 st2)
  then have "own_step cd h st1 st2" by (simp add: internal_step_def own_step_def channels_grow_def)
  then have "daemon_step cd h enc dec (d\<lparr>core := st1\<rparr>) (d\<lparr>core := st2\<rparr>)"
    using daemon_step.engine [of cd h "d\<lparr>core := st1\<rparr>" st2 enc dec] by simp
  then show ?case using step.IH by (rule rtranclp.rtrancl_into_rtrancl [rotated])
qed simp

text \<open>A terminal connects and sends one message.\<close>

lemma terminal_sends:
  assumes "sockets d = []" and "standard_parse (standard_build_response tx) = Ok tx"
  shows "(daemon_step cd h enc dec)\<^sup>*\<^sup>* d (submit \<lparr>ctx_transaction = tx, ctx_responder = Some (next_responder d)\<rparr>
    (d\<lparr>sockets := [(connection_new StandardDialect)\<lparr>conn_waiting := [(next_responder d, tx)]\<rparr>],
       current_conns := current_conns d + 1, next_responder := next_responder d + 1\<rparr>))"
    (is "_ d (submit ?ctx ?d4)")
proof -
  let ?step = "daemon_step cd h enc dec" and ?s = "connection_new StandardDialect" and ?n = "next_responder d"
  let ?f = "length_prefixed (standard_build_response tx)"
  let ?d1 = "d\<lparr>sockets := [?s], current_conns := current_conns d + 1\<rparr>"
  let ?d2 = "d\<lparr>sockets := [?s\<lparr>recv_buffer := ?f\<rparr>], current_conns := current_conns d + 1\<rparr>"
  let ?d3 = "d\<lparr>sockets := [?s\<lparr>spawned := [(?n, tx)]\<rparr>], current_conns := current_conns d + 1, next_responder := ?n + 1\<rparr>"
  have "?step d ?d1" using daemon_step.accept [of cd h enc dec d StandardDialect] assms(1) by simp
  moreover have "?step ?d1 ?d2"
    using daemon_step.chunk [of 0 ?d1 cd h enc dec ?f] by (cases d) (simp add: put_socket_def connection_new_def)
  moreover have "?step ?d2 ?d3"
  proof -
    have "read_frame 0 (sockets ?d2 ! 0) ?d2 = ?d3"
      by (cases d) (simp add: read_frame_def decode_length_prefixed standard_build_short server_receive_def
          assms(2) put_socket_def connection_new_def)
    then show ?thesis using daemon_step.frame [of 0 ?d2 cd h enc dec] by (simp add: connection_new_def)
  qed
  moreover have "?step ?d3 (submit ?ctx ?d4)"
  proof -
    have "task_step 0 (sockets ?d3 ! 0) ?d3 (submit ?ctx ?d4)"
      using task_step.handed [of "sockets ?d3 ! 0" "[]" ?n tx "[]" 0 ?d3]
      by (cases d) (simp add: submit_def put_socket_def connection_new_def)
    then show ?thesis by (intro daemon_step.task [of 0]) simp_all
  qed
  ultimately show ?thesis by (meson converse_rtranclp_into_rtranclp rtranclp.rtrancl_refl)
qed

text \<open>A client that is still to connect, with one context in its channel, writes it to its bank.\<close>

definition client_at :: "nat \<Rightarrow> transaction_context list \<Rightarrow> upstream_client \<Rightarrow> daemon \<Rightarrow> daemon" where
  "client_at i q c d = d\<lparr>core := put_channel i q (bank_replies (core d)) (core d), upstreams := (upstreams d)[i := c]\<rparr>"

lemma client_at_step:
  assumes "i < length (upstreams d)"
    and "client_step enc dec (c\<lparr>rx := q\<rparr>, saf_queue_db d, bank_replies (core d)) (c', saf_queue_db d, bank_replies (core d))"
  shows "daemon_step cd h enc dec (client_at i q c d) (client_at i (rx c') c' d)"
  using daemon_step.client [of i "client_at i q c d" enc dec c' "saf_queue_db d" "bank_replies (core d)" cd h] assms
  by (simp add: client_at_def put_channel_def)

lemma client_delivers:
  assumes "i < length (upstreams d)" and "upstreams d ! i = upstream_new hst" and "queue (channels (core d) i) = [ctx]"
  shows "\<exists>c. (daemon_step cd h enc dec)\<^sup>*\<^sup>* d (client_at i [] c d) \<and>
    conns c = [\<lparr>sink_open = True, sink_buffer = [], conn_wire = [egress_encode (ctx_transaction ctx)]\<rparr>]"
proof -
  let ?step = "daemon_step cd h enc dec" and ?tx = "ctx_transaction ctx"
  let ?conn = "\<lambda>b w. \<lparr>sink_open = True, sink_buffer = b, conn_wire = w\<rparr>"
  let ?c1 = "(upstream_new hst)\<lparr>rx := [ctx], online := True, conns := [?conn [] []]\<rparr>"
  let ?c2 = "?c1\<lparr>rx := [], send_tasks := [(0, ?tx)]\<rparr>"
  let ?c3 = "?c1\<lparr>rx := [], conns := [?conn [egress_encode ?tx] []]\<rparr>"
  let ?c4 = "?c1\<lparr>rx := [], conns := [?conn [] [egress_encode ?tx]]\<rparr>"
  note at = client_at_step [OF assms(1), of enc dec]
  have d: "client_at i [ctx] (upstream_new hst) d = d"
    using assms by (simp add: client_at_def put_channel_def flip: assms(2,3))
  have "?step (client_at i [ctx] (upstream_new hst) d) (client_at i [ctx] ?c1 d)"
    using at [where c = "upstream_new hst" and q = "[ctx]" and c' = ?c1 and cd = cd and h = h]
      client_step.connect [of "(upstream_new hst)\<lparr>rx := [ctx]\<rparr>" enc dec "saf_queue_db d" "bank_replies (core d)"]
    by (simp add: upstream_new_def)
  moreover have "?step (client_at i [ctx] ?c1 d) (client_at i [] ?c2 d)"
    using at [where c = ?c1 and q = "[ctx]" and c' = ?c2 and cd = cd and h = h] client_step.take [of ?c1 ctx "[]" enc dec "saf_queue_db d" "bank_replies (core d)"]
    by (simp add: upstream_new_def)
  moreover have "?step (client_at i [] ?c2 d) (client_at i [] ?c3 d)"
    using at [where c = ?c2 and q = "[]" and c' = ?c3 and cd = cd and h = h] client_step.send [of ?c2 "[]" 0 ?tx "[]" enc "saf_queue_db d" "[egress_encode ?tx]"
        "saf_queue_db d" dec "bank_replies (core d)"]
    by (simp add: upstream_new_def egress_send_def sink_capacity_def put_conn_def)
  moreover have "?step (client_at i [] ?c3 d) (client_at i [] ?c4 d)"
    using at [where c = ?c3 and q = "[]" and c' = ?c4 and cd = cd and h = h] client_step.feed [of 0 ?c3 "egress_encode ?tx" "[]" enc dec "saf_queue_db d" "bank_replies (core d)"]
    by (simp add: upstream_new_def put_conn_def)
  ultimately have "?step\<^sup>*\<^sup>* d (client_at i [] ?c4 d)"
    unfolding d by (meson converse_rtranclp_into_rtranclp rtranclp.rtrancl_refl)
  then show ?thesis by (intro exI [of _ ?c4]) simp
qed

text \<open>
  The sample authorization, from the socket of a terminal to the wire of a bank: routes are published,
  the terminal connects and sends it, the engine forwards it, and the first client delivers it.
\<close>

lemma sample_event_exact: "exact_event sample_event" "mti sample_event = ascii ''0100''"
  by (simp_all add: exact_event_def wire_exact_def wire_wf_def lengths_wf_def off_wire_blank_def fits_def
      sample_event_def blank_event_def class_of_mti_def reversal_mti_def ascii_def valid_utf8_ascii)

lemma sample_parses: "standard_parse (standard_build_response sample_event) = Ok sample_event"
proof -
  have "wire_wf sample_event" "universal_view sample_event = sample_event"
    using sample_event_exact(1) by (simp_all add: exact_event_def wire_exact_def universal_view_exact)
  then show ?thesis using standard_adapter.response_parses by (simp add: standard_view_eq)
qed

lemma sample_delivered:
  "\<exists>d. (daemon_step cd h enc dec)\<^sup>*\<^sup>* (daemon_start Map.empty [] 4) d \<and> 0 < length (upstreams d) \<and>
    conns (upstreams d ! 0) = [\<lparr>sink_open = True, sink_buffer = [],
      conn_wire = [egress_encode (ctx_transaction (outbound sample_engine sample_event))]\<rparr>]"
proof -
  let ?step = "daemon_step cd h enc dec" and ?ctx = "\<lparr>ctx_transaction = sample_event, ctx_responder = Some 0\<rparr>"
  let ?d1 = "(daemon_start Map.empty [] 4)\<lparr>core := sample_engine\<rparr>"
  let ?rows = "[\<lparr>bin_prefix = ascii ''4'', destination_type = ascii ''ExternalNode'',
    target_node = Some (ascii ''MockVisaNode''), row_failover_node = None\<rparr>]"
  have "own_step cd h (engine_start Map.empty 1500 4) sample_engine"
    using engine_step.config [OF reconfigure.reload_routes [of "engine_start Map.empty 1500 4" ?rows]]
    by (simp add: own_step_def sample_engine_def Let_def)
  then have published: "?step (daemon_start Map.empty [] 4) ?d1"
    using daemon_step.engine [of cd h "daemon_start Map.empty [] 4" sample_engine enc dec] by (simp add: daemon_start_def)
  define s where "s = (connection_new StandardDialect)\<lparr>conn_waiting := [(0, sample_event)]\<rparr>"
  define d2 where "d2 = ?d1\<lparr>sockets := [s], current_conns := 1, next_responder := 1\<rparr>"
  have "?step\<^sup>*\<^sup>* ?d1 (submit ?ctx d2)"
    using terminal_sends [of ?d1 sample_event, OF _ sample_parses] by (simp add: daemon_start_def d2_def s_def)
  moreover have "submit ?ctx d2 = d2\<lparr>core := sample_engine\<lparr>ingress_queue := [?ctx]\<rparr>\<rparr>"
    by (simp add: submit_def d2_def sample_idle)
  moreover have "?step\<^sup>*\<^sup>* (d2\<lparr>core := sample_engine\<lparr>ingress_queue := [?ctx]\<rparr>\<rparr>) (d2\<lparr>core := process_transaction cd ?ctx sample_engine\<rparr>)"
    by (rule internal_daemon [OF process_transaction_steps]) (simp_all add: sample_idle)
  ultimately have asked: "?step\<^sup>*\<^sup>* (daemon_start Map.empty [] 4) (d2\<lparr>core := process_transaction cd ?ctx sample_engine\<rparr>)"
    (is "(_)\<^sup>*\<^sup>* _ ?d3")
    using converse_rtranclp_into_rtranclp [of ?step, OF published] by (metis rtranclp_trans)
  have "clears_screening sample_engine ?ctx sample_event"
    using sample_clears by (simp add: clears_screening_def compliance_evaluate_def sample_context_def)
  moreover have "entry_of sample_engine (context_key ?ctx) = None" by (simp add: sample_forwardable(8))
  ultimately have "queue (channels (core ?d3) 0) = [outbound sample_engine sample_event]"
    using process_forwarded [OF _ _ sample_forwardable(2-4) sample_route sample_room] by (simp add: forwarded_def)
  moreover have "0 < length (upstreams ?d3)" "upstreams ?d3 ! 0 = upstream_new (ascii ''127.0.0.1:9188'')"
    by (simp_all add: d2_def daemon_start_def egress_start_def)
  ultimately obtain c where "?step\<^sup>*\<^sup>* ?d3 (client_at 0 [] c ?d3)"
    "conns c = [\<lparr>sink_open = True, sink_buffer = [], conn_wire = [egress_encode (ctx_transaction (outbound sample_engine sample_event))]\<rparr>]"
    using client_delivers [of 0 ?d3 _ "outbound sample_engine sample_event" cd h enc dec] by blast
  then show ?thesis
    using asked \<open>0 < length (upstreams ?d3)\<close>
    by (intro exI [of _ "client_at 0 [] c ?d3"]) (auto simp: client_at_def)
qed

theorem banks_sent_only_requests_witness:
  "\<exists>d Q B. daemon_history sample_codec silent_hsm (\<lambda>_. []) (\<lambda>_. None) [] d Q B \<and> 0 < length (upstreams d) \<and>
    (\<exists>conn \<in> set (conns (upstreams d ! 0)). \<exists>tx. requested d Q tx \<and>
      conn_wire conn = [egress_encode tx] \<and> conn_wire conn = [egress_encode (ctx_transaction (outbound sample_engine sample_event))])"
proof -
  obtain d where d: "(daemon_step sample_codec silent_hsm (\<lambda>_. []) (\<lambda>_. None))\<^sup>*\<^sup>* (daemon_start Map.empty [] 4) d"
    "0 < length (upstreams d)"
    "conns (upstreams d ! 0) = [\<lparr>sink_open = True, sink_buffer = [],
      conn_wire = [egress_encode (ctx_transaction (outbound sample_engine sample_event))]\<rparr>]"
    using sample_delivered by blast
  obtain Q B where hist: "daemon_history sample_codec silent_hsm (\<lambda>_. []) (\<lambda>_. None) [] d Q B"
    using reachable_daemon_history [OF d(1)] by blast
  have "\<exists>tx. requested d Q tx \<and> egress_encode (ctx_transaction (outbound sample_engine sample_event)) = egress_encode tx"
    using banks_sent_only_requests [OF hist d(2)] by (simp add: d(3))
  then show ?thesis using hist d(2) by (intro exI [of _ d] exI [of _ Q] exI [of _ B]) (auto simp: d(3))
qed

end
