(* ===== verification/Stand_In.thy ===== *)
theory Stand_In
  imports Engine_Liveness Pin_Flow
begin

text \<open>
  Stand-in processing under interleaving. The worker that finds its channel full or gone reads the
  card's profile, decides, and stores the profile with the amount deducted; the read and the store
  are two operations on \<open>stip.db\<close>, and nothing keeps a second worker from coming in between. What
  one worker does alone is the theorem \<open>stip_decision_exact\<close>; here two workers stand in for the
  same card.
\<close>

lemma select_egress_nat:
  "select_egress (g\<lparr>stan_counter := c, stan_nat := m\<rparr>) tx = select_egress g tx"
  by (simp add: select_egress_def select_node_nat split: option.splits route_destination.splits)

lemma tsp_intercept_counter: "tsp_intercept (g\<lparr>stan_counter := c\<rparr>) tx = tsp_intercept g tx"
  by (simp add: tsp_intercept_def)

lemma clears_frame:
  assumes "clears_screening st ctx tx" and "compliance_cache st' = compliance_cache st"
    and "memory_state st' = (memory_state st)\<lparr>stan_counter := c, stan_nat := m\<rparr>"
  shows "clears_screening st' ctx tx"
  using assms by (simp add: clears_screening_def tsp_intercept_counter)

text \<open>A transaction whose channel refuses it, from the queue to the point where its profile is read.\<close>

definition refused :: "transaction_context \<Rightarrow> event \<Rightarrow> engine \<Rightarrow> engine" where
  "refused ctx tx st = ledger_send (ctx_transaction (outbound st tx)) (translated ctx tx st)"

lemma refused_simps [simp]:
  "compliance_cache (refused ctx tx st) = compliance_cache st"
  "memory_state (refused ctx tx st) = (memory_state st)\<lparr>stan_counter := stan_counter (memory_state st) + 1,
     stan_nat := (stan_nat (memory_state st))(next_egress_stan (memory_state st) \<mapsto> stan tx)\<rparr>"
  "stip_db (refused ctx tx st) = stip_db st" "journal (refused ctx tx st) = journal st @ [to_pb tx]"
  "journal_open (refused ctx tx st) = journal_open st" "channels (refused ctx tx st) = channels st"
  "workers (refused ctx tx st) = workers st" "ingress_queue (refused ctx tx st) = ingress_queue st"
  "entry_of (refused ctx tx st) k = (if k = context_key ctx then Some \<lparr>created_at = clock st,
     at_state = UpstreamSent, at_responder = ctx_responder ctx, transaction_data = to_pb tx,
     egress_stan = Some (next_egress_stan (memory_state st))\<rparr> else entry_of st k)"
  by (simp_all add: refused_def translated_def ledger_send_def Let_def)

lemma refused_to_lookup:
  assumes "clears_screening st ctx tx" and "entry_of st (context_key ctx) = None" and "0 < workers st"
    and "pin_block tx = []" and "mac_data tx = None" and "journal_open st"
    and "select_egress (memory_state st) tx = Some ch" and "try_send (outbound st tx) (channels st ch) = None"
  shows "(engine_step cd h)\<^sup>*\<^sup>* (st\<lparr>jobs := js, ingress_queue := ctx # ingress_queue st\<rparr>)
    ((refused ctx tx st)\<lparr>jobs := js @ [StipLookup (outbound st tx)]\<rparr>)"
proof -
  let ?k = "context_key ctx" and ?es = "next_egress_stan (memory_state st)" and ?out = "outbound st tx"
  let ?ctx = "ctx\<lparr>ctx_transaction := tx, ctx_responder := None\<rparr>"
  let ?en = "\<lparr>created_at = clock st, at_state = UpstreamSent, at_responder = ctx_responder ctx,
    transaction_data = to_pb tx, egress_stan = None\<rparr>"
  let ?st1 = "st\<lparr>idempotency_guard := (?k, ?en) # idempotency_guard st\<rparr>"
  let ?st2 = "?st1\<lparr>journal := journal st @ [to_pb tx], memory_state := (memory_state st)\<lparr>
    stan_counter := stan_counter (memory_state st) + 1, stan_nat := (stan_nat (memory_state st))(?es \<mapsto> stan tx)\<rparr>\<rparr>"
  have "(engine_step cd h)\<^sup>*\<^sup>* (st\<lparr>jobs := js, ingress_queue := ctx # ingress_queue st\<rparr>) (?st1\<lparr>jobs := js @ Dispatch ?k ?ctx # []\<rparr>)"
    using ingest_step [OF assms(1-3), of cd h js] by (simp add: r_into_rtranclp)
  also have "engine_step cd h (?st1\<lparr>jobs := js @ Dispatch ?k ?ctx # []\<rparr>) (?st2\<lparr>jobs := js @ RecordStan ?k ?out ch ?es # []\<rparr>)"
  proof -
    have "?ctx\<lparr>ctx_transaction := tx\<lparr>stan := ?es\<rparr>\<rparr> = ?out" by (simp add: outbound_def)
    then have "job_step cd (Dispatch ?k ?ctx) ?st1 = (?st2, Some (RecordStan ?k ?out ch ?es))"
      using assms(4-7) by (simp add: dispatch_def journal_append_def nat_outbound_def Let_def)
    from work_step [OF this, of h js "[]"] show ?thesis by simp
  qed
  also have "engine_step cd h (?st2\<lparr>jobs := js @ RecordStan ?k ?out ch ?es # []\<rparr>)
      ((translated ctx tx st)\<lparr>jobs := js @ Transmit ?out ch # []\<rparr>)"
  proof -
    have "job_step cd (RecordStan ?k ?out ch ?es) ?st2 = (translated ctx tx st, Some (Transmit ?out ch))"
      by (simp add: record_stan_def guard_modify_def translated_def Let_def)
    from work_step [OF this, of h js "[]"] show ?thesis by simp
  qed
  also have "engine_step cd h ((translated ctx tx st)\<lparr>jobs := js @ Transmit ?out ch # []\<rparr>)
      ((refused ctx tx st)\<lparr>jobs := js @ [StipLookup ?out]\<rparr>)"
  proof -
    have "channels (translated ctx tx st) = channels st" by (simp add: translated_def Let_def)
    then have "job_step cd (Transmit ?out ch) (translated ctx tx st) = (refused ctx tx st, Some (StipLookup ?out))"
      using assms(8) by (simp add: transmit_def ledger_send_def refused_def)
    from work_step [OF this, of h js "[]"] show ?thesis by simp
  qed
  finally show ?thesis .
qed

text \<open>The stand-in approval of a transaction, and the profile with its amount deducted.\<close>

definition stand_in_approval :: "event \<Rightarrow> event" where
  "stand_in_approval tx = (decline_of tx (ascii ''00''))\<lparr>processing_code := ascii ''STIP12''\<rparr>"

definition deducted :: "event \<Rightarrow> card_profile \<Rightarrow> card_profile" where
  "deducted tx p = p\<lparr>profile_balance := profile_balance p - amount tx\<rparr>"

lemma stand_in_applied:
  assumes "deserialize cd cached = Some p" and "\<not> profile_is_blocked p"
    and "sint (amount (ctx_transaction ctx)) \<le> sint (profile_balance p)"
    and "journal_open st" and "ctx_responder ctx = None"
  shows "stip_fallback cd ctx (Some cached) st = st\<lparr>
    stip_db := (stip_db st)(fpan (ctx_transaction ctx) \<mapsto> serialize cd (deducted (ctx_transaction ctx) p)),
    journal := journal st @ [to_pb (stand_in_approval (ctx_transaction ctx))]\<rparr>"
  using assms by (simp add: stip_fallback_def stip_decide_def stip_insert_def journal_append_def respond_def
      stand_in_approval_def deducted_def Let_def)

text \<open>Two workers that read before either stores.\<close>

lemma lookups_then_applications:
  fixes o1 o2 :: transaction_context
  assumes "stip_db st pan = Some cached" and "fpan (ctx_transaction o1) = pan" and "fpan (ctx_transaction o2) = pan"
    and "deserialize cd cached = Some p" and "\<not> profile_is_blocked p" and "journal_open st"
    and "sint (amount (ctx_transaction o1)) \<le> sint (profile_balance p)"
    and "sint (amount (ctx_transaction o2)) \<le> sint (profile_balance p)"
    and "ctx_responder o1 = None" and "ctx_responder o2 = None"
  shows "(engine_step cd h)\<^sup>*\<^sup>* (st\<lparr>jobs := [StipLookup o1, StipLookup o2]\<rparr>)
    (st\<lparr>stip_db := (stip_db st)(pan \<mapsto> serialize cd (deducted (ctx_transaction o2) p)),
      journal := journal st @ [to_pb (stand_in_approval (ctx_transaction o1)), to_pb (stand_in_approval (ctx_transaction o2))],
      jobs := []\<rparr>)"
proof -
  let ?a1 = "StipApply o1 (Some cached)" and ?a2 = "StipApply o2 (Some cached)"
  let ?st1 = "stip_fallback cd o1 (Some cached) st" and ?st2 = "stip_fallback cd o2 (Some cached) (stip_fallback cd o1 (Some cached) st)"
  note applied = stand_in_applied [OF assms(4,5)]
  have "job_step cd (StipLookup o1) st = (st, Some ?a1)" "job_step cd (StipLookup o2) st = (st, Some ?a2)"
    using assms(1-3) by (simp_all add: stip_lookup_def)
  note read = this [THEN work_step, of h]
  have "(engine_step cd h)\<^sup>*\<^sup>* (st\<lparr>jobs := [] @ StipLookup o1 # [StipLookup o2]\<rparr>) (st\<lparr>jobs := [] @ StipLookup o2 # [?a1]\<rparr>)"
    using read(1) [of "[]" "[StipLookup o2]"] by (simp add: r_into_rtranclp)
  also have "engine_step cd h \<dots> (st\<lparr>jobs := [] @ ?a1 # [?a2]\<rparr>)" using read(2) [of "[]" "[?a1]"] by simp
  also have "engine_step cd h \<dots> (?st1\<lparr>jobs := [] @ ?a2 # []\<rparr>)"
    using work_step [of cd ?a1 st ?st1 None h "[]" "[?a2]"] by simp
  also have "engine_step cd h \<dots> (?st2\<lparr>jobs := []\<rparr>)"
    using work_step [of cd ?a2 ?st1 ?st2 None h "[]" "[]"] by simp
  also have "?st2\<lparr>jobs := []\<rparr> = st\<lparr>stip_db := (stip_db st)(pan \<mapsto> serialize cd (deducted (ctx_transaction o2) p)),
      journal := journal st @ [to_pb (stand_in_approval (ctx_transaction o1)), to_pb (stand_in_approval (ctx_transaction o2))],
      jobs := []\<rparr>"
    using assms(2,3,6-10) by (simp add: applied)
  finally show ?thesis by simp
qed

section \<open>Properties\<close>

text \<open>
  C24. Two workers can spend a stand-in balance twice. Two transactions on one card wait in the
  ingress queue, the channels they are routed to are full or gone, and the card's profile covers each
  of them, though perhaps not both. There is a run in which both are approved by stand-in processing
  and journaled so, and the stored balance has gone down by the amount of the second only: its worker
  stored the profile that it had read before the first one's was stored.
\<close>

theorem stand_in_spends_twice:
  assumes "\<And>q. deserialize cd (serialize cd q) = Some q"
    and "ingress_queue st = [ctx1, ctx2]" and "jobs st = []" and "2 \<le> workers st" and "journal_open st"
    and "clears_screening st ctx1 tx1" and "clears_screening st ctx2 tx2"
    and "entry_of st (context_key ctx1) = None" and "entry_of st (context_key ctx2) = None"
    and "context_key ctx2 \<noteq> context_key ctx1"
    and "pin_block tx1 = []" and "mac_data tx1 = None" and "pin_block tx2 = []" and "mac_data tx2 = None"
    and "select_egress (memory_state st) tx1 = Some ch1" and "select_egress (memory_state st) tx2 = Some ch2"
    and "\<And>c. try_send c (channels st ch1) = None" and "\<And>c. try_send c (channels st ch2) = None"
    and "fpan tx2 = fpan tx1" and "stip_db st (fpan tx1) = Some cached" and "deserialize cd cached = Some p"
    and "\<not> profile_is_blocked p" and "sint (amount tx1) \<le> sint (profile_balance p)"
    and "sint (amount tx2) \<le> sint (profile_balance p)" and "0 \<le> sint (amount tx2)"
  shows "\<exists>st' a1 a2 p'. (engine_step cd h)\<^sup>*\<^sup>* st st' \<and>
    journal st' = journal st @ [to_pb tx1, to_pb tx2, a1, a2] \<and>
    pb_response_code a1 = ascii ''00'' \<and> pb_amount a1 = amount tx1 \<and>
    pb_response_code a2 = ascii ''00'' \<and> pb_amount a2 = amount tx2 \<and>
    map_option (deserialize cd) (stip_db st' (fpan tx1)) = Some (Some p') \<and>
    sint (profile_balance p') = sint (profile_balance p) - sint (amount tx2)"
proof -
  let ?b = "st\<lparr>ingress_queue := [ctx2]\<rparr>"
  let ?st1 = "refused ctx1 tx1 ?b" and ?o1 = "outbound ?b tx1"
  let ?b1 = "?st1\<lparr>ingress_queue := []\<rparr>"
  let ?st2 = "refused ctx2 tx2 ?b1" and ?o2 = "outbound ?b1 tx2"
  have start: "?b\<lparr>jobs := [], ingress_queue := ctx1 # ingress_queue ?b\<rparr> = st"
    using assms(2,3) by (intro engine.equality) simp_all
  have between: "?b1\<lparr>jobs := [StipLookup ?o1], ingress_queue := ctx2 # ingress_queue ?b1\<rparr>
      = ?st1\<lparr>jobs := [] @ [StipLookup ?o1]\<rparr>"
    by (intro engine.equality) simp_all
  have clear1: "clears_screening ?b ctx1 tx1" using assms(6) by (simp add: clears_screening_def)
  have clear2: "clears_screening ?b1 ctx2 tx2" by (rule clears_frame [OF assms(7)]) simp_all
  define fin where "fin = ?st2\<lparr>stip_db := (stip_db ?st2)(fpan tx1 \<mapsto> serialize cd (deducted (ctx_transaction ?o2) p)),
    journal := journal ?st2 @ [to_pb (stand_in_approval (ctx_transaction ?o1)), to_pb (stand_in_approval (ctx_transaction ?o2))],
    jobs := []\<rparr>"
  have "(engine_step cd h)\<^sup>*\<^sup>* (?b\<lparr>jobs := [], ingress_queue := ctx1 # ingress_queue ?b\<rparr>) (?st1\<lparr>jobs := [] @ [StipLookup ?o1]\<rparr>)"
    using assms by (intro refused_to_lookup [OF clear1]) simp_all
  then have first: "(engine_step cd h)\<^sup>*\<^sup>* st (?st1\<lparr>jobs := [] @ [StipLookup ?o1]\<rparr>)" unfolding start .
  have second: "(engine_step cd h)\<^sup>*\<^sup>* (?st1\<lparr>jobs := [] @ [StipLookup ?o1]\<rparr>) (?st2\<lparr>jobs := [StipLookup ?o1] @ [StipLookup ?o2]\<rparr>)"
    unfolding between [symmetric] using assms by (intro refused_to_lookup [OF clear2]) (simp_all add: select_egress_nat)
  have third: "(engine_step cd h)\<^sup>*\<^sup>* (?st2\<lparr>jobs := [StipLookup ?o1] @ [StipLookup ?o2]\<rparr>) fin"
    using lookups_then_applications [of ?st2 "fpan tx1" cached ?o1 ?o2 cd p h] assms unfolding fin_def by (simp add: outbound_def)
  have run: "(engine_step cd h)\<^sup>*\<^sup>* st fin" by (rule rtranclp_trans [OF first rtranclp_trans [OF second third]])
  have "sint (profile_balance (deducted (ctx_transaction ?o2) p)) = sint (profile_balance p) - sint (amount tx2)"
    using assms(24,25) sint_sub_in_range [of "amount tx2" "profile_balance p"] by (simp add: deducted_def outbound_def)
  moreover have "map_option (deserialize cd) (stip_db fin (fpan tx1)) = Some (Some (deducted (ctx_transaction ?o2) p))"
    by (simp add: fin_def assms(1))
  moreover have "journal fin = journal st @ [to_pb tx1, to_pb tx2,
      to_pb (stand_in_approval (ctx_transaction ?o1)), to_pb (stand_in_approval (ctx_transaction ?o2))]"
    by (simp add: fin_def)
  moreover have "pb_response_code (to_pb (stand_in_approval (ctx_transaction (outbound s tx)))) = ascii ''00'' \<and>
      pb_amount (to_pb (stand_in_approval (ctx_transaction (outbound s tx)))) = amount tx" for s tx
    by (simp add: to_pb_def stand_in_approval_def decline_of_def outbound_def)
  ultimately show ?thesis using run by blast
qed

text \<open>A card with 500 left pays 500 at two terminals while its bank is away, and has nothing left once.\<close>

definition second_payment :: event where
  "second_payment = sample_event\<lparr>stan := ascii ''123457'', rrn := ascii ''000000000002''\<rparr>"

definition stand_in_engine :: engine where
  "stand_in_engine = sample_engine\<lparr>
     channels := (\<lambda>_. \<lparr>queue = [], capacity = 10000, connected = False\<rparr>),
     stip_db := [ascii ''4111'' \<mapsto> serialize sample_codec \<lparr>profile_balance = 500, profile_is_blocked = False\<rparr>],
     ingress_queue := [sample_context, \<lparr>ctx_transaction = second_payment, ctx_responder = Some 8\<rparr>]\<rparr>"

theorem stand_in_spends_twice_witness:
  "\<exists>st' a1 a2. (engine_step sample_codec silent_hsm)\<^sup>*\<^sup>* stand_in_engine st' \<and>
    journal st' = [to_pb sample_event, to_pb second_payment, a1, a2] \<and>
    pb_response_code a1 = ascii ''00'' \<and> pb_amount a1 = 500 \<and>
    pb_response_code a2 = ascii ''00'' \<and> pb_amount a2 = 500"
proof -
  let ?ctx = "\<lparr>ctx_transaction = second_payment, ctx_responder = Some 8\<rparr>"
  let ?p = "\<lparr>profile_balance = 500, profile_is_blocked = False\<rparr>"
  have clear: "clears_screening stand_in_engine sample_context sample_event" "clears_screening stand_in_engine ?ctx second_payment"
    by (simp_all add: clears_screening_def stand_in_engine_def second_payment_def sample_defs compliance_evaluate_def ascii_def
        valid_utf8_ascii tsp_intercept_def risk_declined_def)
  have route: "select_egress (memory_state stand_in_engine) sample_event = Some 0"
    "select_egress (memory_state stand_in_engine) second_payment = Some 0"
  proof -
    have "memory_state stand_in_engine = memory_state sample_engine" by (simp add: stand_in_engine_def)
    moreover have "select_egress g second_payment = select_egress g sample_event" for g
      by (simp add: second_payment_def select_egress_def)
    ultimately show "select_egress (memory_state stand_in_engine) sample_event = Some 0"
      "select_egress (memory_state stand_in_engine) second_payment = Some 0" using sample_route by simp_all
  qed
  have state: "ingress_queue stand_in_engine = [sample_context, ?ctx]" "jobs stand_in_engine = []" "2 \<le> workers stand_in_engine"
    "journal_open stand_in_engine" "entry_of stand_in_engine k = None" "try_send c (channels stand_in_engine 0) = None"
    "journal stand_in_engine = []" "stip_db stand_in_engine (fpan sample_event) = Some (serialize sample_codec ?p)" for k c
    by (simp_all add: stand_in_engine_def sample_defs try_send_def)
  have keys: "context_key ?ctx \<noteq> context_key sample_context"
    by (simp add: context_key_def guard_key_def second_payment_def sample_context_def sample_event_def blank_event_def
        ascii_def valid_utf8_ascii)
  have tx: "pin_block second_payment = []" "mac_data second_payment = None" "fpan second_payment = fpan sample_event"
    "amount second_payment = 500" "amount sample_event = 500"
    by (simp_all add: second_payment_def sample_event_def blank_event_def)
  show ?thesis
    using stand_in_spends_twice [OF sample_codec_roundtrip state(1-4) clear state(5) state(5) keys sample_forwardable(2,3)
        tx(1,2) route state(6) state(6) tx(3) state(8) sample_codec_roundtrip, of silent_hsm]
    by (auto simp: tx(4,5) state(7))
qed

end
