(* ===== verification/Spec2Isabelle.thy ===== *)
theory Spec2Isabelle
  imports Dialect_Properties Engine_Properties Hsm_Client Journal Edge Ledger Control_Plane
    Simulator Orchestrator Outbound_Fields Telemetry Engine_Liveness Pin_Flow Upstream Daemon Pollers
    Mock_Servers Repository_Tests Load_Profile Handlers Provenance Daemon_History Bank_Traffic
    Stand_In
begin

text \<open>
  \<^bold>\<open>Verification of the ISO 8583 payment engine\<close>

  The repository is a payment switch with its surroundings. Terminals send framed ISO 8583 messages
  to the ingress servers; a dialect parses each into a canonical event; the engine screens it,
  guards it against repetition, journals it and forwards it, under a STAN of its own, to the egress
  client of the bank its card number routes to; the bank's reply is matched to the guard entry and
  answered to the terminal. Around this path stand the HSM, the reaper that times transactions out,
  stand-in processing from cached card profiles, the ledger worker, the settlement jobs, the
  control plane that versions and publishes cards, rules and routes, and the load simulator and
  test orchestrator that drive it all.

  \<^bold>\<open>Theories and sources\<close> (paths under \<open>src/ISO8583PaymentEngine/\<close> unless a directory is given)

  \<^item> \<open>Prelude\<close>, \<open>Rust_Std\<close>: machine types, outcomes (value, error, panic), big-endian bytes;
    UTF-8, lossy conversion, slicing that panics inside a character, decimal parsing and printing.
  \<^item> \<open>Canonical\<close>: \<open>payment-proto/src/canonical.rs\<close>, \<open>payment.proto\<close>, and the conversions
    \<open>to_pb\<close> and \<open>from_pb\<close> of \<open>switch-core/src/lib.rs\<close>.
  \<^item> \<open>Runs\<close>: the locales \<open>unless_step\<close> (what holds until it is discharged, and is discharged in a
    fair run) and \<open>simulation\<close> (runs of one transition system seen as runs of another).
  \<^item> \<open>Iso_Fields\<close>, \<open>Outbound_Fields\<close>, \<open>Iso_Dialect\<close>, \<open>Standard_Dialect\<close>, \<open>Interac_Dialect\<close>, \<open>Uk_Fps_Dialect\<close>:
    bitmaps and fields, and the parsers and builders of \<open>iso-dialect/src/lib.rs\<close>,
    \<open>payment-proto/src/iso_dialect.rs\<close> and \<open>payment-proto/src/dialects/\<close>. The locale
    \<open>field_codec\<close> is the contract of one dialect's fields, \<open>dialect_adapter\<close> that of a whole dialect.
    \<open>Outbound_Fields\<close> has the outbound crate's own copy of the field helpers and shows that the
    two copies agree.
  \<^item> \<open>Framing\<close>: \<open>edge-ingress/src/codec.rs\<close>, \<open>payment-proto/src/thales.rs\<close>, \<open>iso-parser\<close>; the locale
    \<open>framing\<close> proves delivery for every chunking of a byte stream once for both codecs and for
    the copy in \<open>edge-egress/src/client.rs\<close>.
  \<^item> \<open>Routing\<close>: the BIN trie of \<open>switch-core/src/routing.rs\<close> and the compilation of published rules;
    the locale \<open>route_table\<close> is longest-prefix match.
  \<^item> \<open>Switch_State\<close>: \<open>state.rs\<close>, \<open>context.rs\<close>, \<open>tsp_vault.rs\<close>, \<open>compliance.rs\<close>, the daemon's
    hot reloads and network manager, and the STIP loader.
  \<^item> \<open>Engine\<close>, \<open>Engine_Steps\<close>: the four workers of \<open>switch-core/src/engine.rs\<close>. Each is cut where
    other threads can interleave; \<open>process_transaction\<close>, \<open>process_bank_reply\<close>, \<open>hsm_process\<close> and
    \<open>reaper_pass\<close> are the whole handlers, \<open>engine_step\<close> interleaves the pieces with arrivals,
    reloads, the clock and crashes.
  \<^item> \<open>Engine_Liveness\<close>: the same workers under fairness, and the protocol a single terminal sees.
    \<open>Handlers\<close>: the whole handlers are runs of \<open>engine_step\<close>. \<open>Stand_In\<close>: stand-in processing by two
    workers at once.
  \<^item> \<open>Provenance\<close>: histories, that is runs with the contexts that terminals submitted and the replies that
    banks sent so far; the invariant \<open>accounted\<close> traces answers, guard entries, bank messages and
    pending work back to them. \<open>Daemon_History\<close>: the same at the
    sockets. \<open>Bank_Traffic\<close>: the same on the connections to the banks and in the store.
  \<^item> \<open>Telemetry\<close>: \<open>switch-core/src/lib.rs\<close>, the masked lines, the bounded log and the counters.
  \<^item> \<open>Hsm_Client\<close>: \<open>switch-core/src/hsm_client.rs\<close>, the stand-alone client of \<open>hsm-client\<close>, and the mock HSM.
    \<open>Pin_Flow\<close> runs PIN translation through the engine; its locale \<open>pin_service\<close> is what the
    engine relies on.
  \<^item> \<open>Journal\<close>: the journal writer, its reader in the daemon, and the settlement sweep and cut-off of
    \<open>switch-core/src/bin/settle.rs\<close>.
  \<^item> \<open>Edge\<close>: \<open>edge-ingress/src/server.rs\<close>, \<open>edge-egress/src/client.rs\<close> with its store-and-forward queue,
    the mock bank and the mock ATM.
  \<^item> \<open>Upstream\<close>: \<open>edge-egress/src/lib.rs\<close> and the connection loop of \<open>client.rs\<close>: several clients over
    one store-and-forward database.
  \<^item> \<open>Daemon\<close>: the accept, read and message tasks of \<open>payment-daemon/src/main.rs\<close> and
    \<open>edge-ingress/src/server.rs\<close> around the engine.
  \<^item> \<open>Pollers\<close>: the compliance and ledger pollers, the views of routes and ledger rows, and the
    STIP loader's main function.
  \<^item> \<open>Mock_Servers\<close>: whole sessions of the mock HSM and the mock bank.
  \<^item> \<open>Ledger\<close>: \<open>switch-core/src/ledger_worker.rs\<close>, the settlement updates and the liquidity view.
  \<^item> \<open>Control_Plane\<close>: \<open>ops-control-plane/src/main.rs\<close>; the locale \<open>versioned_table\<close> is the contract
    of its tables.
  \<^item> \<open>Simulator\<close>: \<open>ISO8583PaymentSimulator/src/engine.rs\<close> and \<open>main.rs\<close>; \<open>worker_step\<close> interleaves the
    workers over their atomic counters. \<open>Load_Profile\<close>: the weights of a start request, the draws made
    with them, the status report, the pulses and the views passed on from the daemon.
  \<^item> \<open>Orchestrator\<close>: \<open>test-orchestrator/src/main.rs\<close>, its log and the viewers of the log included.
  \<^item> \<open>Repository_Tests\<close>: the repository's own unit tests and debugging binaries on the model.
  \<^item> \<open>Dialect_Properties\<close>, \<open>Engine_Properties\<close> and this theory state what the components, and
    the components together, guarantee.

  \<^bold>\<open>State and errors.\<close> Structs are records, enums datatypes. A concurrent hash map is an
  association list where the code iterates over it, otherwise a map. A panic is an outcome of its
  own: it ends the worker, task or handler that ran the code; the slices and indices of the
  dialect parsers panic out of range. The engine starts on any contents of \<open>stip.db\<close>, and the
  egress clients on any contents of the store-and-forward database. Answers to terminals are logged
  under the number of the responder they consume.

  \<^bold>\<open>What the lemmas show.\<close> Messages: round trips of every dialect, typing of
  parsed events, where parsers can panic, delivery of frames. Engine: at most one answer per
  terminal in every reachable state; exact effect of forwarding, replies, duplicates, declines,
  stand-in decisions and timeouts; every approval is a bank's, for the request it answers, whatever
  profiles the stand-in database held at the start, and every message to a bank is a probe or what a
  terminal asked for; in every fair run a waiting terminal is answered, if the journal stays open, no
  eviction of its key is left over and no reversal names its STAN; what one terminal sees refines a
  protocol of three states; two workers standing in for one card can spend its balance twice. PIN
  blocks: translated between terminal and bank, end to end. Daemon: its tasks run the engine, every
  frame answers one message of its connection, and what is written to a bank goes back to such a
  message. Storage: the journal view shows the newest hundred entries written, sweeping in any number of
  ticks tallies every entry once, a stored reversal whose key no task has pending for removal leaves
  the store only when written or replaced. Ledger and control plane: booking in order, what a reversal
  offsets, conservation under settlement, append-only versions, a sanctions table that is enforced
  once polled. Simulator: counters agree with the workers, every run ends with its volume completed.
  Orchestrator: every viewer is shown a contiguous part of the log. This theory: an authorization
  from terminal to bank and back, its reversal in the ledger, its absence from settlement, a
  disconnecting terminal, a payment with a device token, and published thresholds in force. Where a
  theorem compares guard keys it takes RRN and STAN to have no dash, which the dialects do not
  check. Some theorems state behaviour the code does not mean to have; the manifest lists these as
  findings.

  \<^bold>\<open>Granularity.\<close> Steps of different threads interleave at every access to the guard, at the read and
  the store of a stand-in profile, at each row that a store-and-forward task writes or removes, and
  at the length and the encoding of a journal entry. One reversal marks the guard in one step, where
  the code locks it shard by shard. The ledger channel is the log of what was sent: its bound delays
  senders and loses nothing. Errors of the embedded databases are not modelled.

  \<^bold>\<open>Termination.\<close> There is no fuel. \<open>run_job\<close> ends because each piece of work leaves one of lower
  rank, the readers because their offset grows, \<open>read_bitmaps\<close> because it reads at most three;
  endless loops of the code are step relations or folds over the inputs they receive.

  \<^bold>\<open>Parameters.\<close> prost, bincode, hex and sqlx decoding, \<open>rand\<close>, floating-point arithmetic, the success
  of sockets, HTTP calls and database calls, and clocks.

  \<^bold>\<open>Not modelled.\<close> Process start-up and wiring, HTTP routing and JSON syntax, and exporters of metrics;
  outside the Rust workspace, the operator's web page with its relay and the Python test scripts.
\<close>

section \<open>A terminal that disconnects\<close>

lemma clears_disconnect:
  assumes "clears_screening st ctx tx"
  shows "clears_screening st (server_disconnect (ctx_transaction ctx)) (tx\<lparr>mti := ascii ''0420''\<rparr>)"
proof -
  have "tsp_intercept (memory_state st) (ctx_transaction ctx\<lparr>mti := m\<rparr>) = Ok (Some (tx\<lparr>mti := m\<rparr>))" for m
    using assms
    by (auto simp: clears_screening_def tsp_intercept_def Let_def split: if_splits option.splits)
  moreover have "risk_declined (stip (memory_state st)) (tx\<lparr>mti := m\<rparr>) = risk_declined (stip (memory_state st)) tx" for m
    by (simp add: risk_declined_def risk_threshold_def)
  ultimately show ?thesis
    using assms
    by (simp add: clears_screening_def server_disconnect_def compliance_evaluate_def for_switch_def)
qed

lemma key_disconnect: "context_key (server_disconnect (ctx_transaction ctx)) = context_key ctx"
  by (simp add: context_key_def server_disconnect_def Let_def)

text \<open>
  C38. The reversal of a disconnected terminal goes nowhere. When the terminal's socket drops while
  its transaction is with the bank, the ingress server hands the engine a 0420 built from the
  request; the engine takes it for a repetition of the request, since it is guarded under the same
  key and not marked as a reversal, and neither tells the bank nor changes any state.
\<close>

theorem disconnect_reversal_dropped:
  assumes "clears_screening st ctx tx" and "entry_of st (context_key ctx) = None"
    and "pin_block tx = []" and "mac_data tx = None" and "journal_open st"
    and "select_egress (memory_state st) tx = Some ch"
    and "try_send (outbound st tx) (channels st ch) = Some c"
  shows "process_transaction cd (server_disconnect (ctx_transaction ctx)) (process_transaction cd ctx st)
    = process_transaction cd ctx st"
proof -
  let ?st = "forwarded ctx tx ch c st" and ?ctx = "server_disconnect (ctx_transaction ctx)"
  have run: "process_transaction cd ctx st = ?st" using assms by (rule process_forwarded)
  have "clears_screening ?st ?ctx (tx\<lparr>mti := ascii ''0420''\<rparr>)"
    using clears_disconnect [OF assms(1)] by (simp add: clears_forwarded)
  moreover have "entry_of ?st (context_key ?ctx) \<noteq> None"
    by (simp add: key_disconnect forwarded_def translated_def Let_def)
  ultimately show ?thesis
    unfolding run
    by (auto simp: process_transaction_def admit_clear guard_or_duplicate_def respond_def
        server_disconnect_def Let_def)
qed

theorem disconnect_reversal_dropped_witness:
  "process_transaction sample_codec (server_disconnect sample_event)
      (process_transaction sample_codec sample_context sample_engine)
    = process_transaction sample_codec sample_context sample_engine"
  using disconnect_reversal_dropped [OF sample_clears sample_forwardable(1-4) sample_route sample_room]
  by (simp add: sample_forwardable(10))

section \<open>A transaction through switch and bank\<close>

lemma stan_fits: "fits (next_egress_stan g) 6"
  by (simp add: fits_def next_egress_stan_def length_format_padded)

lemma bank_answers_outbound:
  fixes st :: engine
  assumes "exact_event tx" and "mti tx = ascii ''0100''"
  defines "sent \<equiv> ctx_transaction (outbound st tx)"
  shows "\<exists>msg. bank_receive Connex (egress_encode sent) = Ok (Some msg) \<and>
    egress_read msg = Ok (Some (to_pb (sent\<lparr>mti := ascii ''0110'', response_code := bank_verdict tx\<rparr>)))"
proof -
  have "exact_event sent" and "mti sent = ascii ''0100''" and "bank_verdict sent = bank_verdict tx"
    using assms(2) exact_stan [OF assms(1) stan_fits] by (simp_all add: sent_def outbound_def bank_verdict_def)
  then show ?thesis using bank_exchange [of sent] by simp
qed

text \<open>
  C13. A transaction end to end. An authorization that the wire carries in full, admitted and
  forwarded, encoded by the egress client, decoded, decided and answered by the bank, decoded
  again and handed to the engine, ends in one answer to its terminal. The answer has the
  bank's decision, the RRN, amount and card of the request, but the STAN the switch gave it, not
  the one the terminal sent.
\<close>

theorem authorization_end_to_end:
  assumes "clears_screening st ctx tx" and "entry_of st (context_key ctx) = None"
    and "pin_block tx = []" and "mac_data tx = None" and "journal_open st"
    and "select_egress (memory_state st) tx = Some ch"
    and "try_send (outbound st tx) (channels st ch) = Some c"
    and "ctx_responder ctx = Some r"
    and "exact_event tx" and "mti tx = ascii ''0100''"
  shows "\<exists>msg reply answer.
    bank_receive Connex (egress_encode (ctx_transaction (outbound st tx))) = Ok (Some msg) \<and>
    egress_read msg = Ok (Some reply) \<and>
    answers (process_bank_reply cd reply (process_transaction cd ctx st)) = answers st @ [(r, answer)] \<and>
    mti answer = ascii ''0110'' \<and>
    response_code answer = (if amount tx > 50000 then ascii ''51''
      else if ends_with (fpan tx) (ascii ''9999'') then ascii ''59'' else ascii ''00'') \<and>
    rrn answer = rrn tx \<and> amount answer = amount tx \<and> fpan answer = from_utf8_lossy (fpan tx) \<and>
    stan answer = next_egress_stan (memory_state st)"
proof -
  let ?sent = "ctx_transaction (outbound st tx)"
  let ?reply = "to_pb (?sent\<lparr>mti := ascii ''0110'', response_code := bank_verdict tx\<rparr>)"
  obtain msg where msg: "bank_receive Connex (egress_encode ?sent) = Ok (Some msg)"
    "egress_read msg = Ok (Some ?reply)"
    using bank_answers_outbound [OF assms(9,10)] by blast
  have reply: "pb_stan ?reply = next_egress_stan (memory_state st)" "pb_rrn ?reply = rrn tx"
    "pb_acquirer_id ?reply = from_utf8_lossy (acquirer_id tx)"
    by (simp_all add: to_pb_def outbound_def)
  have "answers (process_bank_reply cd ?reply (process_transaction cd ctx st)) = answers st @ [(r, approval_of ?reply)]"
    using forward_then_reply [OF assms(1-8) reply] by (simp add: Let_def)
  then show ?thesis
    using msg by (intro exI [of _ msg] exI [of _ ?reply] exI [of _ "approval_of ?reply"])
      (simp add: approval_of_def from_pb_def to_pb_def outbound_def bank_verdict_def)
qed

theorem authorization_end_to_end_witness:
  "\<exists>reply answer. answers (process_bank_reply sample_codec reply
      (process_transaction sample_codec sample_context sample_engine)) = [(7, answer)] \<and>
    response_code answer = ascii ''00'' \<and> stan answer = ascii ''000000'' \<and> stan sample_event = ascii ''123456''"
proof -
  have "\<not> amount sample_event > 50000" "\<not> ends_with (fpan sample_event) (ascii ''9999'')"
    "stan sample_event = ascii ''123456''"
    by (simp_all add: sample_event_def blank_event_def ends_with_def ascii_def)
  then show ?thesis
    using authorization_end_to_end [OF sample_clears sample_forwardable(1-4) sample_route sample_room
        sample_forwardable(9) sample_event_exact, of sample_codec]
    by (auto simp: sample_forwardable sample_stan)
qed

section \<open>A payment with a device token\<close>

lemma dpan_not_sent: "egress_encode (tx\<lparr>dpan := d\<rparr>) = egress_encode tx" "to_pb (tx\<lparr>dpan := d\<rparr>) = to_pb tx"
  by (simp_all add: egress_encode_def universal_encode_def universal_segments_def amount_present_def
      wire_mti_def to_pb_def)

lemma bank_answers_token:
  fixes st :: engine
  assumes "exact_event (tx\<lparr>dpan := None\<rparr>)" and "mti tx = ascii ''0100''"
  defines "sent \<equiv> ctx_transaction (outbound st tx)"
  shows "\<exists>msg. bank_receive Connex (egress_encode sent) = Ok (Some msg) \<and>
    egress_read msg = Ok (Some (to_pb (sent\<lparr>mti := ascii ''0110'', response_code := bank_verdict tx\<rparr>)))"
proof -
  have "ctx_transaction (outbound st (tx\<lparr>dpan := None\<rparr>)) = sent\<lparr>dpan := None\<rparr>"
    "sent\<lparr>dpan := None, mti := m, response_code := c\<rparr> = sent\<lparr>mti := m, response_code := c\<rparr>\<lparr>dpan := None\<rparr>"
    "bank_verdict (tx\<lparr>dpan := None\<rparr>) = bank_verdict tx" for m c
    by (simp_all add: sent_def outbound_def bank_verdict_def)
  then show ?thesis
    using bank_answers_outbound [OF assms(1), of st] assms(2) by (simp only: dpan_not_sent) simp
qed

lemma answer_on_wire:
  assumes "wire_exact tx" and "text_fields_ok tx"
  shows "\<exists>seen. standard_parse (standard_build_response (approval_of (to_pb (tx\<lparr>mti := m, response_code := c\<rparr>)))) = Ok seen \<and>
    fpan seen = fpan tx \<and> \<not> is_tokenized seen"
proof -
  let ?answer = "approval_of (to_pb (tx\<lparr>mti := m, response_code := c\<rparr>))"
  have "wire_wf ?answer" and "fpan ?answer = fpan tx" and "\<not> is_tokenized ?answer"
    using assms by (simp_all add: approval_of_def from_pb_def to_pb_def wire_wf_def lengths_wf_def
        wire_exact_def text_fields_ok_def)
  then show ?thesis
    using standard_roundtrip_view [of ?answer] by (simp add: standard_view_def view_from_def)
qed

text \<open>
  C40. A device token does not hide the card from the terminal. When a payment with a token that the
  vault knows is forwarded and the bank answers, the engine answers the terminal with the bank's
  copy of the transaction, and the bytes the standard dialect writes for it hold the card number
  behind the token, without the mark of a token.
\<close>

theorem token_payment_reveals_card:
  assumes "clears_screening st ctx tx" and "entry_of st (context_key ctx) = None"
    and "pin_block tx = []" and "mac_data tx = None" and "journal_open st"
    and "select_egress (memory_state st) tx = Some ch"
    and "try_send (outbound st tx) (channels st ch) = Some c"
    and "ctx_responder ctx = Some r" and "is_tokenized (ctx_transaction ctx)"
    and "exact_event (tx\<lparr>dpan := None\<rparr>)" and "text_fields_ok tx" and "mti tx = ascii ''0100''"
  shows "\<exists>card msg reply answer seen.
    detokenize (token_map (memory_state st)) (from_utf8_lossy (fpan (ctx_transaction ctx))) = Some card \<and>
    bank_receive Connex (egress_encode (ctx_transaction (outbound st tx))) = Ok (Some msg) \<and>
    egress_read msg = Ok (Some reply) \<and>
    answers (process_bank_reply cd reply (process_transaction cd ctx st)) = answers st @ [(r, answer)] \<and>
    standard_parse (standard_build_response answer) = Ok seen \<and> fpan seen = card \<and> \<not> is_tokenized seen"
proof -
  let ?sent = "ctx_transaction (outbound st tx)"
  let ?reply = "to_pb (?sent\<lparr>mti := ascii ''0110'', response_code := bank_verdict tx\<rparr>)"
  have card: "detokenize (token_map (memory_state st)) (from_utf8_lossy (fpan (ctx_transaction ctx))) = Some (fpan tx)"
    using assms(1,9)
    by (auto simp: clears_screening_def tsp_intercept_def Let_def split: option.splits)
  obtain msg where msg: "bank_receive Connex (egress_encode ?sent) = Ok (Some msg)"
    "egress_read msg = Ok (Some ?reply)"
    using bank_answers_token [OF assms(10,12)] by blast
  have reply: "pb_stan ?reply = next_egress_stan (memory_state st)" "pb_rrn ?reply = rrn tx"
    "pb_acquirer_id ?reply = from_utf8_lossy (acquirer_id tx)"
    by (simp_all add: to_pb_def outbound_def)
  have answered: "answers (process_bank_reply cd ?reply (process_transaction cd ctx st)) = answers st @ [(r, approval_of ?reply)]"
    using forward_then_reply [OF assms(1-8) reply] by (simp add: Let_def)
  have "wire_exact ?sent" "text_fields_ok ?sent" "fpan ?sent = fpan tx"
    using assms(10,11) stan_fits [of "memory_state st"]
    by (simp_all add: exact_event_def wire_exact_def wire_wf_def lengths_wf_def text_fields_ok_def outbound_def
        split: option.splits)
  then obtain seen where "standard_parse (standard_build_response (approval_of ?reply)) = Ok seen"
    "fpan seen = fpan tx" "\<not> is_tokenized seen"
    using answer_on_wire by fastforce
  then show ?thesis using card msg answered by blast
qed

lemma apple_pay_exact: "exact_event apple_pay_event" "text_fields_ok apple_pay_event"
  by (simp_all add: exact_event_def wire_exact_def wire_wf_def lengths_wf_def off_wire_blank_def fits_def
      plain_cryptogram_def starts_with_def text_fields_ok_def apple_pay_event_def class_of_mti_def
      reversal_mti_def ascii_def valid_utf8_ascii)

lemma apple_pay_received:
  "\<exists>frm payload. trigger_apple_pay True True = Ok (ascii ''Successfully Trigerred Apple Pay Token Flow'', Some frm) \<and>
    iso8583_decode frm = Ok (Some payload, []) \<and>
    server_receive standard_parse payload r = Ok (Some \<lparr>ctx_transaction = apple_pay_event, ctx_responder = Some r\<rparr>)"
proof -
  let ?p = "egress_encode apple_pay_event"
  have "length ?p < 65536" using egress_encode_fits [of apple_pay_event] by simp
  moreover have "standard_parse ?p = Ok apple_pay_event"
    using standard_roundtrip_view [of apple_pay_event] universal_view_exact [of apple_pay_event] apple_pay_exact(1)
    by (simp add: exact_event_def wire_exact_def standard_view_eq standard_bytes)
  ultimately show ?thesis
    by (intro exI [of _ "length_prefixed ?p"] exI [of _ ?p])
      (simp add: trigger_apple_pay_def egress_encode_ok server_receive_def decode_length_prefixed)
qed

theorem token_payment_reveals_card_witness:
  "\<exists>frm payload ctx reply answer seen.
    trigger_apple_pay True True = Ok (ascii ''Successfully Trigerred Apple Pay Token Flow'', Some frm) \<and>
    iso8583_decode frm = Ok (Some payload, []) \<and> server_receive standard_parse payload 7 = Ok (Some ctx) \<and>
    answers (process_bank_reply sample_codec reply (process_transaction sample_codec ctx sample_engine)) = [(7, answer)] \<and>
    standard_parse (standard_build_response answer) = Ok seen \<and> fpan seen = ascii ''4111222233334444''"
proof -
  let ?ctx = "\<lparr>ctx_transaction = apple_pay_event, ctx_responder = Some 7\<rparr>"
  let ?tx = "apple_pay_event\<lparr>fpan := ascii ''4111222233334444'', dpan := Some (ascii ''4000000000009999'')\<rparr>"
  have vault: "token_map (memory_state sample_engine) = tsp_vault_new" by (simp add: sample_defs)
  have clears: "clears_screening sample_engine ?ctx ?tx"
    by (simp add: clears_screening_def sample_defs apple_pay_event_def compliance_evaluate_def ascii_def valid_utf8_ascii
        tsp_intercept_def risk_declined_def detokenize_def tsp_vault_new_def mask_pan_def str_slice_def
        is_char_boundary_def is_cont_def)
  have route: "select_egress (memory_state sample_engine) ?tx = Some 0"
    by (simp add: sample_defs select_egress_def trie_find_compiled rows_map_def row_route_def apple_pay_event_def
        row_destination_def ascii_def select_node_def is_online_def)
  have room: "try_send (outbound sample_engine ?tx) (channels sample_engine 0)
      = Some ((channels sample_engine 0)\<lparr>queue := [outbound sample_engine ?tx]\<rparr>)"
    by (simp add: try_send_def sample_engine_def engine_start_def Let_def)
  have exact: "exact_event (?tx\<lparr>dpan := None\<rparr>)" "text_fields_ok ?tx"
    using apple_pay_exact
    by (simp_all add: exact_event_def wire_exact_def wire_wf_def lengths_wf_def off_wire_blank_def
        text_fields_ok_def ascii_def valid_utf8_ascii split: option.splits)
  have fresh: "entry_of sample_engine (context_key ?ctx) = None" by (simp add: sample_defs)
  have "is_tokenized apple_pay_event" "pin_block ?tx = []" "mac_data ?tx = None" "mti ?tx = ascii ''0100''"
    "detokenize tsp_vault_new (from_utf8_lossy (fpan apple_pay_event)) = Some (ascii ''4111222233334444'')"
    by (simp_all add: apple_pay_event_def detokenize_def tsp_vault_new_def ascii_def valid_utf8_ascii)
  then obtain reply answer seen where "answers (process_bank_reply sample_codec reply
      (process_transaction sample_codec ?ctx sample_engine)) = [(7, answer)]"
    "standard_parse (standard_build_response answer) = Ok seen" "fpan seen = ascii ''4111222233334444''"
    using token_payment_reveals_card [OF clears fresh _ _ sample_forwardable(4) route room, of 7 sample_codec]
      exact vault by (auto simp: sample_forwardable(5))
  then show ?thesis using apple_pay_received [of 7] by blast
qed

section \<open>Settlement of what the switch journals\<close>

text \<open>
  C39. Settlement does not count what the switch approves. The journal entries of a forwarded
  authorization and of the bank's approval leave the settlement tallies unchanged: the request has
  no response code yet, and the reply is journaled as 0110 while the sweep counts only 0100.
\<close>

theorem approved_transaction_not_settled:
  assumes "clears_screening st ctx tx" and "entry_of st (context_key ctx) = None"
    and "pin_block tx = []" and "mac_data tx = None" and "journal_open st"
    and "select_egress (memory_state st) tx = Some ch"
    and "try_send (outbound st tx) (channels st ch) = Some c"
    and "ctx_responder ctx = Some r"
    and "exact_event tx" and "mti tx = ascii ''0100''" and "response_code tx = []"
  shows "\<exists>msg reply entries.
    bank_receive Connex (egress_encode (ctx_transaction (outbound st tx))) = Ok (Some msg) \<and>
    egress_read msg = Ok (Some reply) \<and>
    journal (process_bank_reply cd reply (process_transaction cd ctx st)) = journal st @ entries \<and>
    length entries = 2 \<and> settle_all entries db = Ok db"
proof -
  let ?sent = "ctx_transaction (outbound st tx)"
  let ?reply = "to_pb (?sent\<lparr>mti := ascii ''0110'', response_code := bank_verdict tx\<rparr>)"
  obtain msg where msg: "bank_receive Connex (egress_encode ?sent) = Ok (Some msg)"
    "egress_read msg = Ok (Some ?reply)"
    using bank_answers_outbound [OF assms(9,10)] by blast
  have reply: "pb_stan ?reply = next_egress_stan (memory_state st)" "pb_rrn ?reply = rrn tx"
    "pb_acquirer_id ?reply = from_utf8_lossy (acquirer_id tx)"
    by (simp_all add: to_pb_def outbound_def)
  have "journal (process_bank_reply cd ?reply (process_transaction cd ctx st)) = journal st @ [to_pb tx, ?reply]"
    using forward_then_reply [OF assms(1-8) reply] by (simp add: Let_def)
  moreover have "pb_response_code (to_pb tx) \<noteq> ascii ''00''" and "pb_mti ?reply \<noteq> ascii ''0100''"
    using assms(11) by (simp_all add: to_pb_def ascii_def valid_utf8_ascii)
  then have "settle_all [to_pb tx, ?reply] db = Ok db" by (simp add: settle_tx_def)
  ultimately show ?thesis
    using msg by (intro exI [of _ msg] exI [of _ ?reply] exI [of _ "[to_pb tx, ?reply]"]) simp
qed

theorem approved_transaction_not_settled_witness:
  "\<exists>reply entries. journal (process_bank_reply sample_codec reply
      (process_transaction sample_codec sample_context sample_engine)) = entries \<and>
    length entries = 2 \<and> settle_all entries [] = Ok []"
proof -
  have "response_code sample_event = []" by (simp add: sample_event_def blank_event_def)
  then show ?thesis
    using approved_transaction_not_settled [OF sample_clears sample_forwardable(1-4) sample_route sample_room
        sample_forwardable(9) sample_event_exact, of sample_codec]
    by (auto simp: sample_forwardable)
qed

section \<open>Reversals and the ledger\<close>

text \<open>What a reversal does to the guard and sends to the ledger, entry by entry.\<close>

definition named_by :: "rstring \<Rightarrow> rstring \<times> active_transaction \<Rightarrow> bool" where
  "named_by s e \<longleftrightarrow> pb_stan (transaction_data (snd e)) = s"

lemma mark_reversed_eq:
  "mark_reversed rv s es =
     (map (\<lambda>e. if named_by s e then (fst e, (snd e)\<lparr>at_state := ReversedPending\<rparr>) else e) es,
      map (\<lambda>e. rv\<lparr>rrn := pb_rrn (transaction_data (snd e))\<rparr>) (filter (named_by s) es))"
  by (induction rv s es rule: mark_reversed.induct) (auto simp: named_by_def)

lemma posting_row:
  assumes "list_all (\<lambda>b. b < 0x80) (fpan tx)"
  shows "\<exists>row. posting pct_fee fees accounts tx = Ok row \<and> trace_rrn row = rrn tx \<and>
    principal_amount row = (if is_reversal tx then - amount tx else amount tx)"
  using posting_ascii [OF assms, of pct_fee fees accounts] by (auto simp: posting_def bindo_eq_Ok Let_def)

text \<open>A reversal that passes the screens and names the STAN of the original transaction.\<close>

definition clears_reversal :: "engine \<Rightarrow> transaction_context \<Rightarrow> event \<Rightarrow> rstring \<Rightarrow> bool" where
  "clears_reversal st ctx rv s \<longleftrightarrow>
     compliance_evaluate (compliance_cache st) ctx = Ok False \<and>
     tsp_intercept (memory_state st) (ctx_transaction ctx) = Ok (Some rv) \<and>
     \<not> risk_declined (stip (memory_state st)) rv \<and>
     \<not> (message_class rv = NetworkManagement \<and> for_switch rv) \<and> is_reversal rv \<and>
     original_stan rv = Ok (Some s)"

lemma clears_reversal_forwarded:
  "clears_reversal (forwarded ctx' tx ch c st) ctx rv s = clears_reversal st ctx rv s"
  by (simp add: clears_reversal_def forwarded_def translated_def Let_def tsp_intercept_def)

lemma process_reversal:
  assumes "clears_reversal st ctx rv s" and "mark_reversed rv s (idempotency_guard st) = (guard, evs)"
  shows "process_transaction cd ctx st = respond (ctx_responder ctx)
    (rv\<lparr>mti := ascii ''0430'', response_code := ascii ''00''\<rparr>)
    (st\<lparr>idempotency_guard := guard, ledger_queue := ledger_queue st @ evs\<rparr>)"
  using assms
  by (auto simp: clears_reversal_def process_transaction_def admit_def admit_screened_def
      apply_reversal_def Let_def)

text \<open>
  C15. A reversal offsets by its own amount. After a transaction is forwarded and a reversal that
  names its STAN is taken, the ledger worker has been sent the transaction, one copy of the
  reversal under the RRN of the transaction, and one more for every other guarded transaction with
  that STAN, whoever acquired it; each of those entries, and no other, is marked as reversed, and
  the terminal that sent the reversal gets an approved 0430. The two rows posted under the RRN of
  the transaction net to its amount minus the amount that the reversal itself carries, so they
  cancel only if the two amounts are equal, which the code does not check; with the same card too,
  the fees cancel as well, whatever the fee matrix and the chart of accounts say.
\<close>

theorem reversal_offsets_own_amount:
  assumes "clears_screening st ctx tx" and "entry_of st (context_key ctx) = None"
    and "pin_block tx = []" and "mac_data tx = None" and "journal_open st"
    and "select_egress (memory_state st) tx = Some ch"
    and "try_send (outbound st tx) (channels st ch) = Some c"
    and "clears_reversal st rctx rv (stan tx)" and "ctx_responder rctx = Some r"
    and "list_all (\<lambda>b. b < 0x80) (fpan tx)" and "list_all (\<lambda>b. b < 0x80) (fpan rv)"
  shows "\<exists>a b. let original = tx\<lparr>stan := next_egress_stan (memory_state st)\<rparr>;
      st1 = process_transaction cd ctx st; st' = process_transaction cd rctx st1 in
    ledger_queue st' = ledger_queue st @ [original, rv\<lparr>rrn := rrn tx\<rparr>] @
      map (\<lambda>e. rv\<lparr>rrn := pb_rrn (transaction_data (snd e))\<rparr>) (filter (named_by (stan tx)) (idempotency_guard st)) \<and>
    idempotency_guard st' = map (\<lambda>e. if named_by (stan tx) e
      then (fst e, (snd e)\<lparr>at_state := ReversedPending\<rparr>) else e) (idempotency_guard st1) \<and>
    answers st' = answers st @ [(r, rv\<lparr>mti := ascii ''0430'', response_code := ascii ''00''\<rparr>)] \<and>
    posting pct_fee fees accounts original = Ok a \<and> posting pct_fee fees accounts (rv\<lparr>rrn := rrn tx\<rparr>) = Ok b \<and>
    trace_rrn a = rrn tx \<and> trace_rrn b = rrn tx \<and>
    principal_amount a + principal_amount b = amount tx - amount rv \<and>
    (principal_amount a + principal_amount b = 0 \<longleftrightarrow> amount rv = amount tx) \<and>
    (fpan rv = fpan tx \<and> amount rv = amount tx \<longrightarrow> fee_amount a + fee_amount b = 0)"
proof -
  let ?st = "forwarded ctx tx ch c st" and ?sent = "ctx_transaction (outbound st tx)"
  let ?off = "rv\<lparr>rrn := rrn tx\<rparr>" and ?mark = "mark_reversed rv (stan tx)"
  have run: "process_transaction cd ctx st = ?st" using assms(1-7) by (rule process_forwarded)
  obtain en where guard: "idempotency_guard ?st = (context_key ctx, en) # idempotency_guard st"
    "transaction_data en = to_pb tx"
    by (simp add: forwarded_def translated_def Let_def)
  have evs: "snd (?mark (idempotency_guard ?st)) = ?off #
      map (\<lambda>e. rv\<lparr>rrn := pb_rrn (transaction_data (snd e))\<rparr>) (filter (named_by (stan tx)) (idempotency_guard st))"
    by (simp add: mark_reversed_eq guard) (simp add: named_by_def guard to_pb_def)
  have "process_transaction cd rctx ?st = respond (ctx_responder rctx)
      (rv\<lparr>mti := ascii ''0430'', response_code := ascii ''00''\<rparr>)
      (?st\<lparr>idempotency_guard := fst (?mark (idempotency_guard ?st)),
         ledger_queue := ledger_queue ?st @ snd (?mark (idempotency_guard ?st))\<rparr>)"
    using assms(8) by (intro process_reversal) (simp_all add: clears_reversal_forwarded)
  then have "let st' = process_transaction cd rctx ?st in
    ledger_queue st' = ledger_queue st @ ?sent # snd (?mark (idempotency_guard ?st)) \<and>
    idempotency_guard st' = fst (?mark (idempotency_guard ?st)) \<and>
    answers st' = answers st @ [(r, rv\<lparr>mti := ascii ''0430'', response_code := ascii ''00''\<rparr>)]"
    using assms(9) by (simp add: forwarded_def translated_def respond_def Let_def)
  moreover have sent: "fpan ?sent = fpan tx" "amount ?sent = amount tx" "\<not> is_reversal ?sent" "rrn ?sent = rrn tx"
    using assms(1) by (simp_all add: outbound_def clears_screening_def)
  moreover have rv: "is_reversal ?off" using assms(8) by (simp add: clears_reversal_def)
  obtain a where a: "posting pct_fee fees accounts ?sent = Ok a" "trace_rrn a = rrn tx" "principal_amount a = amount tx"
    using posting_row [of ?sent pct_fee fees accounts] assms(10) sent by auto
  moreover obtain b where b: "posting pct_fee fees accounts ?off = Ok b" "trace_rrn b = rrn tx"
    "principal_amount b = - amount rv"
    using posting_row [of ?off pct_fee fees accounts] assms(11) rv by auto
  moreover have "fee_amount a + fee_amount b = 0" if "fpan rv = fpan tx" "amount rv = amount tx"
    using posting_offset(1) [OF a(1) sent(3) rv] b(1) that sent(1,2) by simp
  moreover have "fst (?mark (idempotency_guard ?st)) = map (\<lambda>e. if named_by (stan tx) e
      then (fst e, (snd e)\<lparr>at_state := ReversedPending\<rparr>) else e) (idempotency_guard ?st)"
    by (simp add: mark_reversed_eq)
  ultimately show ?thesis
    unfolding run evs Let_def by (intro exI [of _ a] exI [of _ b]) (auto simp: outbound_def)
qed

text \<open>The sample transaction, of 500, is reversed by its terminal for 400.\<close>

definition sample_reversal :: event where
  "sample_reversal = sample_event\<lparr> mti := ascii ''0420'', message_class := ReversalAdvice, is_reversal := True,
     amount := 400, stan := ascii ''123457'', original_data_elements := Some (ascii ''01001234560101120000'') \<rparr>"

lemma sample_reversal_clears:
  "clears_reversal sample_engine \<lparr>ctx_transaction = sample_reversal, ctx_responder = Some 8\<rparr>
    sample_reversal (stan sample_event)"
proof -
  have "str_slice (ascii ''01001234560101120000'') 4 10 = Some (ascii ''123456'')"
    by (simp add: str_slice_def is_char_boundary_def is_cont_def ascii_def)
  then have "original_stan sample_reversal = Ok (Some (stan sample_event))"
    by (simp add: original_stan_def sample_reversal_def sample_event_def) (simp add: ascii_def)
  moreover have "compliance_evaluate (compliance_cache sample_engine)
      \<lparr>ctx_transaction = sample_reversal, ctx_responder = Some 8\<rparr> = Ok False"
    and "tsp_intercept (memory_state sample_engine) sample_reversal = Ok (Some sample_reversal)"
    and "\<not> risk_declined (stip (memory_state sample_engine)) sample_reversal"
    by (simp_all add: sample_reversal_def sample_defs compliance_evaluate_def ascii_def valid_utf8_ascii
        tsp_intercept_def risk_declined_def)
  ultimately show ?thesis by (simp add: clears_reversal_def) (simp add: sample_reversal_def)
qed

theorem reversal_offsets_own_amount_witness:
  "\<exists>original a b. let st' = process_transaction sample_codec
      \<lparr>ctx_transaction = sample_reversal, ctx_responder = Some 8\<rparr>
      (process_transaction sample_codec sample_context sample_engine) in
    ledger_queue st' = [original, sample_reversal] \<and>
    posting (\<lambda>_ _. 7) [ascii ''DEFAULT'' \<mapsto> \<lparr>base_pct = (), flat_fee_cents = 10, fx_markup_pct = ()\<rparr>]
      Map.empty original = Ok a \<and>
    posting (\<lambda>_ _. 7) [ascii ''DEFAULT'' \<mapsto> \<lparr>base_pct = (), flat_fee_cents = 10, fx_markup_pct = ()\<rparr>]
      Map.empty sample_reversal = Ok b \<and> principal_amount a + principal_amount b = 100"
proof -
  let ?ctx = "\<lparr>ctx_transaction = sample_reversal, ctx_responder = Some 8\<rparr>"
  have "list_all (\<lambda>b. b < 0x80) (fpan sample_event)" "list_all (\<lambda>b. b < 0x80) (fpan sample_reversal)"
    "ctx_responder ?ctx = Some 8" "amount sample_event - amount sample_reversal = 100"
    "sample_reversal\<lparr>rrn := rrn sample_event\<rparr> = sample_reversal"
    by (simp_all add: sample_reversal_def) (simp_all add: sample_event_def ascii_def blank_event_def)
  then show ?thesis
    using reversal_offsets_own_amount [OF sample_clears sample_forwardable(1-4) sample_route sample_room
        sample_reversal_clears, of 8 sample_codec "\<lambda>_ _. 7"
        "[ascii ''DEFAULT'' \<mapsto> \<lparr>base_pct = (), flat_fee_cents = 10, fx_markup_pct = ()\<rparr>]" Map.empty]
    by (auto simp: sample_forwardable Let_def)
qed

section \<open>Configuration\<close>

lemma clamp_score_le: "clamp_score s \<le> 100"
proof -
  have "uint (clamp_score s) = min 100 (max 0 (sint s))"
    by (simp add: clamp_score_def uint_word_of_int)
  then show ?thesis by (simp add: word_le_def)
qed

text \<open>
  C30. What the operator publishes is what the switch enforces. After the control plane has
  published its stand-in rules and the switch has reloaded them, the risk threshold of a
  transaction is that of the last live rule of its card network, clamped to 0..100, and 100 when
  the network has no rule; it is at most 100 in every case.
\<close>

theorem published_risk_threshold:
  "let g' = hot_reload_stip (publish_stip decimal t) g in
    risk_threshold (stip g') tx =
      (case find (\<lambda>r. stip_network_id (row_data r) = network_id (fpan tx)) (rev (live_rows t)) of
         Some r \<Rightarrow> clamp_score (stip_max_risk_score (row_data r)) | None \<Rightarrow> 100) \<and>
    risk_threshold (stip g') tx \<le> 100"
  by (simp add: risk_threshold_def hot_reload_stip_def publish_stip_def fold_rows_last clamp_score_le Let_def
      split: option.splits)

end
